(* ===== verification/Prelude.thy ===== *)
theory Prelude
  imports Main "HOL-Library.Char_ord" "HOL-Library.List_Lexorder" "HOL-Library.Multiset"
    "HOL-Library.Code_Target_Numeral"
begin

text \<open>
  What every component shares: the collections of facts the proofs pass to the
  simplifier, the reading of a Go string as a list of bytes, and generic lemmas on
  lists and options.

  A Go string is a sequence of bytes. It is modelled by \<open>string\<close>, a list of
  \<open>char\<close>, because a \<open>char\<close> is a value of 8 bits; \<open>byte\<close> reads it as a number.
\<close>

named_theorems go_simps \<open>evaluation of the models of the Go standard library\<close>
named_theorems kit_simps \<open>evaluation of the models of the kit's own operations\<close>
named_theorems effect_simps \<open>what the recorded effects of an operation are\<close>

abbreviation byte :: "char \<Rightarrow> nat" where
  "byte c \<equiv> of_char c"

lemma byte_lt_256 [simp]: "byte c < 256"
  using of_char_mod_256 [of c, where 'a = nat] mod_less_divisor [of 256 "byte c"] by simp

lemma byte_char_of [simp]: "n < 256 \<Longrightarrow> byte (char_of n) = n"
  by simp

lemma byte_eq_iff: "byte c = byte d \<longleftrightarrow> c = d"
  by simp

subsection \<open>The first element a partial function accepts\<close>

fun first_some :: "('a \<Rightarrow> 'b option) \<Rightarrow> 'a list \<Rightarrow> 'b option" where
  "first_some f [] = None"
| "first_some f (x # xs) = (case f x of Some y \<Rightarrow> Some y | None \<Rightarrow> first_some f xs)"

lemma first_some_None_iff: "first_some f xs = None \<longleftrightarrow> (\<forall>x \<in> set xs. f x = None)"
  by (induction xs) (auto split: option.splits)

lemma first_some_SomeD: "first_some f xs = Some y \<Longrightarrow> \<exists>x \<in> set xs. f x = Some y"
  by (induction xs) (auto split: option.splits)

lemma first_some_append:
  "first_some f (xs @ ys) = (case first_some f xs of Some y \<Rightarrow> Some y | None \<Rightarrow> first_some f ys)"
  by (induction xs) (auto split: option.splits)

subsection \<open>Association lists with distinct keys: Go maps in some iteration order\<close>

definition keys_of :: "('k \<times> 'v) list \<Rightarrow> 'k list" where
  "keys_of m = map fst m"

lemma keys_of_simps [simp]:
  "keys_of [] = []"
  "keys_of (kv # m) = fst kv # keys_of m"
  "keys_of (m @ m') = keys_of m @ keys_of m'"
  by (simp_all add: keys_of_def)

lemma map_of_filter_key:
  "map_of (filter (\<lambda>(k, v). P k) m) k = (if P k then map_of m k else None)"
  by (induction m) auto

lemma filter_key_keys: "keys_of (filter (\<lambda>(k, v). P k) m) = filter P (keys_of m)"
  by (induction m) auto

lemma distinct_keys_filter:
  "distinct (keys_of m) \<Longrightarrow> distinct (keys_of (filter P m))"
  by (induction m) (auto simp: keys_of_def)

end
