(* ===== verification/Propagation.thy ===== *)
theory Propagation
  imports Prelude
begin

text \<open>
  \<open>propagation/propagation.go\<close>: the correlation id and the app instance id on a
  \<open>context.Context\<close>.

  A context is a root, of which the code only calls \<open>Value\<close>, or a context with one more
  value, \<open>context.WithValue\<close>. A web request is a root whose \<open>Value\<close> resolves string keys. The
  two unexported key types of the package are constructors of their own: no other package
  can build them. A \<open>nil\<close> context is \<open>None\<close>.

  The two ids have the same contract, stated once as the locale \<open>id_carrier\<close>; \<open>two_carriers\<close>
  adds that neither disturbs the other.
\<close>

subsection \<open>Contexts\<close>

datatype gokey =
    CorrelationKey
  | AppInstanceKey
  | StringKey string
  | OtherKey nat

datatype goval =
    GoString string
  | GoOther nat

datatype goctx =
    Root "gokey \<Rightarrow> goval option"
  | ValueCtx gokey goval goctx

fun ctx_Value :: "goctx \<Rightarrow> gokey \<Rightarrow> goval option" where
  "ctx_Value (Root f) k = f k"
| "ctx_Value (ValueCtx k' v c) k = (if k = k' then Some v else ctx_Value c k)"

subsection \<open>The package\<close>

definition HeaderCorrelationID :: string where
  "HeaderCorrelationID = ''X-Correlation-ID''"

definition HeaderAppInstanceID :: string where
  "HeaderAppInstanceID = ''X-App-Instance-Id''"

definition requestValueName :: string where
  "requestValueName = ''platform.correlation_id''"

definition RequestValueName :: string where
  "RequestValueName = requestValueName"

definition appInstanceRequestValueName :: string where
  "appInstanceRequestValueName = ''platform.app_instance_id''"

definition AppInstanceRequestValueName :: string where
  "AppInstanceRequestValueName = appInstanceRequestValueName"

definition WithCorrelationID :: "goctx \<Rightarrow> string \<Rightarrow> goctx" where
  "WithCorrelationID ctx i = (if i = [] then ctx else ValueCtx CorrelationKey (GoString i) ctx)"

text \<open>A type assertion \<open>.(string)\<close>: the string, if the value is there and is one.\<close>

fun as_string :: "goval option \<Rightarrow> string option" where
  "as_string (Some (GoString s)) = Some s"
| "as_string _ = None"

definition string_at :: "string option \<Rightarrow> string" where
  "string_at v = (case v of Some s \<Rightarrow> s | None \<Rightarrow> [])"

text \<open>
  \<open>CorrelationID\<close> takes any context, of which it only uses \<open>Value\<close>; \<open>CorrelationID_of\<close> is
  its body over that method, so that the request type of the framework can be passed too.
\<close>

definition CorrelationID_of :: "(gokey \<Rightarrow> goval option) \<Rightarrow> string" where
  "CorrelationID_of val =
     (case as_string (val CorrelationKey) of
        Some v \<Rightarrow> if v \<noteq> [] then v else string_at (as_string (val (StringKey requestValueName)))
      | None \<Rightarrow> string_at (as_string (val (StringKey requestValueName))))"

definition CorrelationID :: "goctx option \<Rightarrow> string" where
  "CorrelationID ctx = (case ctx of None \<Rightarrow> [] | Some c \<Rightarrow> CorrelationID_of (ctx_Value c))"

definition WithAppInstanceID :: "goctx \<Rightarrow> string \<Rightarrow> goctx" where
  "WithAppInstanceID ctx i = (if i = [] then ctx else ValueCtx AppInstanceKey (GoString i) ctx)"

definition AppInstanceID_of :: "(gokey \<Rightarrow> goval option) \<Rightarrow> string" where
  "AppInstanceID_of val =
     (case as_string (val AppInstanceKey) of
        Some v \<Rightarrow> if v \<noteq> [] then v else string_at (as_string (val (StringKey appInstanceRequestValueName)))
      | None \<Rightarrow> string_at (as_string (val (StringKey appInstanceRequestValueName))))"

definition AppInstanceID :: "goctx option \<Rightarrow> string" where
  "AppInstanceID ctx = (case ctx of None \<Rightarrow> [] | Some c \<Rightarrow> AppInstanceID_of (ctx_Value c))"

subsection \<open>The contract of an id on a context\<close>

text \<open>The last id of a list that is not empty, or what there was before.\<close>

definition last_id :: "string \<Rightarrow> string list \<Rightarrow> string" where
  "last_id x ids = foldl (\<lambda>acc i. if i = [] then acc else i) x ids"

lemma last_id_simps [simp]:
  "last_id x [] = x"
  "last_id x (i # ids) = last_id (if i = [] then x else i) ids"
  by (simp_all add: last_id_def)

lemma last_id_filter: "last_id x ids = last (x # filter (\<lambda>i. i \<noteq> []) ids)"
  by (induction ids arbitrary: x) auto

locale id_carrier =
  fixes with_id :: "goctx \<Rightarrow> string \<Rightarrow> goctx"
    and read_id :: "goctx \<Rightarrow> string"
  assumes with_empty: "with_id c [] = c"
    and read_with: "i \<noteq> [] \<Longrightarrow> read_id (with_id c i) = i"
begin

lemma read_with_any: "read_id (with_id c i) = (if i = [] then read_id c else i)"
  by (simp add: with_empty read_with)

lemma read_fold: "read_id (foldl with_id c ids) = last_id (read_id c) ids"
  by (induction ids arbitrary: c) (simp_all add: read_with_any)

end

text \<open>Binding either id, in any order.\<close>

datatype id_bind = BindFirst string | BindSecond string

fun first_ids :: "id_bind list \<Rightarrow> string list" where
  "first_ids [] = []"
| "first_ids (BindFirst i # bs) = i # first_ids bs"
| "first_ids (BindSecond i # bs) = first_ids bs"

fun second_ids :: "id_bind list \<Rightarrow> string list" where
  "second_ids [] = []"
| "second_ids (BindFirst i # bs) = second_ids bs"
| "second_ids (BindSecond i # bs) = i # second_ids bs"

fun bind_with :: "(goctx \<Rightarrow> string \<Rightarrow> goctx) \<Rightarrow> (goctx \<Rightarrow> string \<Rightarrow> goctx) \<Rightarrow> goctx \<Rightarrow> id_bind \<Rightarrow> goctx" where
  "bind_with w1 w2 c (BindFirst i) = w1 c i"
| "bind_with w1 w2 c (BindSecond i) = w2 c i"

locale two_carriers = a: id_carrier w1 r1 + b: id_carrier w2 r2
  for w1 :: "goctx \<Rightarrow> string \<Rightarrow> goctx" and r1 :: "goctx \<Rightarrow> string"
    and w2 :: "goctx \<Rightarrow> string \<Rightarrow> goctx" and r2 :: "goctx \<Rightarrow> string" +
  assumes first_undisturbed: "r1 (w2 c i) = r1 c"
    and second_undisturbed: "r2 (w1 c i) = r2 c"
begin

lemma read_binds:
  "r1 (foldl (bind_with w1 w2) c bs) = last_id (r1 c) (first_ids bs)"
  "r2 (foldl (bind_with w1 w2) c bs) = last_id (r2 c) (second_ids bs)"
proof (induction bs arbitrary: c)
  case (Cons x bs)
  {
    case 1
    show ?case
      using Cons by (cases x) (simp_all add: a.read_with_any first_undisturbed)
  next
    case 2
    show ?case
      using Cons by (cases x) (simp_all add: b.read_with_any second_undisturbed)
  }
qed simp_all

end

lemmas propagation_defs = WithCorrelationID_def WithAppInstanceID_def CorrelationID_def
  AppInstanceID_def CorrelationID_of_def AppInstanceID_of_def string_at_def

interpretation cid_carrier: id_carrier WithCorrelationID "\<lambda>c. CorrelationID (Some c)"
  by unfold_locales (simp_all add: propagation_defs)

interpretation iid_carrier: id_carrier WithAppInstanceID "\<lambda>c. AppInstanceID (Some c)"
  by unfold_locales (simp_all add: propagation_defs)

interpretation ids: two_carriers WithCorrelationID "\<lambda>c. CorrelationID (Some c)"
  WithAppInstanceID "\<lambda>c. AppInstanceID (Some c)"
  by unfold_locales (simp_all add: propagation_defs split: option.split)

subsection \<open>Properties\<close>

text \<open>
  On a background context each id reads back as the last non-empty one bound, whatever
  was bound in between and in whatever order: an empty id changes nothing, the correlation
  id and the app instance id never disturb each other, and an id bound with \<open>With...\<close> wins
  over the request value the context was derived from.
\<close>

theorem bound_ids_read_back:
  "CorrelationID (Some (foldl (bind_with WithCorrelationID WithAppInstanceID) c bs)) =
     last (CorrelationID (Some c) # filter (\<lambda>i. i \<noteq> []) (first_ids bs))
   \<and> AppInstanceID (Some (foldl (bind_with WithCorrelationID WithAppInstanceID) c bs)) =
     last (AppInstanceID (Some c) # filter (\<lambda>i. i \<noteq> []) (second_ids bs))"
  by (simp only: ids.read_binds last_id_filter simp_thms)

end
