(* ===== verification/Framework.thy ===== *)
theory Framework
  imports Propagation
begin

text \<open>
  What the kit calls of the web framework's request context, \<open>*azugo.Context\<close>. The
  framework's code is not part of the repository: its state is the type variable \<open>'ctx\<close>, the
  methods the kit calls are the fields of the record \<open>azugo\<close>, and what the kit relies on is
  the predicate \<open>azugo_laws\<close>: a user value reads back, a string-keyed \<open>Value\<close> is a user
  value, and writing to the response, the log or the span changes nothing the kit reads.

  \<open>performed\<close> is the list of the calls made on a context so far; it is how the theorems
  speak about response, log and span.

  \<open>request\<close> is one instance that has the laws, for evaluation on concrete requests.
\<close>

datatype log_value =
    FString string
  | FInt int
  | FError string
  | FAny nat

record zfield =
  fKey :: string
  fVal :: log_value

definition zap_String :: "string \<Rightarrow> string \<Rightarrow> zfield" where
  "zap_String k v = \<lparr>fKey = k, fVal = FString v\<rparr>"

definition zap_Int :: "string \<Rightarrow> int \<Rightarrow> zfield" where
  "zap_Int k i = \<lparr>fKey = k, fVal = FInt i\<rparr>"

datatype log_level = DebugLevel | InfoLevel | WarnLevel | ErrorLevel

text \<open>Levels are ordered, as a level enabler compares them.\<close>

instantiation log_level :: linorder
begin

fun level_rank :: "log_level \<Rightarrow> nat" where
  "level_rank DebugLevel = 0"
| "level_rank InfoLevel = 1"
| "level_rank WarnLevel = 2"
| "level_rank ErrorLevel = 3"

definition less_eq_log_level :: "log_level \<Rightarrow> log_level \<Rightarrow> bool" where
  "less_eq_log_level a b \<longleftrightarrow> level_rank a \<le> level_rank b"

definition less_log_level :: "log_level \<Rightarrow> log_level \<Rightarrow> bool" where
  "less_log_level a b \<longleftrightarrow> level_rank a < level_rank b"

lemma level_rank_inject: "level_rank a = level_rank b \<longleftrightarrow> a = b"
  by (cases a; cases b) simp_all

instance
  by standard (auto simp: less_eq_log_level_def less_log_level_def level_rank_inject [symmetric])

end

datatype call =
    SetUserValue string string
  | SetHeaderAlways string string
  | SetHeader string string
  | AddLogFields "zfield list"
  | SetSpanAttribute string string
  | LogLine log_level string "zfield list"
  | SetStatusCode int
  | SetContentType string
  | Raw string

record span_context =
  scValid :: bool
  scTraceID :: string
  scSpanID :: string

record 'ctx azugo =
  header_get :: "'ctx \<Rightarrow> string \<Rightarrow> string"
  request_id :: "'ctx \<Rightarrow> string"
  user_value :: "'ctx \<Rightarrow> string \<Rightarrow> goval option"
  request_Value :: "'ctx \<Rightarrow> gokey \<Rightarrow> goval option"
  span_context_of :: "'ctx \<Rightarrow> span_context"
  span_recording :: "'ctx \<Rightarrow> bool"
  router_path :: "'ctx \<Rightarrow> string"
  request_method :: "'ctx \<Rightarrow> string"
  path_param :: "'ctx \<Rightarrow> string \<Rightarrow> string"
  perform :: "call \<Rightarrow> 'ctx \<Rightarrow> 'ctx"
  performed :: "'ctx \<Rightarrow> call list"

definition same_request :: "('ctx, 'a) azugo_scheme \<Rightarrow> 'ctx \<Rightarrow> 'ctx \<Rightarrow> bool" where
  "same_request A c d \<longleftrightarrow>
     header_get A d = header_get A c \<and> request_id A d = request_id A c \<and>
     span_context_of A d = span_context_of A c \<and> span_recording A d = span_recording A c \<and>
     router_path A d = router_path A c \<and> request_method A d = request_method A c \<and>
     path_param A d = path_param A c \<and>
     request_Value A d CorrelationKey = request_Value A c CorrelationKey \<and>
     request_Value A d AppInstanceKey = request_Value A c AppInstanceKey"

fun set_value :: "call \<Rightarrow> (string \<times> string) option" where
  "set_value (SetUserValue n v) = Some (n, v)"
| "set_value _ = None"

definition azugo_laws :: "('ctx, 'a) azugo_scheme \<Rightarrow> bool" where
  "azugo_laws A \<longleftrightarrow>
     (\<forall>x c. performed A (perform A x c) = performed A c @ [x]) \<and>
     (\<forall>x c. user_value A (perform A x c) = (case set_value x of
        None \<Rightarrow> user_value A c | Some (n, v) \<Rightarrow> (user_value A c)(n \<mapsto> GoString v))) \<and>
     (\<forall>c n. request_Value A c (StringKey n) = user_value A c n) \<and>
     (\<forall>x c. same_request A c (perform A x c))"

lemma same_request_refl [simp]: "same_request A c c"
  by (simp add: same_request_def)

lemma same_request_trans: "same_request A c d \<Longrightarrow> same_request A d e \<Longrightarrow> same_request A c e"
  by (simp add: same_request_def)

lemma azugo_lawsD:
  assumes "azugo_laws A"
  shows "performed A (perform A x c) = performed A c @ [x]"
    and "set_value x = None \<Longrightarrow> user_value A (perform A x c) = user_value A c"
    and "user_value A (perform A (SetUserValue n v) c) = (user_value A c)(n \<mapsto> GoString v)"
    and "request_Value A c (StringKey n) = user_value A c n"
    and "same_request A c (perform A x c)"
  using assms by (simp_all add: azugo_laws_def)

lemma perform_same:
  assumes "azugo_laws A"
  shows "header_get A (perform A x c) = header_get A c"
    and "request_id A (perform A x c) = request_id A c"
    and "span_context_of A (perform A x c) = span_context_of A c"
    and "span_recording A (perform A x c) = span_recording A c"
    and "router_path A (perform A x c) = router_path A c"
    and "request_method A (perform A x c) = request_method A c"
    and "path_param A (perform A x c) = path_param A c"
    and "request_Value A (perform A x c) CorrelationKey = request_Value A c CorrelationKey"
    and "request_Value A (perform A x c) AppInstanceKey = request_Value A c AppInstanceKey"
  using azugo_lawsD(5) [OF assms, of c x] by (simp_all add: same_request_def)

lemmas azugo_rules = azugo_lawsD(1-4) perform_same

text \<open>Several calls in order.\<close>

definition perform_all :: "('ctx, 'a) azugo_scheme \<Rightarrow> call list \<Rightarrow> 'ctx \<Rightarrow> 'ctx" where
  "perform_all A xs c = fold (perform A) xs c"

lemma perform_all_simps [simp]:
  "perform_all A [] c = c"
  "perform_all A (x # xs) c = perform_all A xs (perform A x c)"
  by (simp_all add: perform_all_def)

lemma perform_all_append: "perform_all A (xs @ ys) c = perform_all A ys (perform_all A xs c)"
  by (simp add: perform_all_def)

lemma performed_all: "azugo_laws A \<Longrightarrow> performed A (perform_all A xs c) = performed A c @ xs"
  by (induction xs arbitrary: c) (simp_all add: azugo_lawsD(1))

lemma same_request_all: "azugo_laws A \<Longrightarrow> same_request A c (perform_all A xs c)"
  by (induction xs arbitrary: c) (auto intro: same_request_trans azugo_lawsD(5))

lemma user_value_all:
  "azugo_laws A \<Longrightarrow> list_all (\<lambda>x. set_value x = None) xs \<Longrightarrow>
   user_value A (perform_all A xs c) = user_value A c"
  by (induction xs arbitrary: c) (simp_all add: azugo_lawsD(2))

subsection \<open>A request as a value\<close>

record request =
  rqHeaders :: "(string \<times> string) list"
  rqID :: string
  rqUser :: "(string \<times> string) list"
  rqSpan :: span_context
  rqRecording :: bool
  rqPath :: string
  rqMethod :: string
  rqParams :: "(string \<times> string) list"
  rqCalls :: "call list"

definition assoc :: "(string \<times> string) list \<Rightarrow> string \<Rightarrow> string" where
  "assoc m k = (case map_of m k of Some v \<Rightarrow> v | None \<Rightarrow> [])"

definition request_perform :: "call \<Rightarrow> request \<Rightarrow> request" where
  "request_perform x r =
     r\<lparr>rqCalls := rqCalls r @ [x],
       rqUser := (case set_value x of None \<Rightarrow> rqUser r | Some nv \<Rightarrow> nv # rqUser r)\<rparr>"

definition request_azugo :: "request azugo" where
  "request_azugo = \<lparr>header_get = (\<lambda>r. assoc (rqHeaders r)), request_id = rqID,
     user_value = (\<lambda>r n. map_option GoString (map_of (rqUser r) n)),
     request_Value = (\<lambda>r k. case k of StringKey n \<Rightarrow> map_option GoString (map_of (rqUser r) n)
       | CorrelationKey \<Rightarrow> None | AppInstanceKey \<Rightarrow> None | OtherKey _ \<Rightarrow> None),
     span_context_of = rqSpan, span_recording = rqRecording, router_path = rqPath,
     request_method = rqMethod, path_param = (\<lambda>r. assoc (rqParams r)),
     perform = request_perform, performed = rqCalls\<rparr>"

lemma request_azugo_laws: "azugo_laws request_azugo"
  by (auto simp: azugo_laws_def request_azugo_def request_perform_def same_request_def fun_eq_iff
      split: option.split)

definition sample_request :: request where
  "sample_request = \<lparr>rqHeaders = [(HeaderCorrelationID, '' corr-h1 ''), (HeaderAppInstanceID, ''bad id'')],
     rqID = ''01ABC'', rqUser = [], rqSpan = \<lparr>scValid = False, scTraceID = [], scSpanID = []\<rparr>,
     rqRecording = True, rqPath = ''/boom'', rqMethod = ''GET'', rqParams = [(''id'', ''a%20b'')],
     rqCalls = []\<rparr>"

end
