(* ===== verification/Go_Strings.thy ===== *)
theory Go_Strings
  imports Prelude
begin

text \<open>
  The functions of the Go standard library's \<open>strings\<close> package that the kit calls, on
  byte strings: \<open>TrimSpace\<close>, \<open>ToLower\<close>, \<open>Split\<close> and \<open>Join\<close> on a one-byte
  separator, \<open>Contains\<close>, and the one \<open>NewReplacer\<close> the kit builds.

  \<open>TrimSpace\<close> and \<open>ToLower\<close> see a string as UTF-8: \<open>runes\<close> cuts it the way Go's
  \<open>range\<close> loop does, into pieces that each hold one code point or one byte that is not
  part of a valid encoding. The case mapping and the printability of code points above
  127 are tables of the Unicode version the toolchain was built with; they are the fields
  of \<open>unicode_tables\<close>, an argument of what uses them.
\<close>

record unicode_tables =
  uni_lower :: "nat \<Rightarrow> nat" \<comment> \<open>unicode.ToLower on code points above 127\<close>
  uni_print :: "nat \<Rightarrow> bool" \<comment> \<open>strconv.IsPrint on code points above 127\<close>

subsection \<open>UTF-8\<close>

definition is_cont :: "char \<Rightarrow> bool" where
  "is_cont c \<longleftrightarrow> 128 \<le> byte c \<and> byte c < 192"

definition second_ok :: "nat \<Rightarrow> char \<Rightarrow> bool" where
  "second_ok b0 c \<longleftrightarrow> is_cont c \<and>
     (b0 = 224 \<longrightarrow> 160 \<le> byte c) \<and> (b0 = 237 \<longrightarrow> byte c < 160) \<and>
     (b0 = 240 \<longrightarrow> 144 \<le> byte c) \<and> (b0 = 244 \<longrightarrow> byte c < 144)"

text \<open>
  \<open>utf8.DecodeRuneInString\<close>: the code point at the start of the string, or \<open>None\<close>
  for a byte that starts no valid encoding, and the number of bytes it takes.
\<close>

definition decode_rune :: "string \<Rightarrow> nat option \<times> nat" where
  "decode_rune s = (case s of
      [] \<Rightarrow> (None, 0)
    | c0 # s1 \<Rightarrow>
        let b0 = byte c0 in
        if b0 < 128 then (Some b0, 1)
        else (case s1 of
            [] \<Rightarrow> (None, 1)
          | c1 # s2 \<Rightarrow>
              if b0 < 194 \<or> 244 < b0 \<or> \<not> second_ok b0 c1 then (None, 1)
              else if b0 < 224 then (Some ((b0 - 192) * 64 + (byte c1 - 128)), 2)
              else (case s2 of
                  [] \<Rightarrow> (None, 1)
                | c2 # s3 \<Rightarrow>
                    if \<not> is_cont c2 then (None, 1)
                    else if b0 < 240 then
                      (Some ((b0 - 224) * 4096 + (byte c1 - 128) * 64 + (byte c2 - 128)), 3)
                    else (case s3 of
                        [] \<Rightarrow> (None, 1)
                      | c3 # _ \<Rightarrow>
                          if \<not> is_cont c3 then (None, 1)
                          else (Some ((b0 - 240) * 262144 + (byte c1 - 128) * 4096
                                  + (byte c2 - 128) * 64 + (byte c3 - 128)), 4)))))"

text \<open>The replacement character, and \<open>utf8.AppendRune\<close>.\<close>

definition rune_error :: nat where
  "rune_error = 65533"

definition encode_rune :: "nat \<Rightarrow> string" where
  "encode_rune r =
     (let r = (if 55296 \<le> r \<and> r < 57344 \<or> 1114111 < r then rune_error else r) in
      if r < 128 then [char_of r]
      else if r < 2048 then [char_of (192 + r div 64), char_of (128 + r mod 64)]
      else if r < 65536 then
        [char_of (224 + r div 4096), char_of (128 + r div 64 mod 64), char_of (128 + r mod 64)]
      else [char_of (240 + r div 262144), char_of (128 + r div 4096 mod 64),
            char_of (128 + r div 64 mod 64), char_of (128 + r mod 64)])"

fun runes :: "string \<Rightarrow> (nat option \<times> string) list" where
  "runes [] = []"
| "runes (c # cs) = (case decode_rune (c # cs) of
     (r, n) \<Rightarrow> (r, take n (c # cs)) # runes (drop (n - 1) cs))"

definition valid_utf8 :: "string \<Rightarrow> bool" where
  "valid_utf8 s \<longleftrightarrow> list_all (\<lambda>(r, p). r \<noteq> None) (runes s)"

definition ascii :: "string \<Rightarrow> bool" where
  "ascii s \<longleftrightarrow> list_all (\<lambda>c. byte c < 128) s"

lemma ascii_simps [simp]:
  "ascii []"
  "ascii (c # s) \<longleftrightarrow> byte c < 128 \<and> ascii s"
  "ascii (s @ t) \<longleftrightarrow> ascii s \<and> ascii t"
  by (simp_all add: ascii_def)

lemma decode_rune_size:
  "s \<noteq> [] \<Longrightarrow> 1 \<le> snd (decode_rune s) \<and> snd (decode_rune s) \<le> length s"
  by (auto simp: decode_rune_def Let_def split: list.splits)

lemma decode_rune_ascii [simp]: "byte c < 128 \<Longrightarrow> decode_rune (c # s) = (Some (byte c), 1)"
  by (simp add: decode_rune_def)

lemma runes_ascii_Cons [simp]: "byte c < 128 \<Longrightarrow> runes (c # s) = (Some (byte c), [c]) # runes s"
  by simp

lemma runes_ascii: "ascii s \<Longrightarrow> runes s = map (\<lambda>c. (Some (byte c), [c])) s"
  by (induction s) (simp_all del: runes.simps(2))

lemma ascii_valid_utf8: "ascii s \<Longrightarrow> valid_utf8 s"
  by (simp add: valid_utf8_def runes_ascii list_all_iff)

text \<open>The pieces are the string, cut.\<close>

lemma concat_runes: "concat (map snd (runes s)) = s"
proof (induction s rule: runes.induct)
  case (2 c cs)
  obtain r n where d: "decode_rune (c # cs) = (r, n)" by fastforce
  with decode_rune_size [of "c # cs"] have "1 \<le> n" by simp
  then have "take n (c # cs) @ drop (n - 1) cs = c # cs"
    by (cases n) simp_all
  then show ?case using 2 [OF d [symmetric]] d by simp
qed simp

lemma runes_unfold:
  "s \<noteq> [] \<Longrightarrow> runes s = (case decode_rune s of (r, n) \<Rightarrow> (r, take n s) # runes (drop n s))"
proof (cases s)
  case (Cons c cs)
  obtain r n where d: "decode_rune s = (r, n)" by fastforce
  with decode_rune_size [of s] Cons have "1 \<le> n" by simp
  with d Cons show ?thesis by (cases n) simp_all
qed simp

declare runes.simps(2) [simp del]

text \<open>A string cut at the boundary of a piece decodes to the same pieces.\<close>

lemma decode_rune_take:
  assumes "snd (decode_rune s) \<le> k" and "0 < k"
  shows "decode_rune (take k s) = decode_rune s"
  using assms
  apply (cases s; cases k)
  apply (simp_all add: decode_rune_def Let_def)
  apply (auto split: list.splits if_splits simp: take_Cons' gr0_conv_Suc)
  done

lemma runes_Nil_iff [simp]: "runes s = [] \<longleftrightarrow> s = []"
  by (cases s) (auto simp: runes_unfold split: prod.splits)

lemma runes_drop: "runes (concat (map snd (drop k (runes s)))) = drop k (runes s)"
proof (induction k arbitrary: s)
  case 0
  then show ?case by (simp add: concat_runes)
next
  case (Suc k)
  show ?case
  proof (cases "s = []")
    case False
    obtain r n where d: "decode_rune s = (r, n)" by fastforce
    with False show ?thesis using Suc.IH [of "drop n s"] by (simp add: runes_unfold)
  qed simp
qed

lemma runes_take: "runes (concat (map snd (take k (runes s)))) = take k (runes s)"
proof (induction k arbitrary: s)
  case (Suc k)
  show ?case
  proof (cases "s = []")
    case False
    obtain r n where d: "decode_rune s = (r, n)" by fastforce
    with False have n: "1 \<le> n" "n \<le> length s" using decode_rune_size [of s] by auto
    let ?t = "concat (map snd (take k (runes (drop n s))))"
    obtain m where t: "?t = take m (drop n s)"
      by (metis append_eq_conv_conj append_take_drop_id concat_append concat_runes map_append)
    have eq: "take n s @ ?t = take (n + m) s"
      using t by (simp add: take_add)
    have "decode_rune (take (n + m) s) = (r, n)"
      using d n decode_rune_take [of s "n + m"] by simp
    moreover have "take (n + m) s \<noteq> []" using n False by auto
    ultimately have "runes (take n s @ ?t) = (r, take n s) # runes ?t"
      using n by (simp add: eq runes_unfold take_add t)
    with Suc.IH d False show ?thesis by (simp add: runes_unfold)
  qed simp
qed simp

subsection \<open>strings.TrimSpace\<close>

text \<open>\<open>unicode.IsSpace\<close>.\<close>

definition is_space_rune :: "nat \<Rightarrow> bool" where
  "is_space_rune r \<longleftrightarrow> (9 \<le> r \<and> r \<le> 13) \<or> r = 32 \<or> r = 133 \<or> r = 160 \<or> r = 5760
     \<or> (8192 \<le> r \<and> r \<le> 8202) \<or> r = 8232 \<or> r = 8233 \<or> r = 8239 \<or> r = 8287 \<or> r = 12288"

fun space_piece :: "nat option \<times> string \<Rightarrow> bool" where
  "space_piece (Some r, p) = is_space_rune r"
| "space_piece (None, p) = False"

definition trim_pieces :: "(nat option \<times> string) list \<Rightarrow> (nat option \<times> string) list" where
  "trim_pieces ps = rev (dropWhile space_piece (rev (dropWhile space_piece ps)))"

definition trim_space :: "string \<Rightarrow> string" where
  "trim_space s = concat (map snd (trim_pieces (runes s)))"

lemma trim_pieces_idem: "trim_pieces (trim_pieces ps) = trim_pieces ps"
proof -
  let ?qs = "dropWhile space_piece ps"
  let ?rs = "rev (dropWhile space_piece (rev ?qs))"
  have last: "dropWhile space_piece (rev ?rs) = rev ?rs" by simp
  have "dropWhile space_piece ?rs = ?rs"
  proof (cases ?rs)
    case (Cons a as)
    obtain k where "?rs = take k ?qs"
      by (metis append_eq_conv_conj rev_append rev_rev_ident takeWhile_dropWhile_id)
    with Cons have "hd ?qs = a" and "?qs \<noteq> []" by (cases ?qs; cases k; simp)+
    then have "\<not> space_piece a" using hd_dropWhile by metis
    with Cons show ?thesis by simp
  next
    case Nil
    then show ?thesis by (simp only: Nil dropWhile.simps)
  qed
  with last show ?thesis by (simp add: trim_pieces_def)
qed

lemma runes_trim_space: "runes (trim_space s) = trim_pieces (runes s)"
proof -
  obtain j where j: "dropWhile space_piece (runes s) = drop j (runes s)"
    by (metis dropWhile_eq_drop)
  let ?t = "concat (map snd (drop j (runes s)))"
  have t: "runes ?t = drop j (runes s)" by (rule runes_drop)
  obtain k where k: "trim_pieces (runes s) = take k (runes ?t)"
    unfolding trim_pieces_def j t
    by (metis append_eq_conv_conj rev_append rev_rev_ident takeWhile_dropWhile_id)
  show ?thesis
    unfolding trim_space_def k by (rule runes_take)
qed

lemma trim_space_idem [simp]: "trim_space (trim_space s) = trim_space s"
  by (simp add: trim_space_def [of "trim_space s"] runes_trim_space trim_pieces_idem)
     (simp add: trim_space_def)

lemma trim_space_Nil [simp]: "trim_space [] = []"
  by (simp add: trim_space_def trim_pieces_def)

subsection \<open>strings.ToLower\<close>

definition rune_lower :: "'a unicode_tables_scheme \<Rightarrow> nat \<Rightarrow> nat" where
  "rune_lower U r = (if r < 128 then (if 65 \<le> r \<and> r \<le> 90 then r + 32 else r) else uni_lower U r)"

fun lower_piece :: "'a unicode_tables_scheme \<Rightarrow> nat option \<times> string \<Rightarrow> string" where
  "lower_piece U (Some r, p) = encode_rune (rune_lower U r)"
| "lower_piece U (None, p) = encode_rune rune_error"

definition to_lower :: "'a unicode_tables_scheme \<Rightarrow> string \<Rightarrow> string" where
  "to_lower U s = concat (map (lower_piece U) (runes s))"

definition ascii_lower :: "char \<Rightarrow> char" where
  "ascii_lower c = (if 65 \<le> byte c \<and> byte c \<le> 90 then char_of (byte c + 32) else c)"

lemma encode_rune_ascii: "r < 128 \<Longrightarrow> encode_rune r = [char_of r]"
  by (simp add: encode_rune_def)

lemma to_lower_ascii: "ascii s \<Longrightarrow> to_lower U s = map ascii_lower s"
  by (induction s)
     (simp_all add: to_lower_def rune_lower_def encode_rune_ascii ascii_lower_def)

lemma to_lower_Nil [simp]: "to_lower U [] = []"
  by (simp add: to_lower_def)

text \<open>No byte of a lowered string is an upper-case ASCII letter, if the table's entries are not.\<close>

definition lower_table_ok :: "'a unicode_tables_scheme \<Rightarrow> bool" where
  "lower_table_ok U \<longleftrightarrow> (\<forall>r. 128 \<le> r \<longrightarrow> \<not> (65 \<le> uni_lower U r \<and> uni_lower U r \<le> 90))"

lemma encode_rune_no_upper:
  assumes "c \<in> set (encode_rune r)" and "65 \<le> byte c" and "byte c \<le> 90"
  shows "r = byte c"
proof -
  define q where "q = (if 55296 \<le> r \<and> r < 57344 \<or> 1114111 < r then rune_error else r)"
  have q: "q \<le> 1114111" by (auto simp: q_def rune_error_def)
  have e: "encode_rune r = (if q < 128 then [char_of q]
      else if q < 2048 then [char_of (192 + q div 64), char_of (128 + q mod 64)]
      else if q < 65536 then
        [char_of (224 + q div 4096), char_of (128 + q div 64 mod 64), char_of (128 + q mod 64)]
      else [char_of (240 + q div 262144), char_of (128 + q div 4096 mod 64),
            char_of (128 + q div 64 mod 64), char_of (128 + q mod 64)])"
    by (simp add: encode_rune_def q_def Let_def)
  have "q < 128"
  proof (rule ccontr)
    assume "\<not> q < 128"
    with assms(1) q have "128 \<le> byte c"
      unfolding e by (auto split: if_splits)
    with assms(3) show False by simp
  qed
  with assms(1) have "c = char_of q" by (simp add: e)
  with \<open>q < 128\<close> have "byte c = q" by simp
  moreover have "q = r"
    using \<open>q < 128\<close> by (auto simp: q_def rune_error_def split: if_splits)
  ultimately show ?thesis by simp
qed

lemma to_lower_no_upper:
  assumes "lower_table_ok U" and "c \<in> set (to_lower U s)"
  shows "\<not> (65 \<le> byte c \<and> byte c \<le> 90)"
proof
  assume up: "65 \<le> byte c \<and> byte c \<le> 90"
  from assms(2) obtain r p where "c \<in> set (lower_piece U (r, p))"
    by (auto simp: to_lower_def)
  then consider (v) x where "c \<in> set (encode_rune (rune_lower U x))"
    | (i) "c \<in> set (encode_rune rune_error)"
    by (cases r) auto
  then show False
  proof cases
    case v
    with up have low: "rune_lower U x = byte c" by (intro encode_rune_no_upper) auto
    show False
    proof (cases "x < 128")
      case True
      with low up show False by (auto simp: rune_lower_def split: if_splits)
    next
      case False
      with low have "uni_lower U x = byte c" by (simp add: rune_lower_def)
      moreover have "128 \<le> x" using False by simp
      ultimately show False using up assms(1) unfolding lower_table_ok_def by metis
    qed
  next
    case i
    with up have "rune_error = byte c" by (intro encode_rune_no_upper) auto
    with up show False by (simp add: rune_error_def)
  qed
qed

subsection \<open>strings.Split and strings.Join on a one-byte separator\<close>

fun split_on :: "char \<Rightarrow> string \<Rightarrow> string list" where
  "split_on d [] = [[]]"
| "split_on d (c # cs) =
     (if c = d then [] # split_on d cs
      else (case split_on d cs of [] \<Rightarrow> [[c]] | p # ps \<Rightarrow> (c # p) # ps))"

fun join_with :: "char \<Rightarrow> string list \<Rightarrow> string" where
  "join_with d [] = []"
| "join_with d [p] = p"
| "join_with d (p # q # ps) = p @ d # join_with d (q # ps)"

lemma split_on_not_Nil [simp]: "split_on d s \<noteq> []"
  by (induction s) (auto split: list.splits)

lemma join_split: "join_with d (split_on d s) = s"
proof (induction s)
  case (Cons c cs)
  obtain p ps where s: "split_on d cs = p # ps" by (cases "split_on d cs") auto
  with Cons show ?case by (cases ps) auto
qed simp

lemma split_on_no_sep: "p \<in> set (split_on d s) \<Longrightarrow> d \<notin> set p"
  by (induction s arbitrary: p) (fastforce split: list.splits if_splits)+

lemma split_single: "d \<notin> set s \<Longrightarrow> split_on d s = [s]"
  by (induction s) auto

lemma split_append: "split_on d (s @ d # t) = split_on d s @ split_on d t"
proof (induction s)
  case (Cons c cs)
  then show ?case by (cases "split_on d cs") auto
qed simp

lemma split_join:
  "ps \<noteq> [] \<Longrightarrow> \<forall>p \<in> set ps. d \<notin> set p \<Longrightarrow> split_on d (join_with d ps) = ps"
  by (induction d ps rule: join_with.induct) (simp_all add: split_single split_append)

lemma join_append:
  "ps \<noteq> [] \<Longrightarrow> qs \<noteq> [] \<Longrightarrow> join_with d (ps @ qs) = join_with d ps @ d # join_with d qs"
proof (induction d ps rule: join_with.induct)
  case (2 d p)
  then show ?case by (cases qs) auto
qed auto

subsection \<open>strings.Contains, and the replacer that deletes bytes\<close>

fun contains :: "string \<Rightarrow> string \<Rightarrow> bool" where
  "contains [] sub \<longleftrightarrow> sub = []"
| "contains (c # cs) sub \<longleftrightarrow> take (length sub) (c # cs) = sub \<or> contains cs sub"

lemma contains_iff: "contains s sub \<longleftrightarrow> (\<exists>p q. s = p @ sub @ q)"
proof (induction s)
  case (Cons c cs)
  show ?case
  proof
    assume "contains (c # cs) sub"
    then show "\<exists>p q. c # cs = p @ sub @ q"
    proof (cases "take (length sub) (c # cs) = sub")
      case True
      then have "c # cs = [] @ sub @ drop (length sub) (c # cs)"
        by (metis append_Nil append_take_drop_id)
      then show ?thesis by blast
    next
      case False
      with \<open>contains (c # cs) sub\<close> Cons obtain p q where "cs = p @ sub @ q" by auto
      then have "c # cs = (c # p) @ sub @ q" by simp
      then show ?thesis by blast
    qed
  next
    assume "\<exists>p q. c # cs = p @ sub @ q"
    then obtain p q where e: "c # cs = p @ sub @ q" by blast
    show "contains (c # cs) sub"
    proof (cases p)
      case Nil
      with e have "take (length sub) (c # cs) = sub" by simp
      then show ?thesis by simp
    next
      case (Cons a as)
      with e have "cs = as @ sub @ q" by simp
      then have "\<exists>p q. cs = p @ sub @ q" by blast
      with Cons.IH show ?thesis by simp
    qed
  qed
qed simp

lemma contains_refl [simp]: "contains s s"
  by (metis append.left_neutral append.right_neutral contains_iff)

lemma contains_set: "contains s sub \<Longrightarrow> set sub \<subseteq> set s"
  by (auto simp: contains_iff)

definition remove_bytes :: "string \<Rightarrow> string \<Rightarrow> string" where
  "remove_bytes bad s = filter (\<lambda>c. c \<notin> set bad) s"

subsection \<open>Encoding undoes decoding\<close>

lemma char_of_byte_eq: "n = byte c \<Longrightarrow> char_of n = c" for n :: nat
  by simp

lemma div64: "c < 64 \<Longrightarrow> (y * 64 + c) div 64 = y" "c < 64 \<Longrightarrow> (y * 64 + c) mod 64 = c" for c y :: nat
  by simp_all

lemma base64_parts:
  fixes a b c :: nat
  assumes "b < 64" and "c < 64"
  shows "(a * 4096 + b * 64 + c) div 4096 = a" "(a * 4096 + b * 64 + c) div 64 mod 64 = b"
    "(a * 4096 + b * 64 + c) mod 64 = c"
proof -
  have e: "a * 4096 + b * 64 + c = (a * 64 + b) * 64 + c" by simp
  have d: "(a * 4096 + b * 64 + c) div 64 = a * 64 + b" unfolding e using assms(2) by (rule div64)
  have "(a * 4096 + b * 64 + c) div (64 * 64) = (a * 64 + b) div 64"
    unfolding div_mult2_eq d ..
  then show "(a * 4096 + b * 64 + c) div 4096 = a" using assms(1) by (simp add: div64)
  show "(a * 4096 + b * 64 + c) div 64 mod 64 = b" unfolding d using assms(1) by (rule div64)
  show "(a * 4096 + b * 64 + c) mod 64 = c" unfolding e using assms(2) by (rule div64)
qed

lemma base64_parts4:
  fixes a b c d :: nat
  assumes "b < 64" and "c < 64" and "d < 64"
  shows "(a * 262144 + b * 4096 + c * 64 + d) div 262144 = a"
    "(a * 262144 + b * 4096 + c * 64 + d) div 4096 mod 64 = b"
    "(a * 262144 + b * 4096 + c * 64 + d) div 64 mod 64 = c"
    "(a * 262144 + b * 4096 + c * 64 + d) mod 64 = d"
proof -
  let ?x = "a * 262144 + b * 4096 + c * 64 + d"
  have e: "?x = (a * 4096 + b * 64 + c) * 64 + d" by simp
  have q: "?x div 64 = a * 4096 + b * 64 + c" unfolding e using assms(3) by (rule div64)
  have "?x div (64 * 4096) = (a * 4096 + b * 64 + c) div 4096" unfolding div_mult2_eq q ..
  then show "?x div 262144 = a" using base64_parts [OF assms(1,2), of a] by simp
  have "?x div (64 * 64) = (a * 4096 + b * 64 + c) div 64" unfolding div_mult2_eq q ..
  then show "?x div 4096 mod 64 = b" using base64_parts [OF assms(1,2), of a] by simp
  show "?x div 64 mod 64 = c" unfolding q using base64_parts [OF assms(1,2), of a] by simp
  show "?x mod 64 = d" unfolding e using assms(3) by (rule div64)
qed

lemma decode_rune_cases:
  assumes "decode_rune s = (Some r, n)"
  obtains (one) c0 s1 where "s = c0 # s1" "byte c0 < 128" "r = byte c0" "n = 1"
    | (two) c0 c1 s2 where "s = c0 # c1 # s2" "194 \<le> byte c0" "byte c0 < 224" "is_cont c1"
        "r = (byte c0 - 192) * 64 + (byte c1 - 128)" "n = 2"
    | (three) c0 c1 c2 s3 where "s = c0 # c1 # c2 # s3" "224 \<le> byte c0" "byte c0 < 240"
        "second_ok (byte c0) c1" "is_cont c2"
        "r = (byte c0 - 224) * 4096 + (byte c1 - 128) * 64 + (byte c2 - 128)" "n = 3"
    | (four) c0 c1 c2 c3 s4 where "s = c0 # c1 # c2 # c3 # s4" "240 \<le> byte c0" "byte c0 \<le> 244"
        "second_ok (byte c0) c1" "is_cont c2" "is_cont c3"
        "r = (byte c0 - 240) * 262144 + (byte c1 - 128) * 4096 + (byte c2 - 128) * 64 + (byte c3 - 128)"
        "n = 4"
proof (cases s)
  case Nil
  with assms show thesis by (simp add: decode_rune_def Let_def)
next
  case s: (Cons c0 s1)
  show thesis
  proof (cases "byte c0 < 128")
    case True
    with assms s show thesis by (intro one [of c0 s1]) (simp_all add: decode_rune_def Let_def)
  next
    case hi: False
    with assms s obtain c1 s2 where s1: "s1 = c1 # s2"
      by (cases s1) (simp_all add: decode_rune_def Let_def)
    with hi assms s have b0: "194 \<le> byte c0" "byte c0 \<le> 244" "second_ok (byte c0) c1"
      by (simp_all add: decode_rune_def Let_def split: if_splits)
    show thesis
    proof (cases "byte c0 < 224")
      case True
      with b0 hi assms s s1 show thesis
        by (intro two [of c0 c1 s2]) (simp_all add: decode_rune_def Let_def second_ok_def)
    next
      case hi2: False
      with b0 hi assms s s1 obtain c2 s3 where s2: "s2 = c2 # s3"
        by (cases s2) (simp_all add: decode_rune_def Let_def)
      with hi2 b0 hi assms s s1 have c2: "is_cont c2"
        by (simp add: decode_rune_def Let_def split: if_splits)
      show thesis
      proof (cases "byte c0 < 240")
        case True
        with b0 hi hi2 assms s s1 s2 c2 show thesis
          by (intro three [of c0 c1 c2 s3]) (simp_all add: decode_rune_def Let_def)
      next
        case hi3: False
        with c2 b0 hi hi2 assms s s1 s2 obtain c3 s4 where s3: "s3 = c3 # s4"
          by (cases s3) (simp_all add: decode_rune_def Let_def)
        with hi3 c2 b0 hi hi2 assms s s1 s2 have "is_cont c3"
          by (simp add: decode_rune_def Let_def split: if_splits)
        with hi3 c2 b0 hi hi2 assms s s1 s2 s3 show thesis
          by (intro four [of c0 c1 c2 c3 s4]) (simp_all add: decode_rune_def Let_def)
      qed
    qed
  qed
qed

lemma encode_two:
  assumes "194 \<le> byte c0" "byte c0 < 224" "is_cont c1"
  shows "encode_rune ((byte c0 - 192) * 64 + (byte c1 - 128)) = [c0, c1]"
proof -
  define a where "a = byte c0 - 192"
  define b where "b = byte c1 - 128"
  have a: "byte c0 = 192 + a" "2 \<le> a" "a < 32" using assms by (auto simp: a_def)
  have b: "byte c1 = 128 + b" "b < 64" using assms by (auto simp: b_def is_cont_def)
  define r where "r = a * 64 + b"
  have "r div 64 = a" "r mod 64 = b" "128 \<le> r" "r < 2048" using a b by (simp_all add: r_def)
  then have "encode_rune r = [char_of (192 + a), char_of (128 + b)]"
    by (simp add: encode_rune_def)
  then show ?thesis by (simp add: r_def a_def [symmetric] b_def [symmetric] a(1) [symmetric] b(1) [symmetric])
qed

lemma encode_three:
  assumes "224 \<le> byte c0" "byte c0 < 240" "second_ok (byte c0) c1" "is_cont c2"
  shows "encode_rune ((byte c0 - 224) * 4096 + (byte c1 - 128) * 64 + (byte c2 - 128)) = [c0, c1, c2]"
proof -
  define a where "a = byte c0 - 224"
  define b where "b = byte c1 - 128"
  define c where "c = byte c2 - 128"
  have b0: "byte c0 = 224 + a" "a < 16" using assms by (auto simp: a_def)
  have b1: "byte c1 = 128 + b" "b < 64" and b2: "byte c2 = 128 + c" "c < 64"
    using assms by (auto simp: b_def c_def second_ok_def is_cont_def)
  have lo: "a = 0 \<Longrightarrow> 32 \<le> b" and sur: "a = 13 \<Longrightarrow> b < 32"
    using assms(3) b0 b1 by (auto simp: second_ok_def)
  define r where r: "r = a * 4096 + b * 64 + c"
  note parts = base64_parts [OF b1(2) b2(2), of a, folded r]
  have "2048 \<le> r" using r lo by (cases "a = 0") auto
  moreover have "r < 65536" using r b0 b1 b2 by simp
  moreover have "\<not> (55296 \<le> r \<and> r < 57344)"
  proof (cases "a = 13")
    case True
    with r b2 sur show ?thesis by simp
  next
    case False
    then consider "a \<le> 12" | "14 \<le> a" by linarith
    then show ?thesis using r b1 b2 by cases linarith+
  qed
  ultimately have "encode_rune r =
      [char_of (224 + r div 4096), char_of (128 + r div 64 mod 64), char_of (128 + r mod 64)]"
    unfolding encode_rune_def Let_def by (auto simp: not_less)
  then have "encode_rune r = [char_of (224 + a), char_of (128 + b), char_of (128 + c)]"
    unfolding parts .
  then show ?thesis
    by (simp only: r a_def [symmetric] b_def [symmetric] c_def [symmetric]
        b0(1) [symmetric] b1(1) [symmetric] b2(1) [symmetric] char_of_char)
qed

lemma encode_four:
  assumes "240 \<le> byte c0" "byte c0 \<le> 244" "second_ok (byte c0) c1" "is_cont c2" "is_cont c3"
  shows "encode_rune ((byte c0 - 240) * 262144 + (byte c1 - 128) * 4096 + (byte c2 - 128) * 64
     + (byte c3 - 128)) = [c0, c1, c2, c3]"
proof -
  define a where "a = byte c0 - 240"
  define b where "b = byte c1 - 128"
  define c where "c = byte c2 - 128"
  define d where "d = byte c3 - 128"
  have b0: "byte c0 = 240 + a" "a \<le> 4" using assms by (auto simp: a_def)
  have b1: "byte c1 = 128 + b" "b < 64" and b2: "byte c2 = 128 + c" "c < 64"
    and b3: "byte c3 = 128 + d" "d < 64"
    using assms by (auto simp: b_def c_def d_def second_ok_def is_cont_def)
  have lo: "a = 0 \<Longrightarrow> 16 \<le> b" and hi: "a = 4 \<Longrightarrow> b < 16"
    using assms(3) b0 b1 by (auto simp: second_ok_def)
  define r where r: "r = a * 262144 + b * 4096 + c * 64 + d"
  note parts = base64_parts4 [OF b1(2) b2(2) b3(2), of a, folded r]
  have "65536 \<le> r" using r lo by (cases "a = 0") auto
  moreover have "r \<le> 1114111"
  proof (cases "a = 4")
    case True
    with r b2 b3 hi show ?thesis by simp
  next
    case False
    with b0 have "a \<le> 3" by simp
    with r b1 b2 b3 show ?thesis by linarith
  qed
  ultimately have "encode_rune r =
      [char_of (240 + r div 262144), char_of (128 + r div 4096 mod 64),
       char_of (128 + r div 64 mod 64), char_of (128 + r mod 64)]"
    unfolding encode_rune_def Let_def by simp
  then have "encode_rune r = [char_of (240 + a), char_of (128 + b), char_of (128 + c), char_of (128 + d)]"
    unfolding parts .
  then show ?thesis
    by (simp only: r a_def [symmetric] b_def [symmetric] c_def [symmetric] d_def [symmetric]
        b0(1) [symmetric] b1(1) [symmetric] b2(1) [symmetric] b3(1) [symmetric] char_of_char)
qed

lemma encode_decode_rune:
  assumes "decode_rune s = (Some r, n)"
  shows "encode_rune r = take n s"
  using assms
proof (cases rule: decode_rune_cases)
  case one
  then show ?thesis by (simp add: encode_rune_ascii)
next
  case (two c0 c1 s2)
  then show ?thesis by (simp add: encode_two)
next
  case (three c0 c1 c2 s3)
  then show ?thesis by (simp add: encode_three)
next
  case (four c0 c1 c2 c3 s4)
  then show ?thesis by (simp add: encode_four)
qed

lemma decode_rune_append:
  assumes "decode_rune s = (Some r, n)"
  shows "decode_rune (take n s @ t) = (Some r, n)"
  using assms
proof (cases rule: decode_rune_cases)
  case (two c0 c1 s2)
  then show ?thesis
    by (simp add: decode_rune_def Let_def second_ok_def)
next
  case (three c0 c1 c2 s3)
  then show ?thesis by (simp add: decode_rune_def Let_def)
next
  case (four c0 c1 c2 c3 s4)
  then show ?thesis by (simp add: decode_rune_def Let_def)
qed simp

text \<open>
  A piece of a string that is a code point: its bytes are the encoding of the code point, and
  they decode to it whatever follows.
\<close>

fun rune_piece :: "nat option \<times> string \<Rightarrow> bool" where
  "rune_piece (None, p) = False"
| "rune_piece (Some r, p) \<longleftrightarrow>
     p \<noteq> [] \<and> encode_rune r = p \<and> (\<forall>t. decode_rune (p @ t) = (Some r, length p)) \<and>
     (r < 128 \<longrightarrow> p = [char_of r]) \<and> (128 \<le> r \<longrightarrow> 128 \<le> byte (hd p))"

lemma rune_piece_decode:
  assumes "decode_rune s = (Some r, n)"
  shows "rune_piece (Some r, take n s)"
proof -
  from assms have "s \<noteq> []" by (auto simp: decode_rune_def)
  with decode_rune_size [of s] assms have n: "1 \<le> n" "n \<le> length s" by auto
  have "\<forall>t. decode_rune (take n s @ t) = (Some r, length (take n s))"
    using decode_rune_append [OF assms] n by simp
  moreover have "encode_rune r = take n s" by (rule encode_decode_rune [OF assms])
  moreover have "take n s \<noteq> []" using n \<open>s \<noteq> []\<close> by auto
  moreover have "128 \<le> r \<Longrightarrow> 128 \<le> byte (hd (take n s))"
    using assms n by (cases s) (auto simp: decode_rune_def Let_def split: if_splits)
  moreover have "r < 128 \<Longrightarrow> take n s = [char_of r]"
    using \<open>encode_rune r = take n s\<close> encode_rune_ascii by metis
  ultimately show ?thesis by simp
qed

lemma runes_pieces: "valid_utf8 s \<Longrightarrow> list_all rune_piece (runes s)"
proof (induction s rule: runes.induct)
  case (2 c cs)
  obtain x n where d: "decode_rune (c # cs) = (x, n)" by fastforce
  then have e: "runes (c # cs) = (x, take n (c # cs)) # runes (drop (n - 1) cs)"
    by (simp only: runes.simps(2) prod.case)
  from "2.prems" have "x \<noteq> None" and v: "valid_utf8 (drop (n - 1) cs)"
    unfolding valid_utf8_def e by auto
  then obtain r where x: "x = Some r" by blast
  from "2.IH" [OF d [symmetric] v] rune_piece_decode [of "c # cs" r n] d x show ?case
    by (simp only: e list.pred_inject)
qed simp

end
