(* ===== verification/Go_Json.thy ===== *)
theory Go_Json
  imports Go_Strings
begin

text \<open>
  What the kit uses of Go's \<open>encoding/json\<close>: the compact text \<open>json.Marshal\<close> writes, and the
  syntax and string decoding of \<open>json.Unmarshal\<close>. A number is kept as its literal.

  The reader takes fuel, one unit per call, for the recursion over the text, and a depth,
  Go's limit of 10000 nested arrays and objects. \<open>json_fuel\<close> is always enough: with it or
  more the result is the same (\<open>p_value_fuel\<close>).
\<close>

datatype json =
    JNull
  | JBool bool
  | JNum string
  | JStr string
  | JArr "json list"
  | JObj "(string \<times> json) list"

abbreviation DQ :: char where "DQ \<equiv> CHR 0x22"
abbreviation BS :: char where "BS \<equiv> CHR 0x5C"

subsection \<open>Writing\<close>

definition hex_digit :: "nat \<Rightarrow> char" where
  "hex_digit n = (if n < 10 then char_of (48 + n) else char_of (87 + n))"

definition u_escape :: "nat \<Rightarrow> string" where
  "u_escape r = [BS, CHR ''u'', hex_digit (r div 4096 mod 16), hex_digit (r div 256 mod 16),
     hex_digit (r div 16 mod 16), hex_digit (r mod 16)]"

text \<open>One piece of a string: the escapes of \<open>appendString\<close>, HTML escaping on.\<close>

fun quote_piece :: "nat option \<times> string \<Rightarrow> string" where
  "quote_piece (None, p) = u_escape rune_error"
| "quote_piece (Some r, p) =
     (if r = 34 \<or> r = 92 then BS # p
      else if r = 8 then [BS, CHR ''b'']
      else if r = 12 then [BS, CHR ''f'']
      else if r = 10 then [BS, CHR ''n'']
      else if r = 13 then [BS, CHR ''r'']
      else if r = 9 then [BS, CHR ''t'']
      else if r < 32 \<or> r = 60 \<or> r = 62 \<or> r = 38 \<or> r = 8232 \<or> r = 8233 then u_escape r
      else p)"

definition json_quote :: "string \<Rightarrow> string" where
  "json_quote s = DQ # concat (map quote_piece (runes s)) @ [DQ]"

fun json_text :: "json \<Rightarrow> string" where
  "json_text JNull = ''null''"
| "json_text (JBool b) = (if b then ''true'' else ''false'')"
| "json_text (JNum lit) = lit"
| "json_text (JStr s) = json_quote s"
| "json_text (JArr js) = ''['' @ join_with (CHR '','') (map json_text js) @ '']''"
| "json_text (JObj ms) =
     ''{'' @ join_with (CHR '','') (map (\<lambda>(k, v). json_quote k @ '':'' @ json_text v) ms) @ ''}''"

text \<open>The decimal text of an integer, \<open>strconv.AppendInt\<close>.\<close>

fun nat_text :: "nat \<Rightarrow> string" where
  "nat_text n = (if n < 10 then [char_of (48 + n)] else nat_text (n div 10) @ [char_of (48 + n mod 10)])"

definition int_text :: "int \<Rightarrow> string" where
  "int_text i = (if i < 0 then ''-'' @ nat_text (nat (- i)) else nat_text (nat i))"

subsection \<open>Reading strings\<close>

definition hex_value :: "char \<Rightarrow> nat option" where
  "hex_value c =
     (if 48 \<le> byte c \<and> byte c \<le> 57 then Some (byte c - 48)
      else if 97 \<le> byte c \<and> byte c \<le> 102 then Some (byte c - 87)
      else if 65 \<le> byte c \<and> byte c \<le> 70 then Some (byte c - 55)
      else None)"

fun hex4 :: "string \<Rightarrow> (nat \<times> string) option" where
  "hex4 (a # b # c # d # s) =
     (case (hex_value a, hex_value b, hex_value c, hex_value d) of
        (Some va, Some vb, Some vc, Some vd) \<Rightarrow> Some (va * 4096 + vb * 256 + vc * 16 + vd, s)
      | _ \<Rightarrow> None)"
| "hex4 _ = None"

text \<open>
  A \<open>\u\<close> escape, after the \<open>u\<close>: a surrogate takes the low surrogate that follows it, if one
  does, and is the replacement character otherwise.
\<close>

definition u_unescape :: "string \<Rightarrow> (string \<times> string) option" where
  "u_unescape s = (case hex4 s of
      None \<Rightarrow> None
    | Some (r, s1) \<Rightarrow>
        if 55296 \<le> r \<and> r < 57344 then
          (case s1 of
             b # u # s2 \<Rightarrow>
               (case hex4 s2 of
                  Some (r2, s3) \<Rightarrow>
                    if b = BS \<and> u = CHR ''u'' \<and> r < 56320 \<and> 56320 \<le> r2 \<and> r2 < 57344 then
                      Some (encode_rune (65536 + (r - 55296) * 1024 + (r2 - 56320)), s3)
                    else Some (encode_rune rune_error, s1)
                | None \<Rightarrow> Some (encode_rune rune_error, s1))
           | _ \<Rightarrow> Some (encode_rune rune_error, s1))
        else Some (encode_rune r, s1))"

definition simple_escape :: "char \<Rightarrow> char option" where
  "simple_escape e =
     (if e = DQ \<or> e = BS \<or> e = CHR ''/'' then Some e
      else if e = CHR ''b'' then Some (char_of (8 :: nat))
      else if e = CHR ''f'' then Some (char_of (12 :: nat))
      else if e = CHR ''n'' then Some (char_of (10 :: nat))
      else if e = CHR ''r'' then Some (char_of (13 :: nat))
      else if e = CHR ''t'' then Some (char_of (9 :: nat))
      else None)"

lemma hex4_length: "hex4 s = Some (r, s') \<Longrightarrow> length s' < length s"
  by (induction s rule: hex4.induct) (auto split: option.splits)

lemma u_unescape_length: "u_unescape s = Some (t, s') \<Longrightarrow> length s' < length s"
  unfolding u_unescape_def
  by (auto split: option.splits if_splits list.splits dest!: hex4_length)

text \<open>The rest of a string after its opening quote: its decoded bytes, and what follows it.\<close>

function (sequential) p_str :: "string \<Rightarrow> (string \<times> string) option" where
  "p_str [] = None"
| "p_str (c # cs) =
     (if c = DQ then Some ([], cs)
      else if c = BS then
        (case cs of
           [] \<Rightarrow> None
         | e # r \<Rightarrow>
             if e = CHR ''u'' then
               (case u_unescape r of
                  None \<Rightarrow> None
                | Some (t, r') \<Rightarrow> map_option (\<lambda>(s, r''). (t @ s, r'')) (p_str r'))
             else
               (case simple_escape e of
                  None \<Rightarrow> None
                | Some x \<Rightarrow> map_option (\<lambda>(s, r'). (x # s, r')) (p_str r)))
      else if byte c < 32 then None
      else (case decode_rune (c # cs) of
          (None, n) \<Rightarrow> map_option (\<lambda>(s, r). (encode_rune rune_error @ s, r)) (p_str (drop (n - 1) cs))
        | (Some r, n) \<Rightarrow> map_option (\<lambda>(s, r). (take n (c # cs) @ s, r)) (p_str (drop (n - 1) cs))))"
  by pat_completeness auto
termination
  by (relation "measure length") (auto dest: u_unescape_length)

declare p_str.simps(2) [simp del]

subsection \<open>Reading numbers and values\<close>

definition is_digit :: "char \<Rightarrow> bool" where
  "is_digit c \<longleftrightarrow> 48 \<le> byte c \<and> byte c \<le> 57"

text \<open>A run of digits, at least one.\<close>

definition digits1 :: "string \<Rightarrow> (string \<times> string) option" where
  "digits1 s = (let ds = takeWhile is_digit s in
     if ds = [] then None else Some (ds, dropWhile is_digit s))"

definition scan_int :: "string \<Rightarrow> (string \<times> string) option" where
  "scan_int s = (case s of
      [] \<Rightarrow> None
    | c # r \<Rightarrow> if c = CHR ''0'' then Some ([c], r) else digits1 s)"

definition scan_frac :: "string \<Rightarrow> (string \<times> string) option" where
  "scan_frac s = (case s of
      c # r \<Rightarrow> if c = CHR ''.'' then map_option (\<lambda>(ds, r'). (c # ds, r')) (digits1 r) else Some ([], s)
    | [] \<Rightarrow> Some ([], s))"

definition scan_exp :: "string \<Rightarrow> (string \<times> string) option" where
  "scan_exp s = (case s of
      c # r \<Rightarrow>
        if c = CHR ''e'' \<or> c = CHR ''E'' then
          (case r of
             [] \<Rightarrow> None
           | g # r' \<Rightarrow>
               if g = CHR ''+'' \<or> g = CHR ''-''
               then map_option (\<lambda>(ds, r''). (c # g # ds, r'')) (digits1 r')
               else map_option (\<lambda>(ds, r''). (c # ds, r'')) (digits1 r))
        else Some ([], s)
    | [] \<Rightarrow> Some ([], s))"

definition scan_unsigned :: "string \<Rightarrow> (string \<times> string) option" where
  "scan_unsigned s =
     (case scan_int s of None \<Rightarrow> None
      | Some (i, s1) \<Rightarrow> (case scan_frac s1 of None \<Rightarrow> None
        | Some (f, s2) \<Rightarrow> (case scan_exp s2 of None \<Rightarrow> None
          | Some (e, s3) \<Rightarrow> Some (i @ f @ e, s3))))"

definition scan_number :: "string \<Rightarrow> (string \<times> string) option" where
  "scan_number s = (case s of
      [] \<Rightarrow> None
    | c # r \<Rightarrow>
        if c = CHR ''-'' then map_option (\<lambda>(t, r'). (c # t, r')) (scan_unsigned r)
        else scan_unsigned s)"

definition is_ws :: "char \<Rightarrow> bool" where
  "is_ws c \<longleftrightarrow> byte c = 32 \<or> byte c = 9 \<or> byte c = 10 \<or> byte c = 13"

definition skip_ws :: "string \<Rightarrow> string" where
  "skip_ws s = dropWhile is_ws s"

definition p_word :: "string \<Rightarrow> json \<Rightarrow> string \<Rightarrow> (json \<times> string) option" where
  "p_word w j s = (if take (length w) s = w then Some (j, drop (length w) s) else None)"

fun p_value :: "nat \<Rightarrow> nat \<Rightarrow> string \<Rightarrow> (json \<times> string) option"
  and p_elems :: "nat \<Rightarrow> nat \<Rightarrow> string \<Rightarrow> (json list \<times> string) option"
  and p_members :: "nat \<Rightarrow> nat \<Rightarrow> string \<Rightarrow> ((string \<times> json) list \<times> string) option" where
  "p_value 0 d s = None"
| "p_value (Suc n) d s = (case skip_ws s of
      [] \<Rightarrow> None
    | c # r \<Rightarrow>
        if c = CHR ''{'' then
          (if d = 0 then None
           else (case skip_ws r of
               [] \<Rightarrow> None
             | c' # r' \<Rightarrow>
                 if c' = CHR ''}'' then Some (JObj [], r')
                 else map_option (\<lambda>(ms, t). (JObj ms, t)) (p_members n (d - 1) r)))
        else if c = CHR ''['' then
          (if d = 0 then None
           else (case skip_ws r of
               [] \<Rightarrow> None
             | c' # r' \<Rightarrow>
                 if c' = CHR '']'' then Some (JArr [], r')
                 else map_option (\<lambda>(js, t). (JArr js, t)) (p_elems n (d - 1) r)))
        else if c = DQ then map_option (\<lambda>(x, t). (JStr x, t)) (p_str r)
        else if c = CHR ''t'' then p_word ''true'' (JBool True) (c # r)
        else if c = CHR ''f'' then p_word ''false'' (JBool False) (c # r)
        else if c = CHR ''n'' then p_word ''null'' JNull (c # r)
        else map_option (\<lambda>(lit, t). (JNum lit, t)) (scan_number (c # r)))"
| "p_elems 0 d s = None"
| "p_elems (Suc n) d s = (case p_value n d s of
      None \<Rightarrow> None
    | Some (j, s1) \<Rightarrow> (case skip_ws s1 of
        [] \<Rightarrow> None
      | c # r \<Rightarrow>
          if c = CHR '','' then map_option (\<lambda>(js, t). (j # js, t)) (p_elems n d r)
          else if c = CHR '']'' then Some ([j], r)
          else None))"
| "p_members 0 d s = None"
| "p_members (Suc n) d s = (case skip_ws s of
      [] \<Rightarrow> None
    | c # r \<Rightarrow>
        if c \<noteq> DQ then None
        else (case p_str r of
            None \<Rightarrow> None
          | Some (k, s1) \<Rightarrow> (case skip_ws s1 of
              [] \<Rightarrow> None
            | c1 # r1 \<Rightarrow>
                if c1 \<noteq> CHR '':'' then None
                else (case p_value n d r1 of
                    None \<Rightarrow> None
                  | Some (v, s2) \<Rightarrow> (case skip_ws s2 of
                      [] \<Rightarrow> None
                    | c2 # r2 \<Rightarrow>
                        if c2 = CHR '','' then map_option (\<lambda>(ms, t). ((k, v) # ms, t)) (p_members n d r2)
                        else if c2 = CHR ''}'' then Some ([(k, v)], r2)
                        else None)))))"

definition json_fuel :: "string \<Rightarrow> nat" where
  "json_fuel s = 2 * length s + 1"

definition json_parse :: "string \<Rightarrow> json option" where
  "json_parse s = (case p_value (json_fuel s) 10000 s of
      None \<Rightarrow> None
    | Some (j, r) \<Rightarrow> if skip_ws r = [] then Some j else None)"

subsection \<open>The reader consumes its input\<close>

lemma p_str_length: "p_str s = Some (t, r) \<Longrightarrow> length r < length s"
proof (induction s arbitrary: t r rule: p_str.induct)
  case (2 c cs)
  show ?case
  proof (cases "c = DQ \<or> c = BS")
    case True
    with 2 show ?thesis
      by (auto simp: p_str.simps(2) split: if_splits list.splits option.splits
          dest!: u_unescape_length) fastforce+
  next
    case False
    obtain x n where d: "decode_rune (c # cs) = (x, n)" by fastforce
    from False d 2 show ?thesis
      by (cases x) (auto simp: p_str.simps(2) split: if_splits, fastforce+)
  qed
qed simp

lemma dropWhile_le: "length (dropWhile P s) \<le> length s"
  by (rule length_dropWhile_le)

lemma digits1_length: "digits1 s = Some (t, r) \<Longrightarrow> length r < length s"
proof -
  assume "digits1 s = Some (t, r)"
  then have "takeWhile is_digit s \<noteq> []" "r = dropWhile is_digit s"
    by (auto simp: digits1_def Let_def split: if_splits)
  moreover have "length s = length (takeWhile is_digit s) + length (dropWhile is_digit s)"
    by (metis length_append takeWhile_dropWhile_id)
  ultimately show ?thesis by (cases "takeWhile is_digit s") auto
qed

lemma scan_int_length: "scan_int s = Some (t, r) \<Longrightarrow> length r < length s"
  by (auto simp: scan_int_def split: list.splits if_splits dest: digits1_length)

lemma scan_frac_length: "scan_frac s = Some (t, r) \<Longrightarrow> length r \<le> length s"
  by (auto simp: scan_frac_def split: list.splits if_splits dest!: digits1_length)

lemma scan_exp_length: "scan_exp s = Some (t, r) \<Longrightarrow> length r \<le> length s"
  by (auto simp: scan_exp_def split: list.splits if_splits dest!: digits1_length)

lemma scan_number_length: "scan_number s = Some (t, r) \<Longrightarrow> length r < length s"
  by (auto simp: scan_number_def scan_unsigned_def split: list.splits if_splits option.splits
      dest!: scan_int_length scan_frac_length scan_exp_length)

lemma skip_ws_length: "length (skip_ws s) \<le> length s"
  by (simp add: skip_ws_def length_dropWhile_le)

lemma skip_ws_Cons_length: "skip_ws s = c # r \<Longrightarrow> length r < length s"
  using skip_ws_length [of s] by simp

lemma p_value_length:
  "p_value n d s = Some (j, r) \<Longrightarrow> length r < length s"
  "p_elems n d s = Some (js, r) \<Longrightarrow> length r < length s"
  "p_members n d s = Some (ms, r) \<Longrightarrow> length r < length s"
proof (induction n d s and n d s and n d s arbitrary: j r and js r and ms r
    rule: p_value_p_elems_p_members.induct)
  case (2 n d s)
  then show ?case
    by (auto simp: p_word_def split: list.splits if_splits
        dest!: skip_ws_Cons_length p_str_length scan_number_length) fastforce+
next
  case (4 n d s)
  then show ?case
    by (auto split: list.splits if_splits option.splits dest!: skip_ws_Cons_length) fastforce+
next
  case (6 n d s)
  then show ?case
    by (auto split: list.splits if_splits option.splits dest!: skip_ws_Cons_length p_str_length)
      fastforce+
qed simp_all

subsection \<open>Enough fuel\<close>

text \<open>With \<open>json_fuel\<close> or more, one more unit of fuel changes nothing.\<close>

lemma p_fuel_step:
  "(\<forall>d s. 2 * length s + 1 \<le> n \<longrightarrow> p_value (Suc n) d s = p_value n d s) \<and>
   (\<forall>d s. 2 * length s + 2 \<le> n \<longrightarrow> p_elems (Suc n) d s = p_elems n d s) \<and>
   (\<forall>d s. 2 * length s + 1 \<le> n \<longrightarrow> p_members (Suc n) d s = p_members n d s)"
proof (induction n)
  case (Suc n)
  have v: "p_value (Suc n) d s = p_value n d s" if "2 * length s + 1 \<le> n" for d s
    using Suc.IH that by blast
  have e: "p_elems (Suc n) d s = p_elems n d s" if "2 * length s + 2 \<le> n" for d s
    using Suc.IH that by blast
  have m: "p_members (Suc n) d s = p_members n d s" if "2 * length s + 1 \<le> n" for d s
    using Suc.IH that by blast
  have "p_value (Suc (Suc n)) d s = p_value (Suc n) d s" if "2 * length s + 1 \<le> Suc n" for d s
  proof (cases "skip_ws s")
    case (Cons c r)
    with that have "2 * length r + 2 \<le> n" using skip_ws_Cons_length by fastforce
    then have "p_elems (Suc n) (d - 1) r = p_elems n (d - 1) r"
      and "p_members (Suc n) (d - 1) r = p_members n (d - 1) r"
      using e m by simp_all
    with Cons show ?thesis
      unfolding p_value.simps(2) by (simp only: list.case)
  qed (simp add: p_value.simps(2))
  moreover have "p_elems (Suc (Suc n)) d s = p_elems (Suc n) d s"
    if "2 * length s + 2 \<le> Suc n" for d s
  proof (cases "p_value n d s")
    case (Some js1)
    obtain j s1 where js1: "js1 = (j, s1)" by fastforce
    have "p_value (Suc n) d s = p_value n d s" using that by (intro v) simp
    moreover have "p_elems (Suc n) d r = p_elems n d r" if "skip_ws s1 = c # r" for c r
      using p_value_length(1) Some js1 skip_ws_Cons_length [OF that] \<open>2 * length s + 2 \<le> Suc n\<close>
      by (intro e) fastforce
    ultimately show ?thesis
      unfolding p_elems.simps(2) using Some js1 by (auto split: list.split)
  next
    case None
    then show ?thesis unfolding p_elems.simps(2) using v [of s d] that by simp
  qed
  moreover have "p_members (Suc (Suc n)) d s = p_members (Suc n) d s"
    if len: "2 * length s + 1 \<le> Suc n" for d s
  proof (cases "skip_ws s")
    case (Cons c r)
    have r: "length r < length s" using skip_ws_Cons_length [OF Cons] .
    have val: "p_value (Suc n) d r1 = p_value n d r1"
      if "p_str r = Some (k, s1)" "skip_ws s1 = c1 # r1" for k s1 c1 r1
      using p_str_length [OF that(1)] skip_ws_Cons_length [OF that(2)] r len by (intro v) simp
    have mem: "p_members (Suc n) d r2 = p_members n d r2"
      if "p_str r = Some (k, s1)" "skip_ws s1 = c1 # r1" "p_value n d r1 = Some (w, s2)"
        "skip_ws s2 = c2 # r2" for k s1 c1 r1 w s2 c2 r2
      using p_str_length [OF that(1)] skip_ws_Cons_length [OF that(2)]
        p_value_length(1) [OF that(3)] skip_ws_Cons_length [OF that(4)] r len
      by (intro m) simp
    show ?thesis
      unfolding p_members.simps(2) Cons list.case
      using val mem by (auto split: option.split list.split)
  qed (simp add: p_members.simps(2))
  ultimately show ?case by blast
qed simp

lemma p_value_fuel: "json_fuel s \<le> n \<Longrightarrow> p_value n d s = p_value (json_fuel s) d s"
proof (induction n rule: dec_induct)
  case (step n)
  then show ?case using p_fuel_step [of n] unfolding json_fuel_def by metis
qed simp

subsection \<open>Reading undoes writing\<close>

lemma hex_value_digit: "n < 16 \<Longrightarrow> hex_value (hex_digit n) = Some n"
  by (auto simp: hex_value_def hex_digit_def)

lemma hex4_u_escape:
  "r < 65536 \<Longrightarrow> hex4 (drop 2 (u_escape r) @ t) = Some (r, t)"
proof -
  assume r: "r < 65536"
  have "r div 4096 mod 16 * 4096 + r div 256 mod 16 * 256 + r div 16 mod 16 * 16 + r mod 16 = r"
  proof -
    have d: "r div 256 = r div 16 div 16" "r div 4096 = r div 16 div 16 div 16"
      by (simp_all flip: div_mult2_eq)
    have "r div 4096 < 16" using r by (simp add: less_mult_imp_div_less)
    then have z: "r div 16 div 16 div 16 mod 16 = r div 16 div 16 div 16" by (simp add: d)
    have "r div 16 div 16 div 16 * 16 + r div 16 div 16 mod 16 = r div 16 div 16"
      and "r div 16 div 16 * 16 + r div 16 mod 16 = r div 16" and "r div 16 * 16 + r mod 16 = r"
      by (rule div_mult_mod_eq)+
    then show ?thesis unfolding d z by linarith
  qed
  moreover have "hex4 (drop 2 (u_escape r) @ t) =
      Some (r div 4096 mod 16 * 4096 + r div 256 mod 16 * 256 + r div 16 mod 16 * 16 + r mod 16, t)"
    by (simp add: u_escape_def hex_value_digit)
  ultimately show ?thesis by (simp only:)
qed

lemma p_str_u_escape:
  assumes "r < 65536" and "\<not> (55296 \<le> r \<and> r < 57344)"
  shows "p_str (u_escape r @ t) = map_option (\<lambda>(s, q). (encode_rune r @ s, q)) (p_str t)"
proof -
  have e: "u_escape r @ t = BS # CHR ''u'' # (drop 2 (u_escape r) @ t)" by (simp add: u_escape_def)
  have "u_unescape (drop 2 (u_escape r) @ t) = Some (encode_rune r, t)"
    unfolding u_unescape_def hex4_u_escape [OF assms(1)] using assms(2) by (simp del: not_less) argo
  then show ?thesis unfolding e by (simp add: p_str.simps(2))
qed

lemma p_str_rune:
  assumes "rune_piece (Some r, p)"
  shows "p_str (quote_piece (Some r, p) @ t) = map_option (\<lambda>(s, q). (p @ s, q)) (p_str t)"
proof -
  have enc: "encode_rune r = p" and ne: "p \<noteq> []" and dec: "decode_rune (p @ t) = (Some r, length p)"
    and lo: "r < 128 \<Longrightarrow> p = [char_of r]" and hi: "128 \<le> r \<Longrightarrow> 128 \<le> byte (hd p)"
    using assms by simp_all
  consider (q) "r = 34 \<or> r = 92" | (s) "r \<in> {8, 12, 10, 13, 9}"
    | (u) "r < 32 \<or> r = 60 \<or> r = 62 \<or> r = 38 \<or> r = 8232 \<or> r = 8233" "r \<notin> {8, 12, 10, 13, 9}"
    | (p) "32 \<le> r" "r \<notin> {34, 92, 60, 62, 38, 8232, 8233}"
    by force
  then show ?thesis
  proof cases
    case q
    then show ?thesis using lo
      by (auto simp: p_str.simps(2) simple_escape_def char_of_def bit_0)
  next
    case s
    then show ?thesis using lo
      by (auto simp: p_str.simps(2) simple_escape_def char_of_def bit_0)
  next
    case u
    then have "quote_piece (Some r, p) = u_escape r" by auto
    moreover have "r < 65536" "\<not> (55296 \<le> r \<and> r < 57344)" using u by auto
    ultimately show ?thesis using p_str_u_escape [of r t] enc by simp
  next
    case p
    then have qp: "quote_piece (Some r, p) = p" by auto
    obtain c cs where pc: "p = c # cs" using ne by (cases p) auto
    have "byte c \<noteq> 34 \<and> byte c \<noteq> 92 \<and> \<not> byte c < 32"
    proof (cases "r < 128")
      case True
      with lo pc have "c = char_of r" by simp
      with True p show ?thesis by simp
    next
      case False
      with hi pc show ?thesis by simp
    qed
    then have c: "c \<noteq> DQ" "c \<noteq> BS" "\<not> byte c < 32" by auto
    have "p_str (p @ t) = (case (Some r, length p) of
          (None, n) \<Rightarrow> map_option (\<lambda>(s, q). (encode_rune rune_error @ s, q)) (p_str (drop (n - 1) (cs @ t)))
        | (Some r, n) \<Rightarrow> map_option (\<lambda>(s, q). (take n (p @ t) @ s, q)) (p_str (drop (n - 1) (cs @ t))))"
      using c dec by (simp add: pc p_str.simps(2))
    then have "p_str (p @ t) = map_option (\<lambda>(s, q). (p @ s, q)) (p_str t)" by (simp add: pc)
    then show ?thesis by (simp only: qp)
  qed
qed

lemma p_str_pieces:
  "list_all rune_piece ps \<Longrightarrow>
   p_str (concat (map quote_piece ps) @ t) = map_option (\<lambda>(s, q). (concat (map snd ps) @ s, q)) (p_str t)"
proof (induction ps)
  case Nil
  then show ?case by (cases "p_str t") auto
next
  case (Cons a ps)
  obtain r p where a: "a = (Some r, p)" using Cons.prems by (cases a; cases "fst a") auto
  with Cons p_str_rune [of r p "concat (map quote_piece ps) @ t"] show ?case
    by (cases "p_str t") (auto simp del: rune_piece.simps quote_piece.simps)
qed

lemma p_str_quote:
  "valid_utf8 s \<Longrightarrow> p_str (tl (json_quote s) @ t) = Some (s, t)"
  using p_str_pieces [OF runes_pieces, of s "DQ # t"]
  by (simp add: json_quote_def p_str.simps(2) concat_runes)

subsection \<open>What is written is read back\<close>

text \<open>The trees the writer is used on, and how deeply they nest.\<close>

fun json_wf :: "json \<Rightarrow> bool" where
  "json_wf (JNum lit) \<longleftrightarrow> scan_number lit = Some (lit, [])"
| "json_wf (JStr s) \<longleftrightarrow> valid_utf8 s"
| "json_wf (JArr js) \<longleftrightarrow> list_all json_wf js"
| "json_wf (JObj ms) \<longleftrightarrow> list_all (\<lambda>(k, v). valid_utf8 k \<and> json_wf v) ms"
| "json_wf _ \<longleftrightarrow> True"

fun json_depth :: "json \<Rightarrow> nat" where
  "json_depth (JArr js) = Suc (fold (\<lambda>j m. max (json_depth j) m) js 0)"
| "json_depth (JObj ms) = Suc (fold (\<lambda>(k, v) m. max (json_depth v) m) ms 0)"
| "json_depth _ = 0"

lemma fold_max_ge: "(m :: nat) \<le> fold (\<lambda>j m. max (f j) m) js m"
proof (induction js arbitrary: m)
  case (Cons a js)
  have "m \<le> max (f a) m" by simp
  also have "\<dots> \<le> fold (\<lambda>j m. max (f j) m) js (max (f a) m)" by (rule Cons)
  finally show ?case by simp
qed simp

lemma fold_max_elem: "j \<in> set js \<Longrightarrow> f j \<le> fold (\<lambda>j m. max (f j) m) js (m :: nat)"
proof (induction js arbitrary: m)
  case (Cons a js)
  show ?case
  proof (cases "j = a")
    case True
    have "f a \<le> max (f a) m" by simp
    also have "\<dots> \<le> fold (\<lambda>j m. max (f j) m) js (max (f a) m)" by (rule fold_max_ge)
    finally show ?thesis using True by simp
  next
    case False
    with Cons show ?thesis by simp
  qed
qed simp

lemma json_depth_elem: "j \<in> set js \<Longrightarrow> json_depth j < json_depth (JArr js)"
  using fold_max_elem [of j js json_depth 0] by simp

lemma json_depth_member: "(k, v) \<in> set ms \<Longrightarrow> json_depth v < json_depth (JObj ms)"
  using fold_max_elem [of "(k, v)" ms "\<lambda>(k, v). json_depth v" 0]
  by (simp add: case_prod_beta')

definition delim :: "string \<Rightarrow> bool" where
  "delim t \<longleftrightarrow> t = [] \<or> hd t \<in> {CHR '','', CHR '']'', CHR ''}''}"

lemma delim_simps [simp]:
  "delim []"
  "delim (CHR '','' # t)"
  "delim (CHR '']'' # t)"
  "delim (CHR ''}'' # t)"
  by (simp_all add: delim_def)

lemma span_delim:
  assumes "delim t"
  shows "takeWhile is_digit (s @ t) = takeWhile is_digit s"
    and "dropWhile is_digit (s @ t) = dropWhile is_digit s @ t"
proof -
  have "takeWhile is_digit t = []" "dropWhile is_digit t = t"
    using assms by (cases t; auto simp: delim_def is_digit_def)+
  then show "takeWhile is_digit (s @ t) = takeWhile is_digit s"
    and "dropWhile is_digit (s @ t) = dropWhile is_digit s @ t"
    by (induction s) auto
qed

lemma digits1_delim: "delim t \<Longrightarrow> digits1 s = Some (a, r) \<Longrightarrow> digits1 (s @ t) = Some (a, r @ t)"
  by (auto simp: digits1_def Let_def span_delim split: if_splits)

lemma scan_int_delim: "delim t \<Longrightarrow> scan_int s = Some (a, r) \<Longrightarrow> scan_int (s @ t) = Some (a, r @ t)"
  using digits1_delim [of t s a r] by (auto simp: scan_int_def split: list.splits if_splits)

lemma scan_frac_delim:
  assumes "delim t" and "scan_frac s = Some (a, r)"
  shows "scan_frac (s @ t) = Some (a, r @ t)"
proof (cases s)
  case Nil
  with assms show ?thesis by (cases t) (auto simp: scan_frac_def delim_def)
next
  case (Cons c cs)
  with assms(2) show ?thesis
    by (auto simp: scan_frac_def digits1_delim [OF assms(1)] split: if_splits)
qed

lemma scan_exp_delim:
  assumes "delim t" and "scan_exp s = Some (a, r)"
  shows "scan_exp (s @ t) = Some (a, r @ t)"
proof (cases s)
  case Nil
  with assms show ?thesis by (cases t) (auto simp: scan_exp_def delim_def)
next
  case (Cons c cs)
  show ?thesis
  proof (cases cs)
    case Nil
    with Cons assms show ?thesis by (auto simp: scan_exp_def split: if_splits)
  next
    case (Cons g gs)
    with \<open>s = c # cs\<close> assms(2) show ?thesis
      using digits1_delim [OF assms(1), of "g # gs"]
      by (auto simp: scan_exp_def digits1_delim [OF assms(1), of gs] split: if_splits)
  qed
qed

lemma scan_unsigned_delim:
  assumes "delim t" and "scan_unsigned s = Some (a, [])"
  shows "scan_unsigned (s @ t) = Some (a, t)"
proof -
  from assms(2) obtain i s1 f s2 e where
    "scan_int s = Some (i, s1)" "scan_frac s1 = Some (f, s2)" "scan_exp s2 = Some (e, [])"
    and a: "a = i @ f @ e"
    by (auto simp: scan_unsigned_def split: option.splits)
  then show ?thesis
    using scan_int_delim [OF assms(1)] scan_frac_delim [OF assms(1)] scan_exp_delim [OF assms(1)]
    by (simp add: scan_unsigned_def)
qed

lemma scan_number_delim:
  assumes "delim t" and "scan_number s = Some (a, [])"
  shows "scan_number (s @ t) = Some (a, t)"
proof (cases s)
  case Nil
  with assms(2) show ?thesis by (simp add: scan_number_def)
next
  case (Cons c cs)
  show ?thesis
  proof (cases "c = CHR ''-''")
    case True
    with Cons assms(2) obtain b where "scan_unsigned cs = Some (b, [])" "a = c # b"
      by (auto simp: scan_number_def)
    with Cons True scan_unsigned_delim [OF assms(1)] show ?thesis
      by (simp add: scan_number_def)
  next
    case False
    with Cons assms(2) scan_unsigned_delim [OF assms(1), of s] show ?thesis
      by (simp add: scan_number_def)
  qed
qed

text \<open>What a written value starts with.\<close>

lemma scan_number_hd:
  "scan_number (c # s) = Some x \<Longrightarrow> c = CHR ''-'' \<or> is_digit c"
  by (auto simp: scan_number_def scan_unsigned_def scan_int_def digits1_def Let_def is_digit_def
      split: if_splits option.splits)

lemma scan_number_not_Nil: "scan_number s = Some x \<Longrightarrow> s \<noteq> []"
  by (auto simp: scan_number_def)

definition number_start :: "char \<Rightarrow> bool" where
  "number_start c \<longleftrightarrow> c = CHR ''-'' \<or> is_digit c"

lemma number_start_other:
  "number_start c \<Longrightarrow> c \<noteq> CHR ''{'' \<and> c \<noteq> CHR ''['' \<and> c \<noteq> DQ \<and> c \<noteq> CHR ''t'' \<and> c \<noteq> CHR ''f''
     \<and> c \<noteq> CHR ''n'' \<and> c \<noteq> CHR '']'' \<and> \<not> is_ws c"
  by (auto simp: number_start_def is_digit_def is_ws_def)

lemma json_text_start:
  "json_wf j \<Longrightarrow> json_text j \<noteq> [] \<and> \<not> is_ws (hd (json_text j)) \<and> hd (json_text j) \<noteq> CHR '']''"
proof (cases j)
  case (JNum lit)
  assume "json_wf j"
  with JNum have n: "scan_number lit = Some (lit, [])" by simp
  then obtain c cs where "lit = c # cs" by (cases lit) (auto simp: scan_number_def)
  with n JNum number_start_other [of c] scan_number_hd [of c cs] show ?thesis
    by (auto simp: number_start_def)
qed (auto simp: is_ws_def json_quote_def)

lemma skip_ws_start: "s \<noteq> [] \<Longrightarrow> \<not> is_ws (hd s) \<Longrightarrow> skip_ws (s @ t) = s @ t"
  by (cases s) (simp_all add: skip_ws_def)

lemma skip_ws_Cons [simp]: "\<not> is_ws c \<Longrightarrow> skip_ws (c # t) = c # t"
  by (simp add: skip_ws_def)

lemma punct_not_ws [simp]:
  "\<not> is_ws (CHR '','')" "\<not> is_ws (CHR '']'')" "\<not> is_ws (CHR ''}'')" "\<not> is_ws (CHR '':'')"
  "\<not> is_ws DQ" "\<not> is_ws (CHR ''{'')" "\<not> is_ws (CHR ''['')" "\<not> is_ws (CHR ''t'')"
  "\<not> is_ws (CHR ''f'')" "\<not> is_ws (CHR ''n'')"
  by (simp_all add: is_ws_def)

definition p_ok :: "json \<Rightarrow> bool" where
  "p_ok j \<longleftrightarrow> (\<forall>n d t. 2 * length (json_text j @ t) + 1 \<le> n \<longrightarrow> json_depth j \<le> d \<longrightarrow> delim t \<longrightarrow>
     p_value n d (json_text j @ t) = Some (j, t))"

lemma p_okD:
  "p_ok j \<Longrightarrow> 2 * length (json_text j @ t) + 1 \<le> n \<Longrightarrow> json_depth j \<le> d \<Longrightarrow> delim t \<Longrightarrow>
   p_value n d (json_text j @ t) = Some (j, t)"
  by (simp add: p_ok_def)

lemma p_elems_text:
  assumes "js \<noteq> []" and "\<forall>j \<in> set js. p_ok j \<and> json_depth j \<le> d"
    and "2 * length (join_with (CHR '','') (map json_text js) @ CHR '']'' # t) + 2 \<le> n"
  shows "p_elems n d (join_with (CHR '','') (map json_text js) @ CHR '']'' # t) = Some (js, t)"
  using assms
proof (induction js arbitrary: n)
  case (Cons j js)
  note IH = Cons.IH and prems = Cons.prems
  obtain m where n: "n = Suc m" using prems(3) by (cases n) auto
  show ?case
  proof (cases js)
    case Nil
    with prems n have "p_value m d (json_text j @ CHR '']'' # t) = Some (j, CHR '']'' # t)"
      by (intro p_okD) auto
    with Nil n show ?thesis by simp
  next
    case (Cons j' js')
    let ?u = "join_with (CHR '','') (map json_text js) @ CHR '']'' # t"
    have form: "join_with (CHR '','') (map json_text (j # js)) @ CHR '']'' # t =
        json_text j @ CHR '','' # ?u"
      using Cons by simp
    have "p_value m d (json_text j @ CHR '','' # ?u) = Some (j, CHR '','' # ?u)"
      using prems n unfolding form by (intro p_okD) auto
    moreover have "p_elems m d ?u = Some (js, t)"
      using prems n Cons unfolding form by (intro IH) auto
    ultimately show ?thesis unfolding n form by simp
  qed
qed simp

abbreviation member_text :: "string \<times> json \<Rightarrow> string" where
  "member_text \<equiv> \<lambda>(k, v). json_quote k @ '':'' @ json_text v"

lemma p_members_text:
  assumes "ms \<noteq> []" and "\<forall>(k, v) \<in> set ms. valid_utf8 k \<and> json_wf v \<and> p_ok v \<and> json_depth v \<le> d"
    and "2 * length (join_with (CHR '','') (map member_text ms) @ CHR ''}'' # t) + 1 \<le> n"
  shows "p_members n d (join_with (CHR '','') (map member_text ms) @ CHR ''}'' # t) = Some (ms, t)"
  using assms
proof (induction ms arbitrary: n)
  case (Cons kv ms)
  note IH = Cons.IH and prems = Cons.prems
  obtain k v where kv: "kv = (k, v)" by fastforce
  obtain m where n: "n = Suc m" using prems(3) by (cases n) auto
  have k: "valid_utf8 k" and v: "json_wf v" "p_ok v" "json_depth v \<le> d"
    using prems(2) kv by auto
  have q: "json_quote k @ u = DQ # (tl (json_quote k) @ u)" for u by (simp add: json_quote_def)
  have str: "p_str (tl (json_quote k) @ u) = Some (k, u)" for u by (rule p_str_quote [OF k])
  show ?case
  proof (cases ms)
    case Nil
    let ?w = "json_text v @ CHR ''}'' # t"
    have form: "join_with (CHR '','') (map member_text (kv # ms)) @ CHR ''}'' # t =
        DQ # (tl (json_quote k) @ CHR '':'' # ?w)"
      using Nil kv q [of "CHR '':'' # ?w"] by simp
    have "p_value m d ?w = Some (v, CHR ''}'' # t)"
      using prems(3) n v unfolding form by (intro p_okD) auto
    then show ?thesis unfolding n form by (simp add: str Nil kv)
  next
    case (Cons kv' ms')
    let ?u = "join_with (CHR '','') (map member_text ms) @ CHR ''}'' # t"
    let ?w = "json_text v @ CHR '','' # ?u"
    have form: "join_with (CHR '','') (map member_text (kv # ms)) @ CHR ''}'' # t =
        DQ # (tl (json_quote k) @ CHR '':'' # ?w)"
      using Cons kv q [of "CHR '':'' # ?w"] by simp
    have "p_value m d ?w = Some (v, CHR '','' # ?u)"
      using prems(3) n v unfolding form by (intro p_okD) auto
    moreover have "p_members m d ?u = Some (ms, t)"
      using prems n Cons unfolding form by (intro IH) auto
    ultimately show ?thesis unfolding n form by (simp add: str kv)
  qed
qed simp

lemma p_ok_word: "p_ok JNull" "p_ok (JBool b)"
  unfolding p_ok_def by (cases b; auto simp: p_word_def dest!: Suc_le_D)+

lemma p_value_text: "json_wf j \<Longrightarrow> p_ok j"
proof (induction j rule: json_wf.induct)
  case (1 lit)
  then obtain c cs where lit: "lit = c # cs" by (cases lit) (auto simp: scan_number_def)
  with 1 have c: "number_start c" using scan_number_hd by (auto simp: number_start_def)
  show ?case
    unfolding p_ok_def
  proof (intro allI impI)
    fix n d t
    assume "2 * length (json_text (JNum lit) @ t) + 1 \<le> n" and "delim t"
    then obtain m where n: "n = Suc m" by (cases n) auto
    show "p_value n d (json_text (JNum lit) @ t) = Some (JNum lit, t)"
      using number_start_other [OF c] scan_number_delim [OF \<open>delim t\<close>, of lit lit] 1
      by (simp add: n lit)
  qed
next
  case (2 s)
  have q: "json_quote s @ u = DQ # (tl (json_quote s) @ u)" for u by (simp add: json_quote_def)
  show ?case
    unfolding p_ok_def
  proof (intro allI impI)
    fix n d t
    assume "2 * length (json_text (JStr s) @ t) + 1 \<le> n"
    then obtain m where n: "n = Suc m" by (cases n) auto
    show "p_value n d (json_text (JStr s) @ t) = Some (JStr s, t)"
      using 2 p_str_quote [of s t] by (simp add: n q)
  qed
next
  case (3 js)
  then have IH: "\<forall>j \<in> set js. p_ok j" by (auto simp: list_all_iff)
  show ?case
    unfolding p_ok_def
  proof (intro allI impI)
    fix n d t
    assume len: "2 * length (json_text (JArr js) @ t) + 1 \<le> n" and d: "json_depth (JArr js) \<le> d"
    then obtain m where n: "n = Suc m" by (cases n) auto
    have "d \<noteq> 0" using d by simp
    show "p_value n d (json_text (JArr js) @ t) = Some (JArr js, t)"
    proof (cases "js = []")
      case True
      with n \<open>d \<noteq> 0\<close> show ?thesis by simp
    next
      case False
      let ?u = "join_with (CHR '','') (map json_text js) @ CHR '']'' # t"
      obtain j js' where js: "js = j # js'" using False by (cases js) auto
      with 3 have j: "json_text j \<noteq> []" "\<not> is_ws (hd (json_text j))" "hd (json_text j) \<noteq> CHR '']''"
        using json_text_start [of j] by auto
      then obtain c r where u: "?u = c # r" "\<not> is_ws c" "c \<noteq> CHR '']''"
        using js by (cases "json_text j"; cases js') auto
      have "json_depth x \<le> d - 1" if "x \<in> set js" for x
        using json_depth_elem [OF that] d by linarith
      then have "p_elems m (d - 1) ?u = Some (js, t)"
        using False IH len n by (intro p_elems_text) auto
      with u \<open>d \<noteq> 0\<close> show ?thesis by (simp add: n)
    qed
  qed
next
  case (4 ms)
  then have IH: "\<forall>(k, v) \<in> set ms. valid_utf8 k \<and> json_wf v \<and> p_ok v"
    by (fastforce simp: list_all_iff)
  show ?case
    unfolding p_ok_def
  proof (intro allI impI)
    fix n d t
    assume len: "2 * length (json_text (JObj ms) @ t) + 1 \<le> n" and d: "json_depth (JObj ms) \<le> d"
    then obtain m where n: "n = Suc m" by (cases n) auto
    have "d \<noteq> 0" using d by simp
    show "p_value n d (json_text (JObj ms) @ t) = Some (JObj ms, t)"
    proof (cases "ms = []")
      case True
      with n \<open>d \<noteq> 0\<close> show ?thesis by simp
    next
      case False
      let ?u = "join_with (CHR '','') (map member_text ms) @ CHR ''}'' # t"
      obtain k v ms' where ms: "ms = (k, v) # ms'" using False by (cases ms) auto
      then obtain r where u: "?u = DQ # r"
        by (cases ms') (auto simp: json_quote_def)
      have "json_depth x \<le> d - 1" if "(k, x) \<in> set ms" for k x
        using json_depth_member [OF that] d by linarith
      then have "p_members m (d - 1) ?u = Some (ms, t)"
        using False IH len n by (intro p_members_text) auto
      with u \<open>d \<noteq> 0\<close> show ?thesis by (simp add: n)
    qed
  qed
qed (simp_all add: p_ok_word)

lemma json_parse_text:
  assumes "json_wf j" and "json_depth j \<le> 10000"
  shows "json_parse (json_text j) = Some j"
proof -
  have "p_value (json_fuel (json_text j)) 10000 (json_text j @ []) = Some (j, [])"
    using assms by (intro p_okD [OF p_value_text]) (auto simp: json_fuel_def)
  then show ?thesis by (simp add: json_parse_def skip_ws_def)
qed

end
