(* ===== verification/Path_Param.thy ===== *)
theory Path_Param
  imports Framework Go_Json
begin

text \<open>
  \<open>web/web.go\<close>: a captured route parameter, percent-decoded once. \<open>PathUnescape\<close> is
  \<open>url.PathUnescape\<close>: an escape is \<open>%\<close> and two hex digits, anything else after \<open>%\<close> is an
  error, and every other byte (\<open>+\<close> too) stands for itself. \<open>encodes\<close> says what a
  percent-encoding of a value is, without an algorithm.
\<close>

fun PathUnescape :: "string \<Rightarrow> string option" where
  "PathUnescape [] = Some []"
| "PathUnescape (c # s) =
     (if c = CHR ''%'' then
        (case s of
           a # b # r \<Rightarrow>
             (case (hex_value a, hex_value b) of
                (Some x, Some y) \<Rightarrow> map_option (\<lambda>t. char_of (16 * x + y) # t) (PathUnescape r)
              | _ \<Rightarrow> None)
         | _ \<Rightarrow> None)
      else map_option (\<lambda>t. c # t) (PathUnescape s))"

definition PathParam :: "('ctx, 'a) azugo_scheme \<Rightarrow> 'ctx \<Rightarrow> string \<Rightarrow> string" where
  "PathParam A ctx key =
     (let raw = path_param A ctx key in
      case PathUnescape raw of None \<Rightarrow> raw | Some decoded \<Rightarrow> decoded)"

inductive encodes :: "string \<Rightarrow> string \<Rightarrow> bool" where
  "encodes [] []"
| "c \<noteq> CHR ''%'' \<Longrightarrow> encodes raw v \<Longrightarrow> encodes (c # raw) (c # v)"
| "hex_value a = Some (byte c div 16) \<Longrightarrow> hex_value b = Some (byte c mod 16) \<Longrightarrow>
     encodes raw v \<Longrightarrow> encodes (CHR ''%'' # a # b # raw) (c # v)"

lemma hex_value_lt: "hex_value a = Some x \<Longrightarrow> x < 16"
  by (auto simp: hex_value_def split: if_splits)

lemma encodes_PathUnescape: "encodes raw v \<Longrightarrow> PathUnescape raw = Some v"
  by (induction rule: encodes.induct) auto

lemma PathUnescape_encodes: "PathUnescape raw = Some v \<Longrightarrow> encodes raw v"
proof (induction raw arbitrary: v rule: PathUnescape.induct)
  case 1
  then show ?case by (auto intro: encodes.intros)
next
  case (2 c s)
  show ?case
  proof (cases "c = CHR ''%''")
    case False
    with 2 show ?thesis by (auto intro: encodes.intros)
  next
    case True
    with 2(3) obtain a b r x y t where s: "s = a # b # r" "hex_value a = Some x" "hex_value b = Some y"
      "PathUnescape r = Some t" "v = char_of (16 * x + y) # t"
      by (auto split: list.splits option.splits)
    have "x < 16" "y < 16" using s hex_value_lt by auto
    then have "byte (char_of (16 * x + y)) = 16 * x + y" by simp
    with \<open>y < 16\<close> have "byte (char_of (16 * x + y)) div 16 = x" "byte (char_of (16 * x + y)) mod 16 = y"
      by simp_all
    moreover have "encodes r t" using 2(1) True s by auto
    ultimately show ?thesis
      using s True by (auto intro: encodes.intros)
  qed
qed

lemma PathUnescape_iff: "PathUnescape raw = Some v \<longleftrightarrow> encodes raw v"
  using encodes_PathUnescape PathUnescape_encodes by blast

subsection \<open>Properties\<close>

text \<open>
  C37. A handler sees the value the client meant: a captured segment that is a
  percent-encoding, in whichever way and case the client escaped it, reads as the one value
  it encodes, decoded once; a segment that encodes nothing reads as it is.
\<close>

theorem PathParam_decodes:
  "PathParam A c key = v \<longleftrightarrow>
     (if \<exists>w. encodes (path_param A c key) w then encodes (path_param A c key) v
      else v = path_param A c key)"
  by (auto simp: PathParam_def Let_def PathUnescape_iff [symmetric] split: option.split)

end
