(* ===== verification/Error_Values.thy ===== *)
theory Error_Values
  imports Go_Strings
begin

text \<open>
  The error values the package \<open>errors\<close> handles, and what Go's \<open>errors.As\<close> finds in
  them.

  A \<open>*Problem\<close> is a pointer: the handler writes through it, and a service may keep one in
  a package variable and return it from many requests. An error value therefore holds the
  address of a problem, and a \<open>heap\<close> maps addresses to problems; an address the heap does
  not map is a nil pointer.

  Errors of other packages are not modelled; what the kit sees of them is their method set
  (\<open>methods\<close>) and the errors they wrap. The errors of the web framework that the
  taxonomy builds are known by the constructor calls in the code; their methods are the
  field \<open>fw_methods\<close> of the environment.
\<close>

subsection \<open>Problem, Hop\<close>

record hop =
  hService :: string
  hCode :: string
  hStatus :: int
  hElided :: int

record problem =
  pType :: string
  pTitle :: string
  pStatus :: int
  pDetail :: string
  pCode :: string
  pSource :: string
  pTraceID :: string
  pChain :: "hop list"
  detailPublic :: bool

definition zero_problem :: problem where
  "zero_problem = \<lparr>pType = [], pTitle = [], pStatus = 0, pDetail = [], pCode = [],
     pSource = [], pTraceID = [], pChain = [], detailPublic = False\<rparr>"

text \<open>The methods of \<open>*Problem\<close>.\<close>

definition Problem_Error :: "problem \<Rightarrow> string" where
  "Problem_Error p =
     (let msg = (if pDetail p = [] then pTitle p else pDetail p) in
      if pCode p \<noteq> [] then
        (if msg = [] then pCode p else pCode p @ '': '' @ msg)
      else msg)"

definition Problem_SafeError :: "problem \<Rightarrow> string" where
  "Problem_SafeError p = pTitle p"

definition Problem_StatusCode :: "problem \<Rightarrow> int" where
  "Problem_StatusCode p = (if pStatus p \<noteq> 0 then pStatus p else 500)"

type_synonym heap = "nat \<Rightarrow> problem option"

subsection \<open>Errors\<close>

record methods =
  mError :: string
  mErrorCode :: "string option" \<comment> \<open>\<open>Coder\<close>\<close>
  mStatusCode :: "int option" \<comment> \<open>\<open>http.ResponseStatusCode\<close>\<close>
  mSafeError :: "string option" \<comment> \<open>\<open>azugo.SafeError\<close>\<close>
  mErrorHeaders :: "(string \<times> string) list option" \<comment> \<open>\<open>azugo.ErrorHeaders\<close>\<close>
  mValidation :: bool \<comment> \<open>the type is \<open>validator.ValidationErrors\<close>\<close>

datatype fw_error =
    NotFoundError string
  | ForbiddenError
  | UnauthorizedError
  | BadRequestError string
  | ParamRequiredError string

record error_env = unicode_tables +
  fw_methods :: "fw_error \<Rightarrow> methods"

datatype goerror =
    ErrString string
  | ConflictError string
  | GoneError string
  | InternalError "goerror option"
  | RegisteredError (reCode: string) (reStatus: int) (reSafe: string)
  | FwError fw_error
  | ProblemRef nat
  | ForeignError methods "goerror list"

definition ConflictError_Error :: "string \<Rightarrow> string" where
  "ConflictError_Error r = (if r = [] then ''conflict'' else r @ '' conflict'')"

definition GoneError_Error :: "string \<Rightarrow> string" where
  "GoneError_Error r =
     (if r = [] then ''no longer available'' else r @ '' no longer available'')"

definition InternalError_SafeError :: string where
  "InternalError_SafeError = ''internal server error''"

definition plain_methods :: "string \<Rightarrow> methods" where
  "plain_methods t = \<lparr>mError = t, mErrorCode = None, mStatusCode = None, mSafeError = None,
     mErrorHeaders = None, mValidation = False\<rparr>"

text \<open>
  The method set of an error's own type. A method called on a nil \<open>*Problem\<close> would panic;
  \<open>methods_of\<close> gives such an error no methods, and the operations that would call one
  check for it first.
\<close>

fun methods_of :: "'a error_env_scheme \<Rightarrow> heap \<Rightarrow> goerror \<Rightarrow> methods" where
  "methods_of E H (ErrString s) = plain_methods s"
| "methods_of E H (ConflictError r) = (plain_methods (ConflictError_Error r))
     \<lparr>mStatusCode := Some 409, mSafeError := Some (ConflictError_Error r)\<rparr>"
| "methods_of E H (GoneError r) = (plain_methods (GoneError_Error r))
     \<lparr>mStatusCode := Some 410, mSafeError := Some (GoneError_Error r)\<rparr>"
| "methods_of E H (InternalError None) = (plain_methods ''internal error'')
     \<lparr>mStatusCode := Some 500, mSafeError := Some InternalError_SafeError\<rparr>"
| "methods_of E H (InternalError (Some e)) = (plain_methods (mError (methods_of E H e)))
     \<lparr>mStatusCode := Some 500, mSafeError := Some InternalError_SafeError\<rparr>"
| "methods_of E H (RegisteredError c s safe) = (plain_methods safe)
     \<lparr>mErrorCode := Some c, mStatusCode := Some s, mSafeError := Some safe\<rparr>"
| "methods_of E H (FwError f) = fw_methods E f"
| "methods_of E H (ProblemRef a) = (case H a of
       None \<Rightarrow> plain_methods []
     | Some p \<Rightarrow> (plain_methods (Problem_Error p))
         \<lparr>mStatusCode := Some (Problem_StatusCode p), mSafeError := Some (Problem_SafeError p)\<rparr>)"
| "methods_of E H (ForeignError m es) = m"

subsection \<open>errors.As\<close>

text \<open>
  \<open>errors.As\<close> walks the tree an error spans through \<open>Unwrap\<close>, in pre-order, and takes the
  first error of the wanted type. (No error type of the kit has an \<open>As\<close> method; an error
  of another package is taken to have none.)
\<close>

fun err_tree :: "goerror \<Rightarrow> goerror list" where
  "err_tree (InternalError (Some e)) = InternalError (Some e) # err_tree e"
| "err_tree (ForeignError m es) = ForeignError m es # concat (map err_tree es)"
| "err_tree e = [e]"

definition errors_As :: "(goerror \<Rightarrow> 'b option) \<Rightarrow> goerror \<Rightarrow> 'b option" where
  "errors_As want e = first_some want (err_tree e)"

fun as_Problem :: "goerror \<Rightarrow> nat option" where
  "as_Problem (ProblemRef a) = Some a"
| "as_Problem _ = None"

lemma err_tree_self: "e \<in> set (err_tree e)"
  by (cases e rule: err_tree.cases) simp_all

lemma err_tree_not_Nil [simp]: "err_tree e \<noteq> []"
  using err_tree_self [of e] by auto

text \<open>An error whose own type matches is found first.\<close>

lemma errors_As_self: "want e = Some x \<Longrightarrow> errors_As want e = Some x"
  by (cases e rule: err_tree.cases) (simp_all add: errors_As_def)

lemma errors_As_None_iff: "errors_As want e = None \<longleftrightarrow> (\<forall>x \<in> set (err_tree e). want x = None)"
  by (simp add: errors_As_def first_some_None_iff)

lemma errors_As_SomeD: "errors_As want e = Some y \<Longrightarrow> \<exists>x \<in> set (err_tree e). want x = Some y"
  by (auto simp: errors_As_def dest: first_some_SomeD)

lemmas problem_method_defs = Problem_Error_def Problem_SafeError_def Problem_StatusCode_def

lemma Problem_StatusCode_nonzero [simp]: "Problem_StatusCode p \<noteq> 0"
  by (simp add: Problem_StatusCode_def)

end
