(* ===== verification/Error_Taxonomy.thy ===== *)
theory Error_Taxonomy
  imports Error_Values
begin

text \<open>
  \<open>errors/errors.go\<close>: result codes, the registry of reasons, and the mapping of a reason to
  an error (with \<open>builtinTitleForReasonOK\<close> of \<open>errors/problem.go\<close>, which
  \<open>RegisterReason\<close> calls). The registry is a map from a normalized reason to its
  \<open>reason_spec\<close>; it is passed to what reads it and returned by what writes it. Every
  access in the code holds the registry's lock for the whole operation, so one operation is
  one step here.
\<close>

definition Prefix :: string where
  "Prefix = ''err''"

record code =
  cDomain :: string
  cReason :: string

definition ParseCode :: "string \<Rightarrow> code option" where
  "ParseCode s =
     (let parts = split_on (CHR '':'') (trim_space s) in
      if length parts < 3 \<or> parts ! 0 \<noteq> Prefix then None
      else
        let reason = parts ! (length parts - 1);
            d = join_with (CHR '':'') (take (length parts - 2) (drop 1 parts))
        in Some \<lparr>cDomain = d, cReason = reason\<rparr>)"

text \<open>\<open>Prefix + ":" + c.Domain + ":" + c.Reason\<close>, as \<open>mapReason\<close> spells a code.\<close>

definition code_text :: "code \<Rightarrow> string" where
  "code_text c = Prefix @ '':'' @ cDomain c @ '':'' @ cReason c"

definition normalize_reason :: "'a unicode_tables_scheme \<Rightarrow> string \<Rightarrow> string" where
  "normalize_reason U s = remove_bytes ''_- '' (to_lower U (trim_space s))"

definition resource :: "string \<Rightarrow> string \<Rightarrow> string" where
  "resource d safe = (if safe \<noteq> [] then safe else d)"

definition msg :: "string list \<Rightarrow> string" where
  "msg safeMsg = (if 0 < length safeMsg then safeMsg ! 0 else [])"

subsection \<open>The registry\<close>

record reason_spec =
  rStatus :: int
  rTitle :: string

type_synonym registry = "string \<Rightarrow> reason_spec option"

record register_options =
  allowBuiltinOverride :: bool

type_synonym register_option = "register_options \<Rightarrow> register_options"

definition AllowBuiltinOverride :: register_option where
  "AllowBuiltinOverride ro = ro\<lparr>allowBuiltinOverride := True\<rparr>"

definition builtinTitleForReasonOK ::
  "'a unicode_tables_scheme \<Rightarrow> string \<Rightarrow> string option" where
  "builtinTitleForReasonOK U reason =
     (let n = normalize_reason U reason in
      if n \<in> set [''notfound'', ''missing'', ''unknown'', ''doesnotexist''] then
        Some ''Not found''
      else if n \<in> set [''forbidden'', ''accessdenied'', ''denied'', ''notallowed'', ''notpermitted''] then
        Some ''Forbidden''
      else if n \<in> set [''unauthorized'', ''unauthenticated''] then
        Some ''Unauthorized''
      else if n \<in> set [''conflict'', ''alreadyexists'', ''duplicate'', ''exists''] then
        Some ''Conflict''
      else if n \<in> set [''gone'', ''expired'', ''revoked''] then
        Some ''No longer available''
      else if n \<in> set [''invalid'', ''validation'', ''malformed'', ''badrequest'', ''badinput''] then
        Some ''Invalid request''
      else if n \<in> set [''required'', ''missingparameter'', ''missingfield''] then
        Some ''Missing required parameter''
      else None)"

text \<open>\<open>RegisterReason\<close> panics with a message (\<open>Inl\<close>) or returns the new registry.\<close>

definition RegisterReason ::
  "'a unicode_tables_scheme \<Rightarrow> registry \<Rightarrow> string \<Rightarrow> reason_spec \<Rightarrow> register_option list
   \<Rightarrow> string + registry" where
  "RegisterReason U R reason spec opts =
     (if rStatus spec < 100 \<or> 599 < rStatus spec then
        Inl (''errors: reason '' @ reason @ '' registered with an out-of-range HTTP status'')
      else
        let ro = fold (\<lambda>opt. opt) opts \<lparr>allowBuiltinOverride = False\<rparr> in
        if builtinTitleForReasonOK U reason \<noteq> None \<and> \<not> allowBuiltinOverride ro then
          Inl (''errors: reason '' @ reason @ '' collides with a built-in taxonomy reason; ''
            @ ''pass AllowBuiltinOverride() if the shadowing is intentional'')
        else Inr (R(normalize_reason U reason \<mapsto> spec)))"

definition resetRegistry :: "registry \<Rightarrow> registry" where
  "resetRegistry R = Map.empty"

definition lookupReason :: "'a unicode_tables_scheme \<Rightarrow> registry \<Rightarrow> string \<Rightarrow> reason_spec option" where
  "lookupReason U R reason = R (normalize_reason U reason)"

subsection \<open>From a reason to an error\<close>

definition mapReason :: "'a error_env_scheme \<Rightarrow> registry \<Rightarrow> code \<Rightarrow> string \<Rightarrow> goerror" where
  "mapReason E R c safe = (case lookupReason E R (cReason c) of
      Some spec \<Rightarrow> RegisteredError (code_text c) (rStatus spec) (resource (rTitle spec) safe)
    | None \<Rightarrow>
        let n = normalize_reason E (cReason c) in
        if n \<in> set [''notfound'', ''missing'', ''unknown'', ''doesnotexist''] then
          FwError (NotFoundError (resource (cDomain c) safe))
        else if n \<in> set [''forbidden'', ''accessdenied'', ''denied'', ''notallowed'', ''notpermitted''] then
          FwError ForbiddenError
        else if n \<in> set [''unauthorized'', ''unauthenticated''] then
          FwError UnauthorizedError
        else if n \<in> set [''conflict'', ''alreadyexists'', ''duplicate'', ''exists''] then
          ConflictError (resource (cDomain c) safe)
        else if n \<in> set [''gone'', ''expired'', ''revoked''] then
          GoneError (resource (cDomain c) safe)
        else if n \<in> set [''invalid'', ''validation'', ''malformed'', ''badrequest'', ''badinput''] then
          FwError (BadRequestError safe)
        else if n \<in> set [''required'', ''missingparameter'', ''missingfield''] then
          FwError (ParamRequiredError (cDomain c))
        else InternalError (Some (ErrString (code_text c))))"

definition FromResultCode ::
  "'a error_env_scheme \<Rightarrow> registry \<Rightarrow> string \<Rightarrow> string list \<Rightarrow> goerror" where
  "FromResultCode E R s safeMsg = (case ParseCode s of
      None \<Rightarrow> InternalError (Some (ErrString s))
    | Some c \<Rightarrow> mapReason E R c (msg safeMsg))"

definition HTTP ::
  "'a error_env_scheme \<Rightarrow> registry \<Rightarrow> string \<Rightarrow> string \<Rightarrow> string list \<Rightarrow> goerror" where
  "HTTP E R d reason safeMsg =
     mapReason E R \<lparr>cDomain = d, cReason = reason\<rparr> (msg safeMsg)"

text \<open>What the framework documents of the errors the taxonomy builds: their statuses.\<close>

definition fw_statuses :: "'a error_env_scheme \<Rightarrow> bool" where
  "fw_statuses E \<longleftrightarrow>
     (\<forall>r. mStatusCode (fw_methods E (NotFoundError r)) = Some 404) \<and>
     mStatusCode (fw_methods E ForbiddenError) = Some 403 \<and>
     mStatusCode (fw_methods E UnauthorizedError) = Some 401 \<and>
     (\<forall>d. mStatusCode (fw_methods E (BadRequestError d)) = Some 400) \<and>
     (\<forall>n. mStatusCode (fw_methods E (ParamRequiredError n)) = Some 400)"

subsection \<open>Result codes\<close>

lemma code_text_split:
  "CHR '':'' \<notin> set (cReason c) \<Longrightarrow>
   split_on (CHR '':'') (code_text c) = ''err'' # split_on (CHR '':'') (cDomain c) @ [cReason c]"
proof -
  assume r: "CHR '':'' \<notin> set (cReason c)"
  have e: "code_text c = ''err'' @ CHR '':'' # (cDomain c @ CHR '':'' # cReason c)"
    by (simp add: code_text_def Prefix_def)
  show ?thesis
    unfolding e split_append using r by (simp add: split_single split_append)
qed

lemma code_parts:
  assumes "3 \<le> length parts" and "parts ! 0 = Prefix"
  shows "parts = Prefix # take (length parts - 2) (drop 1 parts) @ [parts ! (length parts - 1)]"
    and "take (length parts - 2) (drop 1 parts) \<noteq> []"
proof -
  obtain a b mid' lst where "parts = a # b # mid' @ [lst]"
    using assms(1) by (cases parts; cases "tl parts"; cases "tl (tl parts)" rule: rev_cases) auto
  with assms(2) obtain mid where "parts = Prefix # mid @ [lst]" "mid \<noteq> []"
    by (auto intro: that [of "b # mid'"])
  then show "parts = Prefix # take (length parts - 2) (drop 1 parts) @ [parts ! (length parts - 1)]"
    and "take (length parts - 2) (drop 1 parts) \<noteq> []"
    by (auto simp: nth_append)
qed

lemma ParseCode_SomeD:
  assumes "ParseCode s = Some c"
  shows "trim_space s = code_text c \<and> CHR '':'' \<notin> set (cReason c)"
proof -
  let ?parts = "split_on (CHR '':'') (trim_space s)"
  let ?mid = "take (length ?parts - 2) (drop 1 ?parts)"
  let ?last = "?parts ! (length ?parts - 1)"
  from assms have len: "3 \<le> length ?parts" and hd: "?parts ! 0 = Prefix"
    and c: "c = \<lparr>cDomain = join_with (CHR '':'') ?mid, cReason = ?last\<rparr>"
    by (auto simp: ParseCode_def Let_def split: if_splits)
  note parts = code_parts [OF len hd]
  have "trim_space s = join_with (CHR '':'') ([Prefix] @ (?mid @ [?last]))"
    using parts(1) by (metis append_Cons append_Nil join_split)
  also have "\<dots> = Prefix @ CHR '':'' # join_with (CHR '':'') (?mid @ [?last])"
    by (subst join_append) auto
  also have "join_with (CHR '':'') (?mid @ [?last]) = cDomain c @ CHR '':'' # cReason c"
    using parts(2) by (subst join_append) (auto simp: c)
  finally have "trim_space s = code_text c" by (simp add: code_text_def)
  moreover have "?last \<in> set ?parts" using len by (intro nth_mem) simp
  then have "CHR '':'' \<notin> set ?last" by (rule split_on_no_sep)
  then have "CHR '':'' \<notin> set (cReason c)" unfolding c by simp
  ultimately show ?thesis by simp
qed

lemma ParseCode_SomeI:
  assumes "trim_space s = code_text c" and "CHR '':'' \<notin> set (cReason c)"
  shows "ParseCode s = Some c"
proof -
  let ?ds = "split_on (CHR '':'') (cDomain c)"
  have parts: "split_on (CHR '':'') (trim_space s) = ''err'' # ?ds @ [cReason c]"
    using assms by (simp add: code_text_split)
  have "0 < length ?ds" by (simp only: length_greater_0_conv) simp
  then have "3 \<le> length (''err'' # ?ds @ [cReason c])"
    by (simp only: length_Cons length_append list.size)
  then show ?thesis
    unfolding ParseCode_def parts by (simp add: Prefix_def join_split)
qed

lemma code_text_trim:
  "ParseCode s = Some c \<Longrightarrow> trim_space (code_text c) = code_text c"
  by (metis ParseCode_SomeD trim_space_idem)

lemma ParseCode_code_text: "ParseCode s = Some c \<Longrightarrow> ParseCode (code_text c) = Some c"
  using ParseCode_SomeD ParseCode_SomeI code_text_trim by blast

text \<open>
  A result code is recognised exactly when, without surrounding white space, it is
  \<open>err:\<close>, a domain, a colon and a reason without a colon; \<open>ParseCode\<close> then returns that
  domain (inner colons folded in) and that reason, and nothing of the text is lost.
\<close>

theorem ParseCode_iff:
  "ParseCode s = Some c \<longleftrightarrow> trim_space s = code_text c \<and> CHR '':'' \<notin> set (cReason c)"
  using ParseCode_SomeD ParseCode_SomeI by blast

subsection \<open>Reasons\<close>

lemma lookupReason_update:
  "lookupReason U (R(normalize_reason U reason \<mapsto> spec)) reason' =
     (if normalize_reason U reason' = normalize_reason U reason then Some spec
      else lookupReason U R reason')"
  by (simp add: lookupReason_def)

lemma mapReason_registered [kit_simps]:
  "lookupReason E R (cReason c) = Some spec \<Longrightarrow>
   mapReason E R c safe = RegisteredError (code_text c) (rStatus spec) (resource (rTitle spec) safe)"
  by (simp add: mapReason_def)

text \<open>The statuses the taxonomy documents for its built-in titles.\<close>

definition title_status :: "string \<Rightarrow> int" where
  "title_status t =
     (if t = ''Not found'' then 404 else if t = ''Forbidden'' then 403
      else if t = ''Unauthorized'' then 401 else if t = ''Conflict'' then 409
      else if t = ''No longer available'' then 410 else 400)"

lemma mapReason_builtin_status:
  assumes "lookupReason E R (cReason c) = None" and "fw_statuses E"
  shows "mStatusCode (methods_of E H (mapReason E R c safe)) = Some
     (case builtinTitleForReasonOK E (cReason c) of Some t \<Rightarrow> title_status t | None \<Rightarrow> 500)"
  using assms
  by (simp add: mapReason_def builtinTitleForReasonOK_def Let_def fw_statuses_def title_status_def
      del: set_simps)

lemma mapReason_internal:
  assumes "lookupReason E R (cReason c) = None" and "builtinTitleForReasonOK E (cReason c) = None"
  shows "mapReason E R c safe = InternalError (Some (ErrString (code_text c)))"
  using assms
  by (auto simp: mapReason_def builtinTitleForReasonOK_def Let_def simp del: set_simps
      split: if_splits)

lemma mapReason_not_internal:
  assumes "builtinTitleForReasonOK E (cReason c) \<noteq> None"
  shows "mapReason E R c safe \<noteq> InternalError e"
  using assms
  by (auto simp: mapReason_def builtinTitleForReasonOK_def Let_def simp del: set_simps
      split: option.splits)

text \<open>The registry's invariant: every spec carries a real HTTP status.\<close>

definition registry_ok :: "registry \<Rightarrow> bool" where
  "registry_ok R \<longleftrightarrow> (\<forall>k spec. R k = Some spec \<longrightarrow> 100 \<le> rStatus spec \<and> rStatus spec \<le> 599)"

lemma registry_ok_reset [simp]: "registry_ok (resetRegistry R)"
  by (simp add: registry_ok_def resetRegistry_def)

lemma registry_ok_RegisterReason:
  "registry_ok R \<Longrightarrow> RegisterReason U R reason spec opts = Inr R' \<Longrightarrow> registry_ok R'"
  by (auto simp: RegisterReason_def registry_ok_def Let_def split: if_splits)

lemma registry_okD:
  "registry_ok R \<Longrightarrow> lookupReason U R reason = Some spec \<Longrightarrow> 100 \<le> rStatus spec \<and> rStatus spec \<le> 599"
  unfolding registry_ok_def lookupReason_def by blast

text \<open>Whether a call's options allow it to shadow a built-in reason.\<close>

definition overrides :: "register_option list \<Rightarrow> bool" where
  "overrides opts \<longleftrightarrow> allowBuiltinOverride (fold (\<lambda>opt. opt) opts \<lparr>allowBuiltinOverride = False\<rparr>)"

lemma overrides_simps [simp]:
  "\<not> overrides []"
  "overrides [AllowBuiltinOverride]"
  by (simp_all add: overrides_def AllowBuiltinOverride_def)

lemma RegisterReason_Inr_iff:
  "RegisterReason U R reason spec opts = Inr R' \<longleftrightarrow>
     100 \<le> rStatus spec \<and> rStatus spec \<le> 599 \<and>
     (builtinTitleForReasonOK U reason = None \<or> overrides opts) \<and>
     R' = R(normalize_reason U reason \<mapsto> spec)"
  by (auto simp: RegisterReason_def Let_def overrides_def)

lemma builtinTitle_cong:
  "normalize_reason U r = normalize_reason U r' \<Longrightarrow>
   builtinTitleForReasonOK U r = builtinTitleForReasonOK U r'"
  by (simp add: builtinTitleForReasonOK_def)

text \<open>
  A program's registrations, in order: a call that panics leaves the registry as it was.
  \<open>ov\<close> says whether some call so far was allowed to shadow a built-in reason.
\<close>

inductive registered :: "'a unicode_tables_scheme \<Rightarrow> bool \<Rightarrow> registry \<Rightarrow> bool"
  for U :: "'a unicode_tables_scheme" where
  start: "registered U False Map.empty"
| register: "registered U ov R \<Longrightarrow> RegisterReason U R reason spec opts = Inr R' \<Longrightarrow>
     registered U (ov \<or> overrides opts) R'"
| panic: "registered U ov R \<Longrightarrow> RegisterReason U R reason spec opts = Inl m \<Longrightarrow>
     registered U ov R"
| reset: "registered U ov R \<Longrightarrow> registered U ov (resetRegistry R)"

lemma registered_ok: "registered U ov R \<Longrightarrow> registry_ok R"
proof (induction rule: registered.induct)
  case start
  then show ?case by (simp add: registry_ok_def)
qed (auto intro: registry_ok_RegisterReason)

lemma registered_no_shadow:
  "registered U ov R \<Longrightarrow> \<not> ov \<Longrightarrow> builtinTitleForReasonOK U r \<noteq> None \<Longrightarrow> lookupReason U R r = None"
proof (induction rule: registered.induct)
  case start
  then show ?case by (simp add: lookupReason_def)
next
  case (register ov R reason spec opts R')
  then have R': "R' = R(normalize_reason U reason \<mapsto> spec)"
    and b: "builtinTitleForReasonOK U reason = None" and o: "lookupReason U R r = None"
    by (auto simp: RegisterReason_Inr_iff)
  have "normalize_reason U r \<noteq> normalize_reason U reason"
    using b register.prems(2) builtinTitle_cong by metis
  with o show ?case unfolding R' lookupReason_update by simp
next
  case (reset ov R)
  then show ?case by (simp add: lookupReason_def resetRegistry_def)
qed

subsection \<open>Properties\<close>

text \<open>
  The two switches of the taxonomy, the one that picks an error and the one that picks a
  title, agree: for a reason that is not registered, the error's HTTP status is the one the
  taxonomy documents for the reason's built-in title (404, 403, 401, 409, 410 or 400), and
  500 when the reason has no built-in title. (The statuses of the framework's own error
  types are the ones the framework documents.)
\<close>

theorem mapReason_table:
  assumes "lookupReason E R (cReason c) = None" and "fw_statuses E"
  shows "mStatusCode (methods_of E H (mapReason E R c safe)) = Some
     (case builtinTitleForReasonOK E (cReason c) of Some t \<Rightarrow> title_status t | None \<Rightarrow> 500)"
  using assms by (rule mapReason_builtin_status)

text \<open>
  C32. A registration takes effect for exactly the spellings of its reason: once
  \<open>RegisterReason\<close> returns, every code whose reason normalizes like the registered one maps
  to an error with the registered status, that code, and the registered title (or the safe
  message) as its message, even where the reason is a built-in one; every other code maps
  as before.
\<close>

theorem RegisterReason_effect:
  assumes "RegisterReason E R reason spec opts = Inr R'"
  shows "mapReason E R' c safe =
    (if normalize_reason E (cReason c) = normalize_reason E reason
     then RegisteredError (code_text c) (rStatus spec) (resource (rTitle spec) safe)
     else mapReason E R c safe)"
proof -
  from assms have "R' = R(normalize_reason E reason \<mapsto> spec)" by (simp add: RegisterReason_Inr_iff)
  then have l: "lookupReason E R' (cReason c) =
      (if normalize_reason E (cReason c) = normalize_reason E reason then Some spec
       else lookupReason E R (cReason c))"
    by (simp only: lookupReason_update)
  show ?thesis
    unfolding mapReason_def [of E R'] mapReason_def [of E R] l by simp
qed

text \<open>
  C31. Whatever sequence of registrations a program makes, panicking ones and resets included,
  every registered reason carries a status from 100 to 599; and if no call passed
  \<open>AllowBuiltinOverride\<close>, every built-in reason still has its built-in meaning.
\<close>

theorem registry_invariant:
  assumes "registered U ov R"
  shows "(\<forall>r spec. lookupReason U R r = Some spec \<longrightarrow> 100 \<le> rStatus spec \<and> rStatus spec \<le> 599) \<and>
    (\<not> ov \<longrightarrow> (\<forall>r. builtinTitleForReasonOK U r \<noteq> None \<longrightarrow> lookupReason U R r = None))"
  using registered_ok [OF assms] registered_no_shadow [OF assms] registry_okD by metis

text \<open>
  C20. A value that is not a result code, and a code whose reason is neither registered nor
  built in, become an internal error: HTTP 500 with one fixed safe message that does not
  depend on the value, so nothing of a raw database error reaches a client; the raw value
  stays in the log-side text.
\<close>

theorem FromResultCode_no_leak:
  assumes "case ParseCode s of None \<Rightarrow> True | Some c \<Rightarrow>
     lookupReason E R (cReason c) = None \<and> builtinTitleForReasonOK E (cReason c) = None"
  shows "let m = methods_of E H (FromResultCode E R s safeMsg) in
    mStatusCode m = Some 500 \<and> mSafeError m = Some ''internal server error'' \<and>
    mErrorCode m = None \<and>
    mError m = (case ParseCode s of None \<Rightarrow> s | Some c \<Rightarrow> trim_space s)"
proof (cases "ParseCode s")
  case None
  then show ?thesis
    by (simp add: FromResultCode_def plain_methods_def InternalError_SafeError_def)
next
  case (Some c)
  with assms have "mapReason E R c (msg safeMsg) = InternalError (Some (ErrString (code_text c)))"
    by (intro mapReason_internal) auto
  with Some show ?thesis
    using ParseCode_SomeD [OF Some]
    by (simp add: FromResultCode_def plain_methods_def InternalError_SafeError_def)
qed

subsection \<open>Witnesses\<close>

text \<open>
  An environment in which the framework's errors have the statuses it documents and the
  Unicode tables map every code point above 127 to itself; the witnesses run in it.
\<close>

definition sample_env :: error_env where
  "sample_env = \<lparr>uni_lower = (\<lambda>r. r), uni_print = (\<lambda>r. True),
     fw_methods = (\<lambda>f. case f of
         NotFoundError r \<Rightarrow> (plain_methods (r @ '' not found''))
           \<lparr>mStatusCode := Some 404, mSafeError := Some (r @ '' not found'')\<rparr>
       | ForbiddenError \<Rightarrow> (plain_methods ''forbidden'')
           \<lparr>mStatusCode := Some 403, mSafeError := Some ''forbidden''\<rparr>
       | UnauthorizedError \<Rightarrow> (plain_methods ''unauthorized'')
           \<lparr>mStatusCode := Some 401, mSafeError := Some ''unauthorized''\<rparr>
       | BadRequestError d \<Rightarrow> (plain_methods d)\<lparr>mStatusCode := Some 400, mSafeError := Some d\<rparr>
       | ParamRequiredError n \<Rightarrow> (plain_methods n)\<lparr>mStatusCode := Some 400, mSafeError := Some n\<rparr>)\<rparr>"

lemma fw_statuses_sample [simp]: "fw_statuses sample_env"
  by (simp add: fw_statuses_def sample_env_def)

definition sample_registry :: registry where
  "sample_registry = [''proofinvalid'' \<mapsto> \<lparr>rStatus = 400, rTitle = ''Invalid proof''\<rparr>]"

lemma mapReason_table_witness:
  "mStatusCode (methods_of sample_env Map.empty
     (mapReason sample_env sample_registry \<lparr>cDomain = ''document'', cReason = ''not_Found''\<rparr> []))
   = Some 404"
proof -
  have "lookupReason sample_env sample_registry
      (cReason \<lparr>cDomain = ''document'', cReason = ''not_Found''\<rparr>) = None"
    by code_simp
  from mapReason_table [OF this fw_statuses_sample] show ?thesis
    by (simp add: title_status_def) code_simp
qed

lemma RegisterReason_effect_witness:
  "\<exists>R'. RegisterReason sample_env Map.empty ''proofInvalid''
        \<lparr>rStatus = 400, rTitle = ''Invalid proof''\<rparr> [] = Inr R' \<and>
      mapReason sample_env R' \<lparr>cDomain = ''credential'', cReason = ''PROOF-invalid''\<rparr> [] =
        RegisteredError ''err:credential:PROOF-invalid'' 400 ''Invalid proof''"
proof -
  let ?r = "''proofInvalid''" and ?spec = "\<lparr>rStatus = 400, rTitle = ''Invalid proof''\<rparr>"
  have "builtinTitleForReasonOK sample_env ?r = None" by code_simp
  then obtain R' where R': "RegisterReason sample_env Map.empty ?r ?spec [] = Inr R'"
    by (simp add: RegisterReason_def)
  have "normalize_reason sample_env ''PROOF-invalid'' = normalize_reason sample_env ?r"
    by code_simp
  with RegisterReason_effect [OF R', of "\<lparr>cDomain = ''credential'', cReason = ''PROOF-invalid''\<rparr>" "[]"]
  show ?thesis using R' by (simp add: code_text_def Prefix_def resource_def)
qed

lemma registry_invariant_witness:
  "lookupReason sample_env (Map.empty(normalize_reason sample_env ''proofInvalid'' \<mapsto>
     \<lparr>rStatus = 400, rTitle = ''Invalid proof''\<rparr>)) ''notFound'' = None"
proof -
  let ?R = "Map.empty(normalize_reason sample_env ''proofInvalid'' \<mapsto>
     \<lparr>rStatus = 400, rTitle = ''Invalid proof''\<rparr>) :: registry"
  have "builtinTitleForReasonOK sample_env ''proofInvalid'' = None" by code_simp
  then have "RegisterReason sample_env Map.empty ''proofInvalid''
      \<lparr>rStatus = 400, rTitle = ''Invalid proof''\<rparr> [] = Inr ?R"
    by (simp add: RegisterReason_Inr_iff)
  from registered.register [OF registered.start this] have reg: "registered sample_env False ?R"
    by simp
  have "builtinTitleForReasonOK sample_env ''notFound'' \<noteq> None" by code_simp
  with registry_invariant [OF reg] show ?thesis by simp
qed

lemma FromResultCode_no_leak_witness:
  "mSafeError (methods_of sample_env Map.empty
     (FromResultCode sample_env sample_registry ''pq: duplicate key'' [])) = Some ''internal server error''"
proof -
  have n: "ParseCode ''pq: duplicate key'' = None" by code_simp
  then show ?thesis
    using FromResultCode_no_leak [where s = "''pq: duplicate key''" and E = sample_env
        and R = sample_registry and H = Map.empty and safeMsg = "[]"]
    by (simp add: Let_def)
qed

end
