(* ===== verification/Problem_Envelope.thy ===== *)
theory Problem_Envelope
  imports Error_Taxonomy
begin

text \<open>
  \<open>errors/problem.go\<close>: building a \<open>Problem\<close> from a code, its public projection, and relaying
  a downstream problem with a bounded chain of hops. (Its JSON form and \<open>ParseProblem\<close> are in
  \<open>Problem_Wire\<close>.)
\<close>

definition MaxChainHops :: nat where
  "MaxChainHops = 8"

subsection \<open>Titles, codes and statuses\<close>

definition statusForCode :: "'a error_env_scheme \<Rightarrow> registry \<Rightarrow> string \<Rightarrow> int" where
  "statusForCode E R s =
     (case mStatusCode (methods_of E Map.empty (FromResultCode E R s [])) of
        Some sc \<Rightarrow> sc
      | None \<Rightarrow> 500)"

definition titleForReasonOK ::
  "'a unicode_tables_scheme \<Rightarrow> registry \<Rightarrow> string \<Rightarrow> string option" where
  "titleForReasonOK U R reason = (case lookupReason U R reason of
      Some spec \<Rightarrow> Some (rTitle spec)
    | None \<Rightarrow> (case builtinTitleForReasonOK U reason of
        Some title \<Rightarrow> Some title
      | None \<Rightarrow> None))"

definition titleForCodeOK ::
  "'a unicode_tables_scheme \<Rightarrow> registry \<Rightarrow> string \<Rightarrow> string option" where
  "titleForCodeOK U R s = (case ParseCode s of
      None \<Rightarrow> None
    | Some c \<Rightarrow> titleForReasonOK U R (cReason c))"

definition titleForStatus :: "int \<Rightarrow> string" where
  "titleForStatus status =
     (if status = 400 then ''Bad request''
      else if status = 401 then ''Unauthorized''
      else if status = 403 then ''Forbidden''
      else if status = 404 then ''Not found''
      else if status = 409 then ''Conflict''
      else if status = 410 then ''No longer available''
      else if status = 413 then ''Payload too large''
      else if status = 415 then ''Unsupported media type''
      else if status = 422 then ''Unprocessable entity''
      else if status = 429 then ''Too many requests''
      else if status = 501 then ''Not implemented''
      else if status = 502 then ''Upstream unavailable''
      else if status = 503 then ''Service unavailable''
      else if status = 504 then ''Upstream timeout''
      else ''Internal server error'')"

definition genericCodeForStatus :: "int \<Rightarrow> string" where
  "genericCodeForStatus status =
     (if status = 400 then ''err:request:invalid''
      else if status = 401 then ''err:request:unauthorized''
      else if status = 403 then ''err:request:forbidden''
      else if status = 404 then ''err:request:notFound''
      else if status = 409 then ''err:request:conflict''
      else if status = 410 then ''err:request:gone''
      else if status = 413 then ''err:request:payloadTooLarge''
      else if status = 415 then ''err:request:unsupportedMediaType''
      else if status = 422 then ''err:request:unprocessable''
      else if status = 429 then ''err:request:rateLimited''
      else if status = 501 then ''err:internal:notImplemented''
      else if status = 502 \<or> status = 503 \<or> status = 504 then ''err:upstream:unavailable''
      else ''err:internal:unexpected'')"

lemma titleForStatus_not_Nil [simp]: "titleForStatus s \<noteq> []"
  by (simp add: titleForStatus_def)

lemma genericCodeForStatus_not_Nil [simp]: "genericCodeForStatus s \<noteq> []"
  by (simp add: genericCodeForStatus_def)

subsection \<open>Construction\<close>

type_synonym problem_option = "problem \<Rightarrow> problem"

definition WithDetail :: "string \<Rightarrow> problem_option" where
  "WithDetail detail p = p\<lparr>pDetail := detail\<rparr>"

definition WithPublicDetail :: "string \<Rightarrow> problem_option" where
  "WithPublicDetail detail p = p\<lparr>pDetail := detail, detailPublic := True\<rparr>"

definition WithStatus :: "int \<Rightarrow> problem_option" where
  "WithStatus status p = p\<lparr>pStatus := status\<rparr>"

definition WithTitle :: "string \<Rightarrow> problem_option" where
  "WithTitle title p = p\<lparr>pTitle := title\<rparr>"

definition WithSource :: "string \<Rightarrow> problem_option" where
  "WithSource source p = p\<lparr>pSource := source\<rparr>"

definition WithType :: "string \<Rightarrow> problem_option" where
  "WithType typeURI p = p\<lparr>pType := typeURI\<rparr>"

lemmas option_defs = WithDetail_def WithPublicDetail_def WithStatus_def WithTitle_def
  WithSource_def WithType_def

definition NewProblem ::
  "'a error_env_scheme \<Rightarrow> registry \<Rightarrow> string \<Rightarrow> problem_option list \<Rightarrow> problem" where
  "NewProblem E R code opts =
     (let p = zero_problem\<lparr>pCode := code, pStatus := statusForCode E R code\<rparr>;
          p = (case titleForCodeOK E R code of Some title \<Rightarrow> p\<lparr>pTitle := title\<rparr> | None \<Rightarrow> p);
          p = fold (\<lambda>opt. opt) opts p;
          p = (if pStatus p = 0 then p\<lparr>pStatus := 500\<rparr> else p);
          p = (if pTitle p = [] then p\<lparr>pTitle := titleForStatus (pStatus p)\<rparr> else p)
      in p)"

subsection \<open>The public projection\<close>

record public_problem =
  ppType :: string
  ppTitle :: string
  ppStatus :: int
  ppDetail :: string
  ppCode :: string
  ppTraceID :: string

definition Public :: "problem \<Rightarrow> public_problem" where
  "Public p =
     (let pp = \<lparr>ppType = pType p, ppTitle = pTitle p, ppStatus = pStatus p, ppDetail = [],
               ppCode = pCode p, ppTraceID = pTraceID p\<rparr>
      in if detailPublic p then pp\<lparr>ppDetail := pDetail p\<rparr> else pp)"

subsection \<open>Relaying\<close>

definition real_hop :: "string \<Rightarrow> string \<Rightarrow> int \<Rightarrow> hop" where
  "real_hop service code status =
     \<lparr>hService = service, hCode = code, hStatus = status, hElided = 0\<rparr>"

definition elided_marker :: "nat \<Rightarrow> hop" where
  "elided_marker n = \<lparr>hService = [], hCode = [], hStatus = 0, hElided = int n\<rparr>"

definition boundChain :: "hop list \<Rightarrow> hop list" where
  "boundChain chain =
     (if length chain \<le> MaxChainHops then chain
      else
        let tail = MaxChainHops - 2;
            elided = length chain - 1 - tail
        in [chain ! 0] @ [elided_marker elided] @ drop (length chain - tail) chain)"

definition Relay ::
  "'a error_env_scheme \<Rightarrow> registry \<Rightarrow> problem option \<Rightarrow> string \<Rightarrow> int \<Rightarrow> problem" where
  "Relay E R down service outerStatus = (case down of
      None \<Rightarrow> NewProblem E R ''err:upstream:unavailable''
                [WithStatus outerStatus, WithSource service]
    | Some d \<Rightarrow>
        let p = d\<lparr>pStatus := outerStatus\<rparr>;
            chain = pChain d;
            chain = (if length chain = 0 then [real_hop (pSource d) (pCode d) (pStatus d)]
                     else chain);
            chain = chain @ [real_hop service (pCode d) outerStatus]
        in p\<lparr>pChain := boundChain chain\<rparr>)"

text \<open>The chain a problem stands for: the one it carries, or its origin alone.\<close>

definition origin_chain :: "problem \<Rightarrow> hop list" where
  "origin_chain d = (if pChain d = [] then [real_hop (pSource d) (pCode d) (pStatus d)] else pChain d)"

lemma Relay_Some [kit_simps]:
  "Relay E R (Some d) service st =
     d\<lparr>pStatus := st, pChain := boundChain (origin_chain d @ [real_hop service (pCode d) st])\<rparr>"
  by (simp add: Relay_def origin_chain_def Let_def)

lemma origin_chain_not_Nil [simp]: "origin_chain d \<noteq> []"
  by (simp add: origin_chain_def)

lemma length_boundChain: "length (boundChain chain) = min (length chain) MaxChainHops"
  by (auto simp: boundChain_def MaxChainHops_def Let_def)

lemma boundChain_short: "length chain \<le> MaxChainHops \<Longrightarrow> boundChain chain = chain"
  by (simp add: boundChain_def)

lemma boundChain_not_Nil_iff [simp]: "boundChain chain = [] \<longleftrightarrow> chain = []"
  by (auto simp: boundChain_def MaxChainHops_def Let_def)

lemma hd_boundChain: "chain \<noteq> [] \<Longrightarrow> hd (boundChain chain) = hd chain"
  by (cases chain) (auto simp: boundChain_def MaxChainHops_def Let_def)

lemma drop_boundChain:
  "MaxChainHops < length chain \<Longrightarrow> drop 2 (boundChain chain) = drop (length chain - 6) chain"
  by (simp add: boundChain_def MaxChainHops_def Let_def)

text \<open>The most recent hops survive: the last six of the bound chain are the last six.\<close>

lemma recent_boundChain:
  "k \<le> 6 \<Longrightarrow> drop (length (boundChain chain) - k) (boundChain chain) = drop (length chain - k) chain"
proof (cases "length chain \<le> MaxChainHops")
  case False
  assume "k \<le> 6"
  with False have "length (boundChain chain) - k = 2 + (6 - k)"
    by (simp add: length_boundChain MaxChainHops_def)
  then have "drop (length (boundChain chain) - k) (boundChain chain) =
      drop (6 - k) (drop 2 (boundChain chain))"
    by simp
  also have "\<dots> = drop (6 - k) (drop (length chain - 6) chain)"
    using False by (simp add: drop_boundChain del: drop_drop)
  also have "\<dots> = drop (length chain - k) chain"
    using False \<open>k \<le> 6\<close> by (simp add: MaxChainHops_def)
  finally show ?thesis .
qed (simp add: boundChain_short)

subsection \<open>A path of relays\<close>

text \<open>
  A problem relayed by one service after another; \<open>full_chain\<close> is the breadcrumb without
  any bound.
\<close>

definition relay_path ::
  "'a error_env_scheme \<Rightarrow> registry \<Rightarrow> problem \<Rightarrow> (string \<times> int) list \<Rightarrow> problem" where
  "relay_path E R d path = foldl (\<lambda>p (service, st). Relay E R (Some p) service st) d path"

definition full_chain :: "problem \<Rightarrow> (string \<times> int) list \<Rightarrow> hop list" where
  "full_chain d path = origin_chain d @ map (\<lambda>(service, st). real_hop service (pCode d) st) path"

lemma relay_path_snoc:
  "relay_path E R d (path @ [(service, st)]) = Relay E R (Some (relay_path E R d path)) service st"
  by (simp add: relay_path_def)

lemma relay_path_terminal:
  "let p = relay_path E R d path in
     pType p = pType d \<and> pTitle p = pTitle d \<and> pDetail p = pDetail d \<and> pCode p = pCode d \<and>
     pSource p = pSource d \<and> pTraceID p = pTraceID d \<and> detailPublic p = detailPublic d \<and>
     pStatus p = (if path = [] then pStatus d else snd (last path))"
proof (induction path rule: rev_induct)
  case (snoc x xs)
  then show ?case by (cases x) (auto simp: relay_path_snoc Relay_Some Let_def)
qed (simp add: relay_path_def)

lemma relay_path_code [simp]: "pCode (relay_path E R d path) = pCode d"
  using relay_path_terminal [of E R d path] by (simp add: Let_def)

lemma relay_path_chain_not_Nil: "path \<noteq> [] \<Longrightarrow> pChain (relay_path E R d path) \<noteq> []"
  by (cases path rule: rev_cases) (auto simp: relay_path_snoc Relay_Some)

lemma origin_chain_relay_path:
  "origin_chain (relay_path E R d path) =
     (if path = [] then origin_chain d else pChain (relay_path E R d path))"
  using relay_path_chain_not_Nil [of path E R d]
  by (auto simp: origin_chain_def relay_path_def)

lemma pChain_relay_snoc:
  "pChain (relay_path E R d (path @ [(service, st)])) =
     boundChain (origin_chain (relay_path E R d path) @ [real_hop service (pCode d) st])"
  by (simp add: relay_path_snoc Relay_Some)

lemma relay_path_recent:
  "path \<noteq> [] \<Longrightarrow> k \<le> 6 \<Longrightarrow> k \<le> length path \<Longrightarrow>
   drop (length (pChain (relay_path E R d path)) - k) (pChain (relay_path E R d path)) =
   drop (length path - k) (map (\<lambda>(service, st). real_hop service (pCode d) st) path)"
proof (induction path arbitrary: k rule: rev_induct)
  case (snoc x xs)
  obtain service st where x: "x = (service, st)" by fastforce
  let ?oc = "origin_chain (relay_path E R d xs)"
  have "drop (length (pChain (relay_path E R d (xs @ [x]))) - k) (pChain (relay_path E R d (xs @ [x])))
      = drop (Suc (length ?oc) - k) (?oc @ [real_hop service (pCode d) st])"
    using recent_boundChain [OF snoc.prems(2), of "?oc @ [real_hop service (pCode d) st]"]
    by (simp add: x pChain_relay_snoc)
  also have "\<dots> = drop (length (xs @ [x]) - k) (map (\<lambda>(service, st). real_hop service (pCode d) st) (xs @ [x]))"
  proof (cases k)
    case 0
    then show ?thesis by simp
  next
    case (Suc j)
    show ?thesis
    proof (cases "xs = []")
      case True
      with Suc snoc.prems show ?thesis by (simp add: x)
    next
      case False
      with snoc.prems Suc have j: "j \<le> 6" "j \<le> length xs" by simp_all
      have "drop (length ?oc - j) ?oc = drop (length xs - j) (map (\<lambda>(service, st). real_hop service (pCode d) st) xs)"
        using snoc.IH [OF False j] False by (simp add: origin_chain_relay_path)
      moreover have "Suc (length ?oc) - k = length ?oc - j" "length (xs @ [x]) - k = length xs - j"
        using Suc by simp_all
      ultimately show ?thesis by (simp add: x)
    qed
  qed
  finally show ?case .
qed simp

lemma hd_relay_path: "path \<noteq> [] \<Longrightarrow> hd (pChain (relay_path E R d path)) = hd (origin_chain d)"
proof (induction path rule: rev_induct)
  case (snoc x xs)
  then show ?case
    by (cases x) (simp add: pChain_relay_snoc hd_boundChain origin_chain_relay_path
        relay_path_chain_not_Nil)
qed simp

lemma length_relay_path: "path \<noteq> [] \<Longrightarrow> length (pChain (relay_path E R d path)) \<le> MaxChainHops"
  by (cases path rule: rev_cases) (auto simp: pChain_relay_snoc length_boundChain)

text \<open>
  What the chain holds after a path of relays from a problem whose own chain is within the
  bound: everything while it fits, then the root, one marker, and the last six hops. The
  marker of a chain that was cut before is itself cut away and counted as one hop.
\<close>

definition cut_chain :: "hop list \<Rightarrow> hop list" where
  "cut_chain full =
     (if length full \<le> MaxChainHops then full
      else hd full # elided_marker 2 # drop (length full - 6) full)"

lemma boundChain_cut_step:
  "full \<noteq> [] \<Longrightarrow> boundChain (cut_chain full @ [h]) = cut_chain (full @ [h])"
proof (cases "MaxChainHops < length full")
  case True
  let ?c = "cut_chain full"
  have len: "length ?c = 8" using True by (simp add: cut_chain_def MaxChainHops_def)
  have "drop 2 ?c = drop (length full - 6) full"
    using True by (simp add: cut_chain_def)
  moreover have "Suc (length full - 6) = length full - 5" using True by (simp add: MaxChainHops_def)
  ultimately have "drop 3 ?c = drop (length full - 5) full"
    using True by (simp add: cut_chain_def numeral_3_eq_3)
  then have d3: "drop 3 (?c @ [h]) = drop (length full - 5) (full @ [h])"
    using len True by (simp add: MaxChainHops_def)
  have "?c ! 0 = hd full" using True by (simp add: cut_chain_def)
  with True len d3 show ?thesis
    by (simp add: boundChain_def MaxChainHops_def cut_chain_def [of "full @ [h]"] nth_append hd_append)
       (auto simp: Suc_diff_le)
next
  case False
  assume ne: "full \<noteq> []"
  show ?thesis
  proof (cases "length full = 8")
    case True
    with ne show ?thesis by (cases full) (simp_all add: boundChain_def MaxChainHops_def cut_chain_def)
  next
    case False
    with \<open>\<not> MaxChainHops < length full\<close> show ?thesis
      by (simp add: boundChain_def MaxChainHops_def cut_chain_def)
  qed
qed

lemma relay_path_cut:
  "length (origin_chain d) \<le> MaxChainHops \<Longrightarrow>
   origin_chain (relay_path E R d path) = cut_chain (full_chain d path)"
proof (induction path rule: rev_induct)
  case Nil
  then show ?case by (simp add: origin_chain_relay_path full_chain_def cut_chain_def)
next
  case (snoc x xs)
  obtain service st where x: "x = (service, st)" by fastforce
  have "full_chain d xs \<noteq> []" by (simp add: full_chain_def)
  from boundChain_cut_step [OF this, of "real_hop service (pCode d) st"] snoc
  show ?case
    by (simp add: x origin_chain_relay_path [of E R d "xs @ [(service, st)]"] pChain_relay_snoc)
       (simp add: full_chain_def)
qed

subsection \<open>Facts about construction\<close>

lemma mapReason_status_safe:
  "mStatusCode (methods_of E H (mapReason E R c safe)) =
     (case lookupReason E R (cReason c) of
        Some spec \<Rightarrow> Some (rStatus spec)
      | None \<Rightarrow> mStatusCode (methods_of E H (mapReason E R c safe)))"
  by (auto simp: mapReason_registered split: option.splits)

lemma status_FromResultCode:
  assumes "fw_statuses E"
  shows "mStatusCode (methods_of E H (FromResultCode E R s safeMsg)) = Some
     (case ParseCode s of None \<Rightarrow> 500
      | Some c \<Rightarrow> (case lookupReason E R (cReason c) of Some spec \<Rightarrow> rStatus spec
        | None \<Rightarrow> (case builtinTitleForReasonOK E (cReason c) of
            Some t \<Rightarrow> title_status t | None \<Rightarrow> 500)))"
  using assms mapReason_builtin_status [of E R _ H]
  by (auto simp: FromResultCode_def mapReason_registered split: option.splits)

lemma statusForCode_eq:
  "fw_statuses E \<Longrightarrow> statusForCode E R s =
     (case ParseCode s of None \<Rightarrow> 500
      | Some c \<Rightarrow> (case lookupReason E R (cReason c) of Some spec \<Rightarrow> rStatus spec
        | None \<Rightarrow> (case builtinTitleForReasonOK E (cReason c) of
            Some t \<Rightarrow> title_status t | None \<Rightarrow> 500)))"
  by (simp add: statusForCode_def status_FromResultCode)

lemma title_status_range: "100 \<le> title_status t \<and> title_status t \<le> 599"
  by (simp add: title_status_def)

lemma statusForCode_range:
  assumes "fw_statuses E" and "registry_ok R"
  shows "100 \<le> statusForCode E R s \<and> statusForCode E R s \<le> 599"
  using assms title_status_range registry_okD [OF assms(2)]
  by (auto simp: statusForCode_eq split: option.splits)

lemma titleForCodeOK_None:
  "fw_statuses E \<Longrightarrow> titleForCodeOK E R s = None \<Longrightarrow> statusForCode E R s = 500"
  by (auto simp: statusForCode_eq titleForCodeOK_def titleForReasonOK_def split: option.splits)

lemma NewProblem_complete:
  "pStatus (NewProblem E R s opts) \<noteq> 0 \<and> pTitle (NewProblem E R s opts) \<noteq> []"
  by (simp add: NewProblem_def Let_def)

lemma NewProblem_plain:
  assumes "statusForCode E R s \<noteq> 0"
  shows "NewProblem E R s [] = zero_problem\<lparr>pCode := s, pStatus := statusForCode E R s,
     pTitle := (case titleForCodeOK E R s of
         Some t \<Rightarrow> if t = [] then titleForStatus (statusForCode E R s) else t
       | None \<Rightarrow> titleForStatus (statusForCode E R s))\<rparr>"
  using assms by (simp add: NewProblem_def Let_def zero_problem_def split: option.splits)

text \<open>The same with a status that was passed in.\<close>

lemma NewProblem_WithStatus:
  assumes "st \<noteq> 0"
  shows "NewProblem E R s [WithStatus st] = zero_problem\<lparr>pCode := s, pStatus := st,
     pTitle := (case titleForCodeOK E R s of
         Some t \<Rightarrow> if t = [] then titleForStatus st else t
       | None \<Rightarrow> titleForStatus st)\<rparr>"
  using assms
  by (simp add: NewProblem_def Let_def zero_problem_def WithStatus_def split: option.splits)

subsection \<open>Properties\<close>

text \<open>
  The three entry points derive one status: the status \<open>NewProblem\<close> puts into a problem
  is the HTTP status of the error \<open>FromResultCode\<close> returns for the same code (and \<open>HTTP\<close>
  for its parts), whatever safe message is passed. The title is the taxonomy's, or follows
  the status where the taxonomy has none or an empty one. Whatever options are applied, the
  problem has a status and a title.
\<close>

theorem NewProblem_agrees:
  assumes "fw_statuses E" and "registry_ok R"
  shows "Some (pStatus (NewProblem E R s [])) = mStatusCode (methods_of E H (FromResultCode E R s safeMsg))
    \<and> (case ParseCode s of None \<Rightarrow> pStatus (NewProblem E R s []) = 500
       | Some c \<Rightarrow> Some (pStatus (NewProblem E R s [])) =
           mStatusCode (methods_of E H (HTTP E R (cDomain c) (cReason c) safeMsg)))
    \<and> pCode (NewProblem E R s []) = s
    \<and> pTitle (NewProblem E R s []) = (case titleForCodeOK E R s of
         Some t \<Rightarrow> if t = [] then titleForStatus (pStatus (NewProblem E R s [])) else t
       | None \<Rightarrow> ''Internal server error'')
    \<and> pStatus (NewProblem E R s opts) \<noteq> 0 \<and> pTitle (NewProblem E R s opts) \<noteq> []"
proof -
  have nz: "statusForCode E R s \<noteq> 0" using statusForCode_range [OF assms, of s] by linarith
  have st: "Some (statusForCode E R s) = mStatusCode (methods_of E H (FromResultCode E R s safeMsg))"
    by (simp add: statusForCode_eq status_FromResultCode assms(1))
  have http: "HTTP E R (cDomain c) (cReason c) safeMsg = FromResultCode E R s safeMsg"
    if "ParseCode s = Some c" for c
    using that by (cases c) (simp add: HTTP_def FromResultCode_def)
  have none: "ParseCode s = None \<Longrightarrow> statusForCode E R s = 500"
    using titleForCodeOK_None [OF assms(1)] by (simp add: titleForCodeOK_def)
  have np: "pStatus (NewProblem E R s []) = statusForCode E R s" "pCode (NewProblem E R s []) = s"
    by (simp_all add: NewProblem_plain [OF nz])
  have title: "pTitle (NewProblem E R s []) = (case titleForCodeOK E R s of
         Some t \<Rightarrow> if t = [] then titleForStatus (statusForCode E R s) else t
       | None \<Rightarrow> ''Internal server error'')"
    using titleForCodeOK_None [OF assms(1), of R s]
    by (simp add: NewProblem_plain [OF nz] titleForStatus_def split: option.split)
  show ?thesis
    using st http none NewProblem_complete [of E R s opts]
    unfolding np title by (auto split: option.split)
qed

lemma NewProblem_agrees_witness:
  "pStatus (NewProblem sample_env sample_registry ''err:credential:proof-invalid'' []) = 400 \<and>
   mStatusCode (methods_of sample_env Map.empty
     (FromResultCode sample_env sample_registry ''err:credential:proof-invalid'' [])) = Some 400"
proof -
  have r: "registry_ok sample_registry" by (simp add: registry_ok_def sample_registry_def)
  have "pStatus (NewProblem sample_env sample_registry ''err:credential:proof-invalid'' []) = 400"
    by code_simp
  then show ?thesis
    using NewProblem_agrees [OF fw_statuses_sample r, of "''err:credential:proof-invalid''"
        Map.empty "[]" "[]"]
    by simp
qed

text \<open>
  The public projection is blind to the internal topology: what a client at the public
  boundary receives does not depend on the source, on the chain of hops, or on a detail the
  emitter did not mark public-safe; everything else of the problem is passed on unchanged.
\<close>

theorem Public_noninterference:
  "Public (p\<lparr>pSource := src, pChain := ch, pDetail := (if detailPublic p then pDetail p else det)\<rparr>)
     = Public p
   \<and> ppType (Public p) = pType p \<and> ppTitle (Public p) = pTitle p \<and> ppStatus (Public p) = pStatus p
   \<and> ppCode (Public p) = pCode p \<and> ppTraceID (Public p) = pTraceID p
   \<and> ppDetail (Public p) = (if detailPublic p then pDetail p else [])"
  by (simp add: Public_def Let_def)

text \<open>
  C16. Relaying keeps the terminal attribution and stays bounded: after any number of hops the
  type, title, detail, code, source and trace id are the ones of the original problem, the
  status is the one the last service chose, the chain holds at most eight hops, its first is
  the root (the origin, seeded from the problem when it came without a chain), and its last
  hops, up to six, are the most recent relays in order.
\<close>

theorem Relay_path_preserves:
  assumes "path \<noteq> []"
  shows "let p = relay_path E R d path in
      pType p = pType d \<and> pTitle p = pTitle d \<and> pDetail p = pDetail d \<and> pCode p = pCode d \<and>
      pSource p = pSource d \<and> pTraceID p = pTraceID d \<and> detailPublic p = detailPublic d \<and>
      pStatus p = snd (last path) \<and>
      length (pChain p) \<le> MaxChainHops \<and> hd (pChain p) = hd (origin_chain d) \<and>
      (let k = min 6 (length path) in
         drop (length (pChain p) - k) (pChain p) =
         drop (length path - k) (map (\<lambda>(service, st). real_hop service (pCode d) st) path))"
  using assms relay_path_terminal [of E R d path] length_relay_path [OF assms, of E R d]
    hd_relay_path [OF assms, of E R d] relay_path_recent [OF assms, of "min 6 (length path)" E R d]
  by (simp add: Let_def)

definition sample_path :: "(string \<times> int) list" where
  "sample_path = map (\<lambda>i. (''svc'' @ [char_of (48 + i)], 502)) [0..<9 :: nat]"

lemma Relay_path_preserves_witness:
  "length (pChain (relay_path sample_env sample_registry
      (NewProblem sample_env sample_registry ''err:document:notFound'' [WithSource ''store''])
      sample_path)) \<le> 8"
proof -
  have "sample_path \<noteq> []" by (simp add: sample_path_def)
  from Relay_path_preserves [OF this, of sample_env sample_registry
      "NewProblem sample_env sample_registry ''err:document:notFound'' [WithSource ''store'']"]
  show ?thesis by (simp add: Let_def MaxChainHops_def)
qed

text \<open>
  C40. The marker of a bounded chain does not count the omitted hops: once relays have
  overflowed the bound, the chain is the root, a marker and the last six hops, and the
  marker says 2 however many hops are gone, because a marker that is cut away again counts
  as one hop. The hops actually left out number the whole breadcrumb's length minus seven.
\<close>

theorem elided_marker_saturates:
  assumes "length (origin_chain d) \<le> MaxChainHops" and "path \<noteq> []"
    and "MaxChainHops < length (full_chain d path)"
  shows "pChain (relay_path E R d path) =
      hd (full_chain d path) # elided_marker 2 #
        drop (length (full_chain d path) - 6) (full_chain d path)
    \<and> (\<exists>omitted. full_chain d path =
          hd (full_chain d path) # omitted @ drop (length (full_chain d path) - 6) (full_chain d path)
        \<and> length omitted = length (full_chain d path) - 7
        \<and> (length omitted = 2 \<longleftrightarrow> length (full_chain d path) = 9))"
proof -
  let ?f = "full_chain d path"
  have chain: "pChain (relay_path E R d path) = hd ?f # elided_marker 2 # drop (length ?f - 6) ?f"
    using relay_path_cut [OF assms(1), of E R path] assms(2,3)
    by (simp add: origin_chain_relay_path cut_chain_def)
  obtain h t where f: "?f = h # t" using assms(3) by (cases ?f) auto
  have "?f = hd ?f # take (length ?f - 7) t @ drop (length ?f - 6) ?f"
    using assms(3) by (simp add: f MaxChainHops_def Suc_diff_le drop_Cons' diff_diff_eq)
  moreover have "length (take (length ?f - 7) t) = length ?f - 7"
    using f by simp
  moreover have "length ?f - 7 = 2 \<longleftrightarrow> length ?f = 9" using assms(3) by (simp add: MaxChainHops_def) arith
  ultimately show ?thesis using chain by metis
qed

text \<open>Nine relays leave three hops out; the marker says two.\<close>

lemma elided_marker_saturates_witness:
  "let d = NewProblem sample_env sample_registry ''err:document:notFound'' [WithSource ''store''] in
   hElided (pChain (relay_path sample_env sample_registry d sample_path) ! 1) = 2 \<and>
   length (full_chain d sample_path) - 7 = 3"
proof -
  let ?d = "NewProblem sample_env sample_registry ''err:document:notFound'' [WithSource ''store'']"
  have "pChain ?d = []" by code_simp
  then have o1: "length (origin_chain ?d) = 1" by (simp add: origin_chain_def)
  then have l: "length (full_chain ?d sample_path) = 10"
    by (simp add: full_chain_def sample_path_def)
  have "sample_path \<noteq> []" by (simp add: sample_path_def)
  with elided_marker_saturates [of ?d sample_path sample_env sample_registry] o1 l
  show ?thesis by (simp add: MaxChainHops_def elided_marker_def)
qed

end
