(* ===== verification/Reason_Race.thy ===== *)
theory Reason_Race
  imports Problem_Envelope
begin

text \<open>
  Registering a reason while problems are being made. \<open>errors/errors.go\<close> guards the registry by a
  read-write lock that is held for one lookup or one registration; \<open>NewProblem\<close> looks the reason
  up twice, once for the status and once for the title. The two lookups are the atomic steps
  of a call here (\<open>NewProblem_status\<close>, \<open>NewProblem_title\<close>), and registrations of other goroutines
  may fall between them.
\<close>

definition NewProblem_status :: "'a error_env_scheme \<Rightarrow> registry \<Rightarrow> string \<Rightarrow> problem" where
  "NewProblem_status E R code = zero_problem\<lparr>pCode := code, pStatus := statusForCode E R code\<rparr>"

definition NewProblem_title ::
  "'a error_env_scheme \<Rightarrow> registry \<Rightarrow> string \<Rightarrow> problem_option list \<Rightarrow> problem \<Rightarrow> problem" where
  "NewProblem_title E R code opts p =
     (let p = (case titleForCodeOK E R code of Some title \<Rightarrow> p\<lparr>pTitle := title\<rparr> | None \<Rightarrow> p);
          p = fold (\<lambda>opt. opt) opts p;
          p = (if pStatus p = 0 then p\<lparr>pStatus := 500\<rparr> else p);
          p = (if pTitle p = [] then p\<lparr>pTitle := titleForStatus (pStatus p)\<rparr> else p)
      in p)"

lemma NewProblem_phases:
  "NewProblem E R code opts = NewProblem_title E R code opts (NewProblem_status E R code)"
  by (simp add: NewProblem_def NewProblem_title_def NewProblem_status_def Let_def)

text \<open>Each lookup sees the registry only through the entry of the code's reason.\<close>

lemma NewProblem_status_cong:
  assumes "ParseCode code = Some c" and "lookupReason E R (cReason c) = lookupReason E R' (cReason c)"
  shows "NewProblem_status E R code = NewProblem_status E R' code"
  using assms by (simp add: NewProblem_status_def statusForCode_def FromResultCode_def mapReason_def)

lemma NewProblem_title_cong:
  assumes "ParseCode code = Some c" and "lookupReason E R (cReason c) = lookupReason E R' (cReason c)"
  shows "NewProblem_title E R code opts p = NewProblem_title E R' code opts p"
  using assms by (simp add: NewProblem_title_def titleForCodeOK_def titleForReasonOK_def)

subsection \<open>Calls and registrations that interleave\<close>

text \<open>
  The registries the process has had, oldest first, the last being the current one; a call
  remembers at which of them it made its lookups. \<open>regs\<close> are the registrations that may be made,
  \<open>call\<close> the arguments of each call.
\<close>

datatype calling =
    Before
  | Between nat problem
  | Returned nat nat problem

record race =
  raPast :: "registry list"
  raCalls :: "nat \<Rightarrow> calling"

type_synonym registration = "string \<times> reason_spec \<times> register_option list"

inductive race_step ::
  "'a error_env_scheme \<Rightarrow> registration set \<Rightarrow> (nat \<Rightarrow> string \<times> problem_option list) \<Rightarrow> race \<Rightarrow> race \<Rightarrow> bool"
  for E :: "'a error_env_scheme" and regs :: "registration set" and call :: "nat \<Rightarrow> string \<times> problem_option list" where
  register: "(reason, spec, opts) \<in> regs \<Longrightarrow> RegisterReason E (last (raPast s)) reason spec opts = Inr R \<Longrightarrow>
     race_step E regs call s (s\<lparr>raPast := raPast s @ [R]\<rparr>)"
| first_lookup: "raCalls s g = Before \<Longrightarrow> race_step E regs call s (s\<lparr>raCalls := (raCalls s)(g :=
     Between (length (raPast s) - 1) (NewProblem_status E (last (raPast s)) (fst (call g))))\<rparr>)"
| second_lookup: "raCalls s g = Between i p \<Longrightarrow> race_step E regs call s (s\<lparr>raCalls := (raCalls s)(g :=
     Returned i (length (raPast s) - 1) (NewProblem_title E (last (raPast s)) (fst (call g)) (snd (call g)) p))\<rparr>)"

definition race_start :: "registry \<Rightarrow> race" where
  "race_start R = \<lparr>raPast = [R], raCalls = (\<lambda>g. Before)\<rparr>"

definition race_reachable ::
  "'a error_env_scheme \<Rightarrow> registration set \<Rightarrow> (nat \<Rightarrow> string \<times> problem_option list) \<Rightarrow> registry \<Rightarrow> race \<Rightarrow> bool" where
  "race_reachable E regs call R = (race_step E regs call)\<^sup>*\<^sup>* (race_start R)"

lemma race_reachable_step:
  "race_reachable E regs call R s \<Longrightarrow> race_step E regs call s s' \<Longrightarrow> race_reachable E regs call R s'"
  unfolding race_reachable_def by (rule rtranclp.rtrancl_into_rtrancl)

text \<open>A call is the two phases, each at a registry of the past, the second not before the first.\<close>

definition call_ok :: "'a error_env_scheme \<Rightarrow> string \<times> problem_option list \<Rightarrow> registry list \<Rightarrow> calling \<Rightarrow> bool" where
  "call_ok E arg past c = (case c of
      Before \<Rightarrow> True
    | Between i p \<Rightarrow> i < length past \<and> p = NewProblem_status E (past ! i) (fst arg)
    | Returned i j p \<Rightarrow> i \<le> j \<and> j < length past \<and>
        p = NewProblem_title E (past ! j) (fst arg) (snd arg) (NewProblem_status E (past ! i) (fst arg)))"

definition race_ok :: "'a error_env_scheme \<Rightarrow> (nat \<Rightarrow> string \<times> problem_option list) \<Rightarrow> registry \<Rightarrow> race \<Rightarrow> bool" where
  "race_ok E call R s \<longleftrightarrow> raPast s \<noteq> [] \<and> raPast s ! 0 = R \<and> (\<forall>g. call_ok E (call g) (raPast s) (raCalls s g))"

lemma call_ok_later: "call_ok E arg past c \<Longrightarrow> call_ok E arg (past @ [R]) c"
  by (auto simp: call_ok_def nth_append split: calling.splits)

lemma race_step_ok: "race_step E regs call s s' \<Longrightarrow> race_ok E call R s \<Longrightarrow> race_ok E call R s'"
proof (induction rule: race_step.induct)
  case (register reason spec opts s R')
  then show ?case by (auto simp: race_ok_def nth_append intro: call_ok_later)
next
  case (first_lookup s g)
  then show ?case by (auto simp: race_ok_def call_ok_def last_conv_nth)
next
  case (second_lookup s g i p)
  then have "call_ok E (call g) (raPast s) (Between i p)" by (metis race_ok_def)
  with second_lookup show ?case by (auto simp: race_ok_def call_ok_def last_conv_nth)
qed

lemma race_reachable_ok: "race_reachable E regs call R s \<Longrightarrow> race_ok E call R s"
  unfolding race_reachable_def
  by (induction rule: rtranclp_induct) (auto simp: race_ok_def race_start_def call_ok_def dest: race_step_ok)

text \<open>
  The entry of one reason over time, when every registration of it that is made carries \<open>spec\<close>:
  it stays as it is or becomes \<open>spec\<close>.
\<close>

definition entry_grows :: "'a error_env_scheme \<Rightarrow> string \<Rightarrow> reason_spec \<Rightarrow> registry list \<Rightarrow> bool" where
  "entry_grows E reason spec past \<longleftrightarrow> (\<forall>j < length past. \<forall>i \<le> j.
     lookupReason E (past ! j) reason = lookupReason E (past ! i) reason \<or>
     lookupReason E (past ! j) reason = Some spec)"

definition one_site :: "'a error_env_scheme \<Rightarrow> string \<Rightarrow> reason_spec \<Rightarrow> registration set \<Rightarrow> bool" where
  "one_site E reason spec regs \<longleftrightarrow>
     (\<forall>(r, s, opts) \<in> regs. normalize_reason E r = normalize_reason E reason \<longrightarrow> s = spec)"

lemma entry_grows_register:
  assumes "past \<noteq> []" and "entry_grows E reason spec past"
    and "lookupReason E R reason = lookupReason E (last past) reason \<or> lookupReason E R reason = Some spec"
  shows "entry_grows E reason spec (past @ [R])"
  unfolding entry_grows_def
proof (intro allI impI)
  fix i j
  assume j: "j < length (past @ [R])" and i: "i \<le> j"
  show "lookupReason E ((past @ [R]) ! j) reason = lookupReason E ((past @ [R]) ! i) reason \<or>
      lookupReason E ((past @ [R]) ! j) reason = Some spec"
  proof (cases "j < length past")
    case True
    with i assms(2) show ?thesis by (simp add: entry_grows_def nth_append)
  next
    case False
    with j have "j = length past" by simp
    moreover have "length past - 1 < length past" using assms(1) by (cases past) simp_all
    ultimately show ?thesis
      using assms(2,3) i unfolding entry_grows_def last_conv_nth [OF assms(1)]
      by (cases "i = length past") (auto simp: nth_append)
  qed
qed

lemma race_entry_grows:
  assumes "race_reachable E regs call R s" and "one_site E reason spec regs"
  shows "raPast s \<noteq> [] \<and> entry_grows E reason spec (raPast s)"
  using assms(1) unfolding race_reachable_def
proof (induction rule: rtranclp_induct)
  case base
  then show ?case by (simp add: race_start_def entry_grows_def)
next
  case (step s s')
  from step(2) show ?case
  proof (cases rule: race_step.cases)
    case (register r sp opts R')
    then have "R' = (last (raPast s))(normalize_reason E r \<mapsto> sp)" by (simp add: RegisterReason_Inr_iff)
    with register(2) assms(2) have "lookupReason E R' reason = lookupReason E (last (raPast s)) reason \<or>
        lookupReason E R' reason = Some spec"
      by (auto simp: lookupReason_update one_site_def)
    with step(3) register(1) show ?thesis by (simp add: entry_grows_register)
  qed (use step(3) in simp_all)
qed

subsection \<open>What a call can return\<close>

text \<open>
  C21. What \<open>NewProblem\<close> returns while reasons are being registered. When every registration of
  the code's reason carries the same spec (the rule that a reason is registered from one
  site), a call that runs while other goroutines register reasons returns the problem as it
  was before the registration, the one after it, or, if the registration falls between the
  two lookups, a mixture: the old status under the registered title. A call that starts
  after the registration returns the registered problem, one that ends before it the old
  one, whatever other reasons are being registered.
\<close>

theorem NewProblem_race:
  assumes "race_reachable E regs call R s" and "raCalls s g = Returned i j p" and "call g = (code, opts)"
    and "ParseCode code = Some c" and "one_site E (cReason c) spec regs" and "lookupReason E R (cReason c) = None"
  shows "let R' = R(normalize_reason E (cReason c) \<mapsto> spec) in
      (p = NewProblem E R code opts \<or> p = NewProblem E R' code opts \<or>
       p = NewProblem_title E R' code opts (NewProblem_status E R code)) \<and>
      (lookupReason E (raPast s ! i) (cReason c) \<noteq> None \<longrightarrow> p = NewProblem E R' code opts) \<and>
      (lookupReason E (raPast s ! j) (cReason c) = None \<longrightarrow> p = NewProblem E R code opts)"
proof -
  let ?l = "\<lambda>R. lookupReason E R (cReason c)" and ?R' = "R(normalize_reason E (cReason c) \<mapsto> spec)"
  let ?Ri = "raPast s ! i" and ?Rj = "raPast s ! j"
  have "call_ok E (code, opts) (raPast s) (Returned i j p)" and R: "raPast s ! 0 = R"
    using race_reachable_ok [OF assms(1)] assms(2,3) unfolding race_ok_def by (metis, blast)
  then have ij: "i \<le> j" "j < length (raPast s)"
    and p: "p = NewProblem_title E ?Rj code opts (NewProblem_status E ?Ri code)" by (simp_all add: call_ok_def)
  have grows: "?l (raPast s ! b) = ?l (raPast s ! a) \<or> ?l (raPast s ! b) = Some spec" if "a \<le> b" "b \<le> j" for a b
    using race_entry_grows [OF assms(1,5)] ij that unfolding entry_grows_def by auto
  have new: "?l ?R' = Some spec" by (simp add: lookupReason_update)
  note status = NewProblem_status_cong [OF assms(4)] and title = NewProblem_title_cong [OF assms(4)]
  consider (old) "?l ?Ri = ?l R" "?l ?Rj = ?l R" | (torn) "?l ?Ri = ?l R" "?l ?Rj = ?l ?R'"
    | (registered) "?l ?Ri = ?l ?R'" "?l ?Rj = ?l ?R'"
    using grows [of 0 i] grows [of i j] ij R new by auto
  then show ?thesis
  proof cases
    case old
    then show ?thesis using assms(6) by (simp add: p status [OF old(1)] title [OF old(2)] NewProblem_phases)
  next
    case torn
    then show ?thesis using assms(6) new by (simp add: p status [OF torn(1)] title [OF torn(2)])
  next
    case registered
    then show ?thesis using new
      by (simp add: p status [OF registered(1)] title [OF registered(2)] NewProblem_phases)
  qed
qed

text \<open>The mixture does occur: status 500 under the title of a reason registered with status 400.\<close>

definition sample_registration :: registration where
  "sample_registration = (''proofInvalid'', \<lparr>rStatus = 400, rTitle = ''Invalid proof''\<rparr>, [])"

lemma NewProblem_race_witness:
  "\<exists>s p. race_reachable sample_env {sample_registration} (\<lambda>g. (''err:credential:proofInvalid'', [])) Map.empty s \<and>
     raCalls s 0 = Returned 0 1 p \<and> pStatus p = 500 \<and> pTitle p = ''Invalid proof'' \<and>
     p \<noteq> NewProblem sample_env Map.empty ''err:credential:proofInvalid'' [] \<and>
     p \<noteq> NewProblem sample_env (Map.empty(''proofinvalid'' \<mapsto> \<lparr>rStatus = 400, rTitle = ''Invalid proof''\<rparr>))
       ''err:credential:proofInvalid'' []"
proof -
  let ?E = sample_env and ?code = "''err:credential:proofInvalid''" and ?c = "\<lparr>cDomain = ''credential'', cReason = ''proofInvalid''\<rparr>"
  let ?spec = "\<lparr>rStatus = 400, rTitle = ''Invalid proof''\<rparr>"
  let ?call = "\<lambda>g :: nat. (?code, [] :: problem_option list)"
  let ?R = "Map.empty(''proofinvalid'' \<mapsto> ?spec)"
  let ?reach = "race_reachable ?E {sample_registration} ?call Map.empty"
  have n: "normalize_reason ?E ''proofInvalid'' = ''proofinvalid''" by code_simp
  have c: "ParseCode ?code = Some ?c" by code_simp
  have reg: "RegisterReason ?E Map.empty ''proofInvalid'' ?spec [] = Inr ?R"
  proof -
    have "builtinTitleForReasonOK ?E ''proofInvalid'' = None" by code_simp
    then show ?thesis unfolding RegisterReason_Inr_iff n by simp
  qed
  define s1 where "s1 = race_start Map.empty\<lparr>raCalls := (raCalls (race_start Map.empty))(0 := Between
    (length (raPast (race_start Map.empty)) - 1) (NewProblem_status ?E (last (raPast (race_start Map.empty))) (fst (?call 0))))\<rparr>"
  define s2 where "s2 = s1\<lparr>raPast := raPast s1 @ [?R]\<rparr>"
  let ?p = "NewProblem_title ?E ?R ?code [] (NewProblem_status ?E Map.empty ?code)"
  define s3 where "s3 = s2\<lparr>raCalls := (raCalls s2)(0 := Returned 0 (length (raPast s2) - 1)
    (NewProblem_title ?E (last (raPast s2)) (fst (?call 0)) (snd (?call 0)) (NewProblem_status ?E Map.empty ?code)))\<rparr>"
  have "?reach (race_start Map.empty)" by (simp add: race_reachable_def)
  then have "?reach s1" unfolding s1_def
    by (rule race_reachable_step) (rule race_step.first_lookup, simp add: race_start_def)
  moreover have "race_step ?E {sample_registration} ?call s1 s2" unfolding s2_def
    by (rule race_step.register [of "''proofInvalid''" ?spec "[]"])
       (simp add: sample_registration_def, use reg in \<open>simp add: s1_def race_start_def\<close>)
  ultimately have "?reach s2" by (rule race_reachable_step)
  then have reach: "?reach s3" unfolding s3_def
    by (rule race_reachable_step) (rule race_step.second_lookup, simp add: s2_def s1_def race_start_def)
  have ret: "raCalls s3 0 = Returned 0 1 ?p" by (simp add: s3_def s2_def s1_def race_start_def)
  have site: "one_site ?E (cReason ?c) ?spec {sample_registration}"
    by (simp add: one_site_def sample_registration_def)
  have none: "lookupReason ?E Map.empty (cReason ?c) = None" by (simp add: lookupReason_def)
  have st: "pStatus ?p = 500" "pTitle ?p = ''Invalid proof''"
    "pTitle (NewProblem ?E Map.empty ?code []) \<noteq> ''Invalid proof''" "pStatus (NewProblem ?E ?R ?code []) \<noteq> 500"
    by code_simp+
  then have "?p \<noteq> NewProblem ?E Map.empty ?code []" "?p \<noteq> NewProblem ?E ?R ?code []" by metis+
  with NewProblem_race [OF reach ret refl c site none] reach ret st(1,2) n show ?thesis by auto
qed

end
