(* ===== verification/Json_Fields.thy ===== *)
theory Json_Fields
  imports Go_Json
begin

text \<open>
  How \<open>encoding/json\<close> writes the fields of a struct (\<open>omitempty\<close>) and reads a value into
  them: the name of a member is matched without regard to case, \<open>null\<close> leaves a string, an
  integer or a struct as it was, and a value of another type makes the decoding fail. An
  \<open>int\<close> takes a literal without fraction or exponent that fits 64 bits.
\<close>

subsection \<open>Writing fields\<close>

definition str_field :: "string \<Rightarrow> string \<Rightarrow> (string \<times> json) list" where
  "str_field k s = [(k, JStr s)]"

definition opt_str_field :: "string \<Rightarrow> string \<Rightarrow> (string \<times> json) list" where
  "opt_str_field k s = (if s = [] then [] else [(k, JStr s)])"

definition int_field :: "string \<Rightarrow> int \<Rightarrow> (string \<times> json) list" where
  "int_field k i = [(k, JNum (int_text i))]"

definition opt_int_field :: "string \<Rightarrow> int \<Rightarrow> (string \<times> json) list" where
  "opt_int_field k i = (if i = 0 then [] else [(k, JNum (int_text i))])"

subsection \<open>Reading fields\<close>

fun fold_piece :: "nat option \<times> string \<Rightarrow> string" where
  "fold_piece (None, p) = p"
| "fold_piece (Some r, p) =
     (if 97 \<le> r \<and> r \<le> 122 then [char_of (r - 32)]
      else if r = 383 then ''S''
      else if r = 8490 then ''K''
      else p)"

text \<open>\<open>foldName\<close>: the smallest rune of the case orbit, for the orbits that hold an ASCII letter.\<close>

definition fold_name :: "string \<Rightarrow> string" where
  "fold_name s = concat (map fold_piece (runes s))"

definition field_is :: "string \<Rightarrow> string \<Rightarrow> bool" where
  "field_is name key \<longleftrightarrow> fold_name key = fold_name name"

definition digits_value :: "string \<Rightarrow> nat" where
  "digits_value s = foldl (\<lambda>a c. a * 10 + (byte c - 48)) 0 s"

definition lit_nat :: "string \<Rightarrow> nat option" where
  "lit_nat s = (if s \<noteq> [] \<and> list_all is_digit s then Some (digits_value s) else None)"

definition int64 :: "int \<Rightarrow> bool" where
  "int64 i \<longleftrightarrow> - (2 ^ 63) \<le> i \<and> i < 2 ^ 63"

text \<open>\<open>strconv.ParseInt\<close>, base 10, 64 bits, on a JSON number literal.\<close>

definition parse_int64 :: "string \<Rightarrow> int option" where
  "parse_int64 s =
     (case (case s of
          [] \<Rightarrow> None
        | c # r \<Rightarrow> if c = CHR ''-'' then map_option (\<lambda>n. - int n) (lit_nat r)
                  else map_option int (lit_nat s)) of
        None \<Rightarrow> None
      | Some i \<Rightarrow> if int64 i then Some i else None)"

fun read_str :: "string \<Rightarrow> json \<Rightarrow> string option" where
  "read_str old (JStr s) = Some s"
| "read_str old JNull = Some old"
| "read_str old _ = None"

fun read_int :: "int \<Rightarrow> json \<Rightarrow> int option" where
  "read_int old (JNum lit) = parse_int64 lit"
| "read_int old JNull = Some old"
| "read_int old _ = None"

text \<open>The members of an object, in order, into a struct.\<close>

fun read_members :: "('a \<Rightarrow> string \<Rightarrow> json \<Rightarrow> 'a option) \<Rightarrow> 'a \<Rightarrow> (string \<times> json) list \<Rightarrow> 'a option" where
  "read_members f x [] = Some x"
| "read_members f x ((k, v) # ms) = (case f x k v of None \<Rightarrow> None | Some y \<Rightarrow> read_members f y ms)"

lemma read_members_append:
  "read_members f x (ms @ ms') =
     (case read_members f x ms of None \<Rightarrow> None | Some y \<Rightarrow> read_members f y ms')"
  by (induction ms arbitrary: x) (auto split: option.splits)

lemmas field_defs = str_field_def opt_str_field_def int_field_def opt_int_field_def

subsection \<open>Integers are read back\<close>

declare nat_text.simps [simp del]

lemma is_digit_char_of: "n < 10 \<Longrightarrow> is_digit (char_of (48 + n :: nat))"
  by (simp add: is_digit_def)

lemma nat_text_digits: "list_all is_digit (nat_text n) \<and> nat_text n \<noteq> []"
proof (induction n rule: nat_text.induct)
  case (1 n)
  then show ?case
    by (subst (1 2) nat_text.simps) (auto simp: is_digit_char_of)
qed

lemma digits_value_snoc: "digits_value (s @ [c]) = digits_value s * 10 + (byte c - 48)"
  by (simp add: digits_value_def)

lemma digits_value_nat_text: "digits_value (nat_text n) = n"
proof (induction n rule: nat_text.induct)
  case (1 n)
  show ?case
  proof (cases "n < 10")
    case True
    then show ?thesis by (subst nat_text.simps) (simp add: digits_value_def)
  next
    case False
    have "n mod 10 < 10" by simp
    then have "(48 + n mod 10) mod 256 = 48 + n mod 10" by simp
    with False 1 show ?thesis by (subst nat_text.simps) (simp add: digits_value_snoc)
  qed
qed

lemma nat_text_hd: "hd (nat_text n) = CHR ''0'' \<Longrightarrow> nat_text n = ''0''"
proof (induction n rule: nat_text.induct)
  case (1 n)
  show ?case
  proof (cases "n < 10")
    case True
    with 1(2) show ?thesis by (simp add: nat_text.simps [of n])
  next
    case False
    then have t: "nat_text n = nat_text (n div 10) @ [char_of (48 + n mod 10)]"
      by (simp add: nat_text.simps [of n])
    with 1(2) nat_text_digits [of "n div 10"] have "hd (nat_text (n div 10)) = CHR ''0''" by simp
    with 1(1) [OF False] have "nat_text (n div 10) = ''0''" by simp
    then have "n div 10 = 0" using digits_value_nat_text [of "n div 10"] by (simp add: digits_value_def)
    with False show ?thesis by simp
  qed
qed

lemma takeWhile_all: "list_all P s \<Longrightarrow> takeWhile P s = s \<and> dropWhile P s = []"
  by (induction s) auto

lemma scan_unsigned_nat_text: "scan_unsigned (nat_text n) = Some (nat_text n, [])"
proof -
  obtain c r where t: "nat_text n = c # r" using nat_text_digits [of n] by (cases "nat_text n") auto
  have "scan_int (nat_text n) = Some (nat_text n, [])"
  proof (cases "c = CHR ''0''")
    case True
    with t nat_text_hd [of n] show ?thesis by (simp add: scan_int_def)
  next
    case False
    with t nat_text_digits [of n] takeWhile_all [of is_digit "nat_text n"] show ?thesis
      by (simp add: scan_int_def digits1_def Let_def)
  qed
  then show ?thesis by (simp add: scan_unsigned_def scan_frac_def scan_exp_def)
qed

lemma scan_number_int_text: "scan_number (int_text i) = Some (int_text i, [])"
proof (cases "i < 0")
  case True
  then show ?thesis by (simp add: int_text_def scan_number_def scan_unsigned_nat_text)
next
  case False
  obtain c r where t: "nat_text (nat i) = c # r" "is_digit c"
    using nat_text_digits [of "nat i"] by (cases "nat_text (nat i)") auto
  then have "c \<noteq> CHR ''-''" by (auto simp: is_digit_def)
  with False t scan_unsigned_nat_text [of "nat i"] show ?thesis
    by (simp add: int_text_def scan_number_def)
qed

lemma lit_nat_text [simp]: "lit_nat (nat_text n) = Some n"
  using nat_text_digits [of n] by (simp add: lit_nat_def digits_value_nat_text)

lemma parse_int64_text: "int64 i \<Longrightarrow> parse_int64 (int_text i) = Some i"
proof (cases "i < 0")
  case False
  obtain c r where t: "nat_text (nat i) = c # r" "is_digit c"
    using nat_text_digits [of "nat i"] by (cases "nat_text (nat i)") auto
  then have "c \<noteq> CHR ''-''" by (auto simp: is_digit_def)
  moreover assume "int64 i"
  moreover have "lit_nat (c # r) = Some (nat i)" using t lit_nat_text [of "nat i"] by simp
  ultimately show ?thesis using False t by (simp add: parse_int64_def int_text_def)
qed (simp add: parse_int64_def int_text_def)

lemma int64_0 [simp]: "int64 0"
  by (simp add: int64_def)

subsection \<open>A struct's fields, one at a time\<close>

lemma read_opt_str:
  "read_members f x (opt_str_field k s @ ms) =
     (if s = [] then read_members f x ms
      else (case f x k (JStr s) of None \<Rightarrow> None | Some y \<Rightarrow> read_members f y ms))"
  by (simp add: opt_str_field_def)

lemma read_opt_int:
  "read_members f x (opt_int_field k i @ ms) =
     (if i = 0 then read_members f x ms
      else (case f x k (JNum (int_text i)) of None \<Rightarrow> None | Some y \<Rightarrow> read_members f y ms))"
  by (simp add: opt_int_field_def)

lemma read_str_field:
  "read_members f x (str_field k s @ ms) =
     (case f x k (JStr s) of None \<Rightarrow> None | Some y \<Rightarrow> read_members f y ms)"
  by (simp add: str_field_def)

lemma read_int_field:
  "read_members f x (int_field k i @ ms) =
     (case f x k (JNum (int_text i)) of None \<Rightarrow> None | Some y \<Rightarrow> read_members f y ms)"
  by (simp add: int_field_def)

lemmas read_fields = read_opt_str read_opt_int read_str_field read_int_field

lemma json_wf_fields [simp]:
  "list_all (\<lambda>(k, v). valid_utf8 k \<and> json_wf v) (opt_str_field k s) \<longleftrightarrow> s = [] \<or> valid_utf8 k \<and> valid_utf8 s"
  "list_all (\<lambda>(k, v). valid_utf8 k \<and> json_wf v) (str_field k s) \<longleftrightarrow> valid_utf8 k \<and> valid_utf8 s"
  "list_all (\<lambda>(k, v). valid_utf8 k \<and> json_wf v) (opt_int_field k i) \<longleftrightarrow> i = 0 \<or> valid_utf8 k"
  "list_all (\<lambda>(k, v). valid_utf8 k \<and> json_wf v) (int_field k i) \<longleftrightarrow> valid_utf8 k"
  by (auto simp: field_defs scan_number_int_text)

lemma fold_max_le: "\<forall>x \<in> set xs. f x \<le> (b :: nat) \<Longrightarrow> m \<le> b \<Longrightarrow> fold (\<lambda>x m. max (f x) m) xs m \<le> b"
  by (induction xs arbitrary: m) auto

lemma json_depth_JArr: "\<forall>j \<in> set js. json_depth j \<le> b \<Longrightarrow> json_depth (JArr js) \<le> Suc b"
  by (simp add: fold_max_le)

lemma json_depth_JObj: "\<forall>(k, v) \<in> set ms. json_depth v \<le> b \<Longrightarrow> json_depth (JObj ms) \<le> Suc b"
  using fold_max_le [of ms "\<lambda>(k, v). json_depth v" b 0] by (simp add: case_prod_beta')

end
