(* ===== verification/Go_Time.thy ===== *)
theory Go_Time
  imports Json_Fields "HOL-Library.Monad_Syntax"
begin

text \<open>
  What the broker uses of \<open>time.Time\<close>: a date and time of day with its zone offset, whether
  it is the zero time, and its JSON text (RFC 3339 with nanoseconds), written and read.

  \<open>gotime\<close> holds the clock reading in the value's own zone and the zone's offset in
  seconds; together they determine the instant. Reading a timestamp takes the characters
  between the quotes of the JSON string as they stand there: \<open>UnmarshalJSON\<close> does not undo
  escapes.
\<close>

record gotime =
  tYear :: int
  tMonth :: nat
  tDay :: nat
  tHour :: nat
  tMin :: nat
  tSec :: nat
  tNsec :: nat
  tOff :: int

definition leap_year :: "int \<Rightarrow> bool" where
  "leap_year y \<longleftrightarrow> y mod 4 = 0 \<and> (y mod 100 \<noteq> 0 \<or> y mod 400 = 0)"

definition days_in :: "nat \<Rightarrow> int \<Rightarrow> nat" where
  "days_in m y = (if m = 2 then (if leap_year y then 29 else 28)
     else if m \<in> set [4, 6, 9, 11] then 30 else 31)"

definition time_ok :: "gotime \<Rightarrow> bool" where
  "time_ok t \<longleftrightarrow> 1 \<le> tMonth t \<and> tMonth t \<le> 12 \<and> 1 \<le> tDay t \<and> tDay t \<le> days_in (tMonth t) (tYear t) \<and>
     tHour t < 24 \<and> tMin t < 60 \<and> tSec t < 60 \<and> tNsec t < 1000000000"

definition zero_time :: gotime where
  "zero_time = \<lparr>tYear = 1, tMonth = 1, tDay = 1, tHour = 0, tMin = 0, tSec = 0, tNsec = 0, tOff = 0\<rparr>"

text \<open>
  The instant is January 1 of year 1, 00:00 UTC, read in the value's zone (for an offset of
  less than a month).
\<close>

definition IsZero :: "gotime \<Rightarrow> bool" where
  "IsZero t \<longleftrightarrow>
     (let sod = int (tHour t * 3600 + tMin t * 60 + tSec t); d = tOff t div 86400 in
      tNsec t = 0 \<and> sod = tOff t mod 86400 \<and>
      (if 0 \<le> d then tYear t = 1 \<and> tMonth t = 1 \<and> int (tDay t) = 1 + d
       else tYear t = 0 \<and> tMonth t = 12 \<and> int (tDay t) = 32 + d))"

subsection \<open>Writing\<close>

definition digit :: "nat \<Rightarrow> char" where
  "digit n = char_of (48 + n mod 10)"

definition pad2 :: "nat \<Rightarrow> string" where
  "pad2 n = [digit (n div 10), digit n]"

definition pad4 :: "nat \<Rightarrow> string" where
  "pad4 n = [digit (n div 1000), digit (n div 100), digit (n div 10), digit n]"

definition pad9 :: "nat \<Rightarrow> string" where
  "pad9 n = map (\<lambda>k. digit (n div 10 ^ k)) [8, 7, 6, 5, 4, 3, 2, 1, 0]"

definition strip_zeros :: "string \<Rightarrow> string" where
  "strip_zeros s = rev (dropWhile (\<lambda>c. c = CHR ''0'') (rev s))"

definition frac_text :: "nat \<Rightarrow> string" where
  "frac_text ns = (if ns = 0 then [] else CHR ''.'' # strip_zeros (pad9 ns))"

text \<open>The offset in whole minutes, cut towards zero, decides on the sign.\<close>

definition zone_text :: "int \<Rightarrow> string" where
  "zone_text off =
     (if off = 0 then ''Z''
      else let z = nat (\<bar>off\<bar> div 60) in
        (if off < 0 \<and> z \<noteq> 0 then ''-'' else ''+'') @ pad2 (z div 60) @ '':'' @ pad2 (z mod 60))"

text \<open>\<open>MarshalJSON\<close> fails for a year that does not have four digits and an offset of a day or more.\<close>

definition time_text :: "gotime \<Rightarrow> string option" where
  "time_text t =
     (if tYear t < 0 \<or> 9999 < tYear t \<or> 86400 \<le> \<bar>tOff t\<bar> then None
      else Some (pad4 (nat (tYear t)) @ ''-'' @ pad2 (tMonth t) @ ''-'' @ pad2 (tDay t) @ ''T'' @
        pad2 (tHour t) @ '':'' @ pad2 (tMin t) @ '':'' @ pad2 (tSec t) @
        frac_text (tNsec t) @ zone_text (tOff t)))"

subsection \<open>Reading\<close>

text \<open>
  \<open>UnmarshalJSON\<close> tries the strict form of RFC 3339 and falls back to \<open>time.Parse\<close>, whose checks
  on the result are switched off; what \<open>Parse\<close> takes beyond the strict form is one digit for
  the hour, a comma before the fraction, and a zone of 24 hours or 60 minutes. Where the
  strict form applies both give the same time.
\<close>

definition num :: "nat \<Rightarrow> string \<Rightarrow> (nat \<times> string) option" where
  "num n s = (if n \<le> length s \<and> list_all is_digit (take n s)
     then Some (digits_value (take n s), drop n s) else None)"

definition num_1_2 :: "string \<Rightarrow> (nat \<times> string) option" where
  "num_1_2 s = (case num 2 s of Some x \<Rightarrow> Some x | None \<Rightarrow> num 1 s)"

definition expect :: "char \<Rightarrow> string \<Rightarrow> string option" where
  "expect c s = (case s of [] \<Rightarrow> None | d # r \<Rightarrow> if c = d then Some r else None)"

definition read_frac :: "string \<Rightarrow> (nat \<times> string) option" where
  "read_frac s = (case s of
      [] \<Rightarrow> Some (0, s)
    | c # r \<Rightarrow>
        let ds = takeWhile is_digit r in
          if (c \<noteq> CHR ''.'' \<and> c \<noteq> CHR '','') \<or> ds = [] then Some (0, s)
          else Some (digits_value (take 9 (ds @ replicate 9 (CHR ''0''))), dropWhile is_digit r))"

definition read_zone :: "string \<Rightarrow> int option" where
  "read_zone s = (case s of
      [] \<Rightarrow> None
    | c # r \<Rightarrow>
        if c = CHR ''Z'' then (if r = [] then Some 0 else None)
        else if c = CHR ''+'' \<or> c = CHR ''-'' then
          do { (h, r) \<leftarrow> num 2 r; r \<leftarrow> expect (CHR '':'') r; (m, r) \<leftarrow> num 2 r;
               if r = [] \<and> h \<le> 24 \<and> m \<le> 60
               then Some ((if c = CHR ''-'' then -1 else 1) * int (h * 3600 + m * 60)) else None }
        else None)"

definition read_time :: "string \<Rightarrow> gotime option" where
  "read_time s = do {
     (y, s) \<leftarrow> num 4 s; s \<leftarrow> expect (CHR ''-'') s; (mo, s) \<leftarrow> num 2 s; s \<leftarrow> expect (CHR ''-'') s;
     (d, s) \<leftarrow> num 2 s; s \<leftarrow> expect (CHR ''T'') s; (h, s) \<leftarrow> num_1_2 s; s \<leftarrow> expect (CHR '':'') s;
     (mi, s) \<leftarrow> num 2 s; s \<leftarrow> expect (CHR '':'') s; (sec, s) \<leftarrow> num 2 s;
     (ns, s) \<leftarrow> read_frac s; off \<leftarrow> read_zone s;
     let t = \<lparr>tYear = int y, tMonth = mo, tDay = d, tHour = h, tMin = mi, tSec = sec, tNsec = ns, tOff = off\<rparr>;
     if time_ok t then Some t else None }"

subsection \<open>What is written is read back\<close>

lemma is_digit_digit [simp]: "is_digit (digit n)"
  by (simp add: digit_def is_digit_def)

lemma byte_digit: "byte (digit n) = 48 + n mod 10"
proof -
  have "n mod 10 < 10" by simp
  then have "48 + n mod 10 < 256" by linarith
  then show ?thesis by (simp add: digit_def)
qed

text \<open>The last \<open>m\<close> decimal digits.\<close>

definition digits_of :: "nat \<Rightarrow> nat \<Rightarrow> string" where
  "digits_of m n = map (\<lambda>k. digit (n div 10 ^ k)) (rev [0..<m])"

lemma digits_of_Suc: "digits_of (Suc m) n = digits_of m (n div 10) @ [digit n]"
proof -
  have "rev [0..<Suc m] = map Suc (rev [0..<m]) @ [0]"
    by (simp only: upt_conv_Cons [OF zero_less_Suc] rev.simps map_Suc_upt [symmetric] rev_map)
  then show ?thesis by (simp add: digits_of_def div_mult2_eq)
qed

lemma digits_of_facts: "length (digits_of m n) = m \<and> list_all is_digit (digits_of m n)"
  by (simp add: digits_of_def list_all_iff)

lemma digits_value_digits_of: "digits_value (digits_of m n) = n mod 10 ^ m"
proof (induction m arbitrary: n)
  case 0
  then show ?case by (simp add: digits_of_def digits_value_def)
next
  case (Suc m)
  then show ?case by (simp add: digits_of_Suc digits_value_snoc byte_digit mod_mult2_eq)
qed

lemma pad_digits: "pad2 n = digits_of 2 n" "pad4 n = digits_of 4 n" "pad9 n = digits_of 9 n"
  by (simp_all add: pad2_def pad4_def pad9_def digits_of_def upt_rec)

lemma num_digits: "n < 10 ^ m \<Longrightarrow> num m (digits_of m n @ s) = Some (n, s)"
  using digits_of_facts [of m n] by (simp add: num_def digits_value_digits_of)

lemma num_pad2: "n < 100 \<Longrightarrow> num 2 (pad2 n @ s) = Some (n, s)"
  using num_digits [of n 2 s] by (simp add: pad_digits)

lemma num_pad4: "n < 10000 \<Longrightarrow> num 4 (pad4 n @ s) = Some (n, s)"
  using num_digits [of n 4 s] by (simp add: pad_digits)

lemma num_1_2_pad2: "n < 100 \<Longrightarrow> num_1_2 (pad2 n @ s) = Some (n, s)"
  by (simp add: num_1_2_def num_pad2)

lemma expect_Cons [simp]: "expect c (c # s) = Some s"
  by (simp add: expect_def)

lemma strip_zeros_append:
  "\<exists>k. s = strip_zeros s @ replicate k (CHR ''0'')"
proof -
  let ?z = "takeWhile (\<lambda>c. c = CHR ''0'') (rev s)"
  have "rev s = ?z @ dropWhile (\<lambda>c. c = CHR ''0'') (rev s)" by simp
  then have "s = strip_zeros s @ rev ?z"
    unfolding strip_zeros_def by (metis rev_append rev_rev_ident)
  moreover have "?z = replicate (length ?z) (CHR ''0'')"
    by (metis (full_types) replicate_eqI set_takeWhileD)
  ultimately show ?thesis by (metis rev_replicate)
qed

lemma strip_zeros_digits: "list_all is_digit s \<Longrightarrow> list_all is_digit (strip_zeros s)"
  using strip_zeros_append [of s] by (metis list_all_append)

lemma digits_value_zeros: "digits_value (replicate k (CHR ''0'')) = 0"
proof (induction k)
  case (Suc k)
  have "replicate (Suc k) (CHR ''0'') = replicate k (CHR ''0'') @ [CHR ''0'']"
    by (simp add: replicate_append_same)
  with Suc show ?case by (simp only: digits_value_snoc) simp
qed (simp add: digits_value_def)

lemma read_frac_text:
  assumes "ns < 1000000000" and "s = [] \<or> \<not> is_digit (hd s)" and "s = [] \<or> hd s \<noteq> CHR ''.'' \<and> hd s \<noteq> CHR '',''"
  shows "read_frac (frac_text ns @ s) = Some (ns, s)"
proof (cases "ns = 0")
  case True
  with assms(3) show ?thesis by (cases s) (auto simp: frac_text_def read_frac_def)
next
  case False
  let ?p = "pad9 ns" and ?d = "strip_zeros (pad9 ns)"
  have p: "length ?p = 9" "list_all is_digit ?p" "digits_value ?p = ns"
    using digits_of_facts [of 9 ns] digits_value_digits_of [of 9 ns] assms(1)
    by (simp_all add: pad_digits)
  obtain k where k: "?p = ?d @ replicate k (CHR ''0'')" using strip_zeros_append by blast
  then have k9: "length ?d + k = 9" using p(1) by (metis length_append length_replicate)
  have ne: "?d \<noteq> []"
  proof
    assume "?d = []"
    with k p(3) digits_value_zeros [of k] False show False by simp
  qed
  have d: "list_all is_digit ?d" by (rule strip_zeros_digits [OF p(2)])
  have tw: "takeWhile is_digit (?d @ s) = ?d" "dropWhile is_digit (?d @ s) = s"
    using d assms(2) by (cases s; auto simp: list_all_iff takeWhile_append2 dropWhile_append2)+
  have "take 9 (?d @ replicate 9 (CHR ''0'')) = ?d @ replicate k (CHR ''0'')"
    using k9 by (simp add: min_def)
  then have "digits_value (take 9 (?d @ replicate 9 (CHR ''0''))) = ns"
    using k p(3) by simp
  with tw ne False show ?thesis by (simp add: frac_text_def read_frac_def Let_def)
qed

lemma zone_minutes:
  assumes "\<bar>off\<bar> < 86400" and "off mod 60 = 0"
  shows "nat (\<bar>off\<bar> div 60) div 60 < 24"
    and "int (nat (\<bar>off\<bar> div 60) div 60 * 3600 + nat (\<bar>off\<bar> div 60) mod 60 * 60) = \<bar>off\<bar>"
proof -
  have "\<bar>off\<bar> mod 60 = 0" using assms(2) by (auto simp: abs_if mod_minus_eq zmod_zminus1_eq_if)
  then have a: "\<bar>off\<bar> = 60 * (\<bar>off\<bar> div 60)" by (metis add.right_neutral mult_div_mod_eq)
  define z where "z = nat (\<bar>off\<bar> div 60)"
  have z: "int z = \<bar>off\<bar> div 60" by (simp add: z_def)
  have "z < 1440" using assms(1) a z by linarith
  then show "nat (\<bar>off\<bar> div 60) div 60 < 24" unfolding z_def [symmetric] by simp
  have "z = 60 * (z div 60) + z mod 60" by simp
  then have "int (z div 60 * 3600 + z mod 60 * 60) = 60 * int z" by linarith
  then show "int (nat (\<bar>off\<bar> div 60) div 60 * 3600 + nat (\<bar>off\<bar> div 60) mod 60 * 60) = \<bar>off\<bar>"
    unfolding z_def [symmetric] using a z by linarith
qed

lemma read_zone_text:
  assumes "\<bar>off\<bar> < 86400" and "off mod 60 = 0"
  shows "read_zone (zone_text off) = Some off"
proof (cases "off = 0")
  case True
  then show ?thesis by (simp add: zone_text_def read_zone_def)
next
  case False
  define z where "z = nat (\<bar>off\<bar> div 60)"
  note zm = zone_minutes [OF assms, folded z_def]
  have "num 2 (pad2 (z div 60) @ CHR '':'' # pad2 (z mod 60)) = Some (z div 60, CHR '':'' # pad2 (z mod 60))"
    using zm(1) by (intro num_pad2) simp
  moreover have "num 2 (pad2 (z mod 60) @ []) = Some (z mod 60, [])"
    by (intro num_pad2) (simp add: less_trans [OF mod_less_divisor])
  ultimately show ?thesis
    using False zm by (auto simp: zone_text_def read_zone_def Let_def z_def [symmetric])
qed

lemma zone_text_start: "zone_text off \<noteq> [] \<and> \<not> is_digit (hd (zone_text off)) \<and> hd (zone_text off) \<noteq> CHR ''.'' \<and>
  hd (zone_text off) \<noteq> CHR '',''"
  by (simp add: zone_text_def Let_def is_digit_def)

lemma days_in_lt: "days_in m y < 100"
  by (simp add: days_in_def)

lemma read_time_text:
  assumes "time_ok t" and "time_text t = Some s" and "tOff t mod 60 = 0"
  shows "read_time s = Some t"
proof -
  from assms(1) have r: "tMonth t < 100" "tDay t < 100" "tHour t < 100" "tMin t < 100" "tSec t < 100"
    "tNsec t < 1000000000"
    using days_in_lt [of "tMonth t" "tYear t"] by (auto simp: time_ok_def)
  from assms(2) have y: "0 \<le> tYear t" "nat (tYear t) < 10000" and o: "\<bar>tOff t\<bar> < 86400"
    by (auto simp: time_text_def split: if_splits)
  have s: "s = pad4 (nat (tYear t)) @ CHR ''-'' # pad2 (tMonth t) @ CHR ''-'' # pad2 (tDay t) @ CHR ''T'' #
        pad2 (tHour t) @ CHR '':'' # pad2 (tMin t) @ CHR '':'' # pad2 (tSec t) @
        frac_text (tNsec t) @ zone_text (tOff t)"
    using assms(2) by (simp add: time_text_def split: if_splits)
  have z: "read_zone (zone_text (tOff t)) = Some (tOff t)" by (rule read_zone_text [OF o assms(3)])
  have f: "read_frac (frac_text (tNsec t) @ zone_text (tOff t)) = Some (tNsec t, zone_text (tOff t))"
    using zone_text_start by (intro read_frac_text [OF r(6)]) auto
  have eta: "\<lparr>tYear = tYear t, tMonth = tMonth t, tDay = tDay t, tHour = tHour t, tMin = tMin t,
      tSec = tSec t, tNsec = tNsec t, tOff = tOff t\<rparr> = t" by simp
  show ?thesis
    unfolding read_time_def s
    using assms(1) y by (simp add: num_pad2 num_1_2_pad2 num_pad4 r f z Let_def eta)
qed

end
