(* ===== verification/Go_Float.thy ===== *)
theory Go_Float
  imports Json_Fields
begin

text \<open>
  What \<open>encoding/json\<close> makes of a number it reads into an \<open>any\<close>: the \<open>float64\<close> nearest to the
  literal (\<open>strconv.ParseFloat\<close>), and the text that float is written with again
  (\<open>strconv.AppendFloat\<close> with the shortest digits, as \<open>floatEncoder\<close> calls it).

  A float is a sign, a mantissa \<open>m\<close> and an exponent \<open>e\<close>, the value \<open>m * 2 ^ e\<close>; the mantissa has
  53 bits unless \<open>e\<close> is the least exponent. All arithmetic is exact, on integers.
\<close>

type_synonym float64 = "bool \<times> int \<times> int"

function bit_len :: "int \<Rightarrow> int" where
  "bit_len n = (if n \<le> 0 then 0 else 1 + bit_len (n div 2))"
  by auto
termination by (relation "measure nat") auto

function dec_len :: "int \<Rightarrow> int" where
  "dec_len n = (if n \<le> 0 then 0 else 1 + dec_len (n div 10))"
  by auto
termination by (relation "measure nat") auto

declare bit_len.simps [simp del] dec_len.simps [simp del]

text \<open>The ratio \<open>p / q\<close> times a power of a base, as a ratio again.\<close>

definition scale :: "int \<Rightarrow> int \<Rightarrow> int \<times> int \<Rightarrow> int \<times> int" where
  "scale b k r = (case r of (p, q) \<Rightarrow> if 0 \<le> k then (p * b ^ nat k, q) else (p, q * b ^ nat (- k)))"

subsection \<open>The nearest float\<close>

definition half_even :: "int \<Rightarrow> int \<Rightarrow> int" where
  "half_even p q = (let d = p div q; r = p mod q in if 2 * r < q \<or> (2 * r = q \<and> even d) then d else d + 1)"

definition round_ratio :: "int \<times> int \<Rightarrow> int \<times> int" where
  "round_ratio r =
     (if fst r = 0 then (0, 0)
      else
        let k = bit_len (fst r) - bit_len (snd r);
            l = (case scale 2 (- k) r of (p, q) \<Rightarrow> if q \<le> p then k else k - 1);
            e = max (l - 52) (- 1074);
            m = (case scale 2 (- e) r of (p, q) \<Rightarrow> half_even p q)
        in if m = 0 then (0, 0) else if m = 2 ^ 53 then (2 ^ 52, e + 1) else (m, e))"

definition digits_int :: "string \<Rightarrow> int" where
  "digits_int s = foldl (\<lambda>a c. a * 10 + int (byte c - 48)) 0 s"

text \<open>A literal's digits as an integer, and the power of ten it is multiplied by.\<close>

definition lit_parts :: "string \<Rightarrow> int \<times> int" where
  "lit_parts lit =
     (let s = (case lit of c # r \<Rightarrow> if c = CHR ''-'' then r else lit | [] \<Rightarrow> []);
          i = takeWhile is_digit s; r = dropWhile is_digit s;
          f = (case r of c # r' \<Rightarrow> if c = CHR ''.'' then takeWhile is_digit r' else [] | [] \<Rightarrow> []);
          e = dropWhile (\<lambda>c. c \<noteq> CHR ''e'' \<and> c \<noteq> CHR ''E'') r;
          x = (case e of
              [] \<Rightarrow> 0
            | _ # g # ds \<Rightarrow>
                if g = CHR ''-'' then - digits_int ds
                else if g = CHR ''+'' then digits_int ds
                else digits_int (g # ds)
            | _ \<Rightarrow> 0)
      in (digits_int (i @ f), x - int (length f)))"

definition round64 :: "string \<Rightarrow> float64" where
  "round64 lit = (case lit_parts lit of (d, x) \<Rightarrow> (take 1 lit = ''-'', round_ratio (scale 10 x (d, 1))))"

text \<open>\<open>ParseFloat\<close> reports a range error when the rounded value is not finite.\<close>

definition float_ok :: "string \<Rightarrow> bool" where
  "float_ok lit \<longleftrightarrow> snd (snd (round64 lit)) \<le> 971"

subsection \<open>Its text\<close>

text \<open>\<open>n\<close> decimal digits of \<open>c\<close>, and the form of the digits \<open>ds\<close> with the point \<open>dp\<close> digits from the left.\<close>

definition dec_digits :: "nat \<Rightarrow> int \<Rightarrow> string" where
  "dec_digits n c = map (\<lambda>k. ''0123456789'' ! nat (c div 10 ^ k mod 10)) (rev [0..<n])"

definition exp_text :: "int \<Rightarrow> string" where
  "exp_text x = CHR ''e'' # (if x < 0 then CHR ''-'' else CHR ''+'') # dec_digits (nat (dec_len \<bar>x\<bar>)) \<bar>x\<bar>"

definition float_form :: "string \<Rightarrow> int \<Rightarrow> string" where
  "float_form ds dp =
     (if dp < - 5 \<or> 21 < dp then
        take 1 ds @ (if length ds = 1 then [] else CHR ''.'' # drop 1 ds) @ exp_text (dp - 1)
      else if dp \<le> 0 then ''0.'' @ replicate (nat (- dp)) (CHR ''0'') @ ds
      else if int (length ds) \<le> dp then ds @ replicate (nat dp - length ds) (CHR ''0'')
      else take (nat dp) ds @ CHR ''.'' # drop (nat dp) ds)"

text \<open>
  The texts of \<open>m * 2 ^ e\<close> with \<open>n\<close> significant digits, the nearer one first; \<open>dp\<close> is the
  position of its decimal point.
\<close>

definition point_of :: "int \<times> int \<Rightarrow> int" where
  "point_of r = (let a = dec_len (fst r) - dec_len (snd r) in
     (case scale 10 (- a) r of (p, q) \<Rightarrow> if p < q then a else a + 1))"

definition texts_with :: "bool \<Rightarrow> int \<times> int \<Rightarrow> nat \<Rightarrow> string list" where
  "texts_with neg r n =
     (let dp = point_of r;
          (p, q) = scale 10 (int n - dp) r;
          lo = p div q;
          near = half_even p q;
          text = (\<lambda>c. let l = dec_len c; ds = rev (dropWhile (\<lambda>d. d = CHR ''0'') (rev (dec_digits (nat l) c)))
                      in (if neg then ''-'' else []) @ float_form ds (l + dp - int n))
      in map text (if near = lo then [lo, lo + 1] else [lo + 1, lo]))"

definition float_texts :: "float64 \<Rightarrow> string list" where
  "float_texts x = (case x of (neg, m, e) \<Rightarrow>
     if m = 0 then [(if neg then ''-'' else []) @ ''0'']
     else concat (map (texts_with neg (scale 2 e (m, 1))) [1..<18]))"

text \<open>
  The shortest text that reads as the same float, the nearest one of that length. (Seventeen
  digits always suffice; the definition does not depend on it.)
\<close>

definition float_text :: "string \<Rightarrow> string" where
  "float_text lit = (case find (\<lambda>t. round64 t = round64 lit) (float_texts (round64 lit)) of
      Some t \<Rightarrow> t | None \<Rightarrow> lit)"

lemma float_text_round: "round64 (float_text lit) = round64 lit"
  by (auto simp: float_text_def find_Some_iff split: option.split)

lemma float_text_idem: "float_text (float_text lit) = float_text lit"
proof (cases "find (\<lambda>t. round64 t = round64 lit) (float_texts (round64 lit))")
  case (Some t)
  then have "float_text lit = t" by (simp add: float_text_def)
  moreover from Some have "round64 t = round64 lit" unfolding find_Some_iff by auto
  ultimately show ?thesis using Some by (simp add: float_text_def)
qed (simp add: float_text_def)

lemma float_ok_text [simp]: "float_ok (float_text lit) = float_ok lit"
  by (simp add: float_ok_def float_text_round)

subsection \<open>Evaluation\<close>

lemmas round_eval = round64_def lit_parts_def digits_int_def is_digit_def round_ratio_def scale_def half_even_def
  Let_def bit_len.simps

lemmas text_eval = texts_with_def point_of_def dec_digits_def float_form_def exp_text_def dec_len.simps upt_rec

lemma float_text_one_digit:
  assumes "round64 lit = (neg, m, e)" and "m \<noteq> 0" and "texts_with neg (scale 2 e (m, 1)) 1 = t # ts"
    and "round64 t = (neg, m, e)"
  shows "float_text lit = t"
proof -
  have "[1..<18] = 1 # [2..<18 :: nat]" by (simp add: upt_rec)
  then show ?thesis using assms by (simp add: float_text_def float_texts_def)
qed

text \<open>Two literals, one float: an integer of more than 53 bits is not read back as it was.\<close>

lemma round64_examples:
  "round64 ''3'' = (False, 6755399441055744, - 51)" "round64 ''3.0'' = round64 ''3''"
  "round64 ''9007199254740993'' = round64 ''9007199254740992''"
  by (simp_all add: round_eval)

lemma float_text_3: "float_text ''3'' = ''3''" "float_text ''3.0'' = ''3''"
proof -
  have t: "texts_with False (scale 2 (- 51) (6755399441055744, 1)) 1 = [''3'', ''4'']" by (simp add: round_eval text_eval)
  show "float_text ''3'' = ''3''" "float_text ''3.0'' = ''3''"
    by (rule float_text_one_digit [OF _ _ t]; simp add: round64_examples)+
qed

end
