(* ===== verification/Json_Tokens.thy ===== *)
theory Json_Tokens
  imports Go_Json
begin

text \<open>
  The tokens of the values of an object, as they stand in the text. A type with a method
  \<open>UnmarshalJSON\<close> is given the token of its value, not the decoded value.
\<close>

fun raw_members :: "nat \<Rightarrow> nat \<Rightarrow> string \<Rightarrow> string list" where
  "raw_members 0 d s = []"
| "raw_members (Suc n) d s = (case skip_ws s of
      [] \<Rightarrow> []
    | c # r \<Rightarrow> (case p_str r of
          None \<Rightarrow> []
        | Some (k, s1) \<Rightarrow> (case skip_ws s1 of
            [] \<Rightarrow> []
          | c1 # r1 \<Rightarrow> (case p_value n d r1 of
              None \<Rightarrow> []
            | Some (v, s2) \<Rightarrow>
                take (length (skip_ws r1) - length s2) (skip_ws r1) #
                (case skip_ws s2 of [] \<Rightarrow> [] | c2 # r2 \<Rightarrow> if c2 = CHR '','' then raw_members n d r2 else [])))))"

definition raw_values :: "string \<Rightarrow> string list" where
  "raw_values s = (case skip_ws s of
      [] \<Rightarrow> []
    | c # r \<Rightarrow> if c = CHR ''{'' then raw_members (json_fuel s - 1) 9999 r else [])"

text \<open>There is one token for each member that is read.\<close>

lemma raw_members_length: "p_members n d s = Some (ms, r) \<Longrightarrow> length (raw_members n d s) = length ms"
proof (induction n arbitrary: s ms r)
  case (Suc n)
  then show ?case by (auto split: list.splits option.splits if_splits)
qed simp

lemma raw_values_length:
  assumes "json_parse s = Some (JObj ms)" and "ms \<noteq> []"
  shows "length (raw_values s) = length ms"
proof -
  obtain n where n: "json_fuel s = Suc n" by (simp add: json_fuel_def)
  obtain r where v: "p_value (Suc n) 10000 s = Some (JObj ms, r)"
    using assms(1) by (auto simp: json_parse_def n split: option.splits if_splits)
  obtain c u where s: "skip_ws s = c # u" using v by (auto split: list.splits)
  have "c = CHR ''{''" using v s by (auto simp: p_word_def split: if_splits list.splits)
  with v s assms(2) have "p_members n 9999 u = Some (ms, r)" by (auto split: list.splits if_splits)
  with \<open>c = CHR ''{''\<close> show ?thesis by (simp add: raw_values_def s n raw_members_length)
qed

lemma raw_members_text:
  assumes "ms \<noteq> []" and "\<forall>(k, v) \<in> set ms. valid_utf8 k \<and> json_wf v \<and> json_depth v \<le> d"
    and "2 * length (join_with (CHR '','') (map member_text ms) @ CHR ''}'' # t) + 1 \<le> n"
  shows "raw_members n d (join_with (CHR '','') (map member_text ms) @ CHR ''}'' # t) = map (\<lambda>(k, v). json_text v) ms"
  using assms
proof (induction ms arbitrary: n)
  case (Cons kv ms)
  note IH = Cons.IH and prems = Cons.prems
  obtain k v where kv: "kv = (k, v)" by fastforce
  obtain m where n: "n = Suc m" using prems(3) by (cases n) auto
  have k: "valid_utf8 k" and v: "json_wf v" "p_ok v" "json_depth v \<le> d"
    using prems(2) kv p_value_text by auto
  have q: "json_quote k @ u = DQ # (tl (json_quote k) @ u)" for u by (simp add: json_quote_def)
  have str: "p_str (tl (json_quote k) @ u) = Some (k, u)" for u by (rule p_str_quote [OF k])
  have ws: "skip_ws (json_text v @ u) = json_text v @ u" for u
    using json_text_start [OF v(1)] by (intro skip_ws_start) auto
  show ?case
  proof (cases ms)
    case Nil
    let ?w = "json_text v @ CHR ''}'' # t"
    have form: "join_with (CHR '','') (map member_text (kv # ms)) @ CHR ''}'' # t =
        DQ # (tl (json_quote k) @ CHR '':'' # ?w)"
      using Nil kv q [of "CHR '':'' # ?w"] by simp
    have "p_value m d ?w = Some (v, CHR ''}'' # t)"
      using prems(3) n v unfolding form by (intro p_okD) auto
    then show ?thesis unfolding n form by (simp add: str Nil kv ws)
  next
    case (Cons kv' ms')
    let ?u = "join_with (CHR '','') (map member_text ms) @ CHR ''}'' # t"
    let ?w = "json_text v @ CHR '','' # ?u"
    have form: "join_with (CHR '','') (map member_text (kv # ms)) @ CHR ''}'' # t =
        DQ # (tl (json_quote k) @ CHR '':'' # ?w)"
      using Cons kv q [of "CHR '':'' # ?w"] by simp
    have "p_value m d ?w = Some (v, CHR '','' # ?u)"
      using prems(3) n v unfolding form by (intro p_okD) auto
    moreover have "raw_members m d ?u = map (\<lambda>(k, v). json_text v) ms"
      using prems n Cons unfolding form by (intro IH) auto
    ultimately show ?thesis unfolding n form by (simp add: str kv ws)
  qed
qed simp

text \<open>The tokens of a written object are the texts of its values.\<close>

lemma raw_values_text:
  assumes "json_wf (JObj ms)" and "json_depth (JObj ms) \<le> 10000" and "ms \<noteq> []"
  shows "raw_values (json_text (JObj ms)) = map (\<lambda>(k, v). json_text v) ms"
proof -
  let ?u = "join_with (CHR '','') (map member_text ms) @ CHR ''}'' # []"
  have s: "json_text (JObj ms) = CHR ''{'' # ?u" by simp
  have "json_depth v \<le> 9999" if "(k, v) \<in> set ms" for k v using json_depth_member [OF that] assms(2) by linarith
  then have "\<forall>(k, v) \<in> set ms. valid_utf8 k \<and> json_wf v \<and> json_depth v \<le> 9999"
    using assms(1) by (auto simp: list_all_iff)
  from raw_members_text [OF assms(3) this, of "[]" "json_fuel (json_text (JObj ms)) - 1"]
  show ?thesis unfolding raw_values_def s by (simp add: json_fuel_def)
qed

end
