(* ===== verification/Correlation.thy ===== *)
theory Correlation
  imports Framework Go_Strings
begin

text \<open>
  \<open>correlation/correlation.go\<close>: the middleware that binds the correlation id, and reading
  the ids back. \<open>strings.Clone\<close> is the identity on string values. A \<open>nil\<close> request is \<open>None\<close>.
  \<open>new_id\<close> is the ULID \<open>newID\<close> would mint.
\<close>

definition LogKeyCorrelationID :: string where "LogKeyCorrelationID = ''correlation_id''"
definition LogKeyTraceID :: string where "LogKeyTraceID = ''trace_id''"
definition LogKeySpanID :: string where "LogKeySpanID = ''span_id''"
definition LogKeyAppInstanceID :: string where "LogKeyAppInstanceID = ''app_instance_id''"

lemmas log_keys = LogKeyCorrelationID_def LogKeyTraceID_def LogKeySpanID_def LogKeyAppInstanceID_def

definition MaxIDLength :: nat where
  "MaxIDLength = 128"

record IDs =
  CorrelationIDs :: string
  TraceIDs :: string
  SpanIDs :: string

definition id_char :: "char \<Rightarrow> bool" where
  "id_char c \<longleftrightarrow>
     (97 \<le> byte c \<and> byte c \<le> 122) \<or> (65 \<le> byte c \<and> byte c \<le> 90) \<or>
     (48 \<le> byte c \<and> byte c \<le> 57) \<or>
     c = CHR ''.'' \<or> c = CHR ''_'' \<or> c = CHR ''-''"

definition ValidID :: "string \<Rightarrow> bool" where
  "ValidID s = (if s = [] \<or> MaxIDLength < length s then False else list_all id_char s)"

definition traceIDs :: "('ctx, 'a) azugo_scheme \<Rightarrow> 'ctx \<Rightarrow> (string \<times> string) option" where
  "traceIDs A c = (let sc = span_context_of A c in
     if \<not> scValid sc then None else Some (scTraceID sc, scSpanID sc))"

definition ID :: "('ctx, 'a) azugo_scheme \<Rightarrow> 'ctx option \<Rightarrow> string" where
  "ID A ctx = (case ctx of None \<Rightarrow> []
    | Some c \<Rightarrow> (case as_string (user_value A c RequestValueName) of Some v \<Rightarrow> v | None \<Rightarrow> []))"

definition FromContext :: "('ctx, 'a) azugo_scheme \<Rightarrow> 'ctx option \<Rightarrow> IDs" where
  "FromContext A ctx = (case ctx of
      None \<Rightarrow> \<lparr>CorrelationIDs = [], TraceIDs = [], SpanIDs = []\<rparr>
    | Some c \<Rightarrow>
        let ids = \<lparr>CorrelationIDs = ID A (Some c), TraceIDs = [], SpanIDs = []\<rparr> in
        (case traceIDs A c of
           Some (tid, sid) \<Rightarrow> ids\<lparr>TraceIDs := tid, SpanIDs := sid\<rparr>
         | None \<Rightarrow> ids))"

definition RequestAppInstanceID :: "('ctx, 'a) azugo_scheme \<Rightarrow> 'ctx \<Rightarrow> string" where
  "RequestAppInstanceID A c = AppInstanceID_of (request_Value A c)"

definition Middleware ::
  "('ctx, 'a) azugo_scheme \<Rightarrow> string \<Rightarrow> ('ctx \<Rightarrow> 'ctx) \<Rightarrow> 'ctx \<Rightarrow> 'ctx" where
  "Middleware A new_id next_handler c =
     (let cid = trim_space (header_get A c HeaderCorrelationID);
          cid = (if \<not> ValidID cid then [] else cid);
          cid = (if cid = [] then request_id A c else cid);
          cid = (if cid = [] then new_id else cid);
          c = perform A (SetUserValue RequestValueName cid) c;
          c = perform A (SetHeaderAlways HeaderCorrelationID cid) c;
          fields = [zap_String LogKeyCorrelationID cid];
          fields = (case traceIDs A c of
              Some (tid, sid) \<Rightarrow> fields @ [zap_String LogKeyTraceID tid, zap_String LogKeySpanID sid]
            | None \<Rightarrow> fields);
          iid = trim_space (header_get A c HeaderAppInstanceID);
          iid = (if \<not> ValidID iid then [] else iid);
          (c, fields) = (if iid \<noteq> [] then
              (perform A (SetUserValue AppInstanceRequestValueName iid) c,
               fields @ [zap_String LogKeyAppInstanceID iid])
            else (c, fields));
          c = perform A (AddLogFields fields) c;
          c = (if span_recording A c then
              (let c = perform A (SetSpanAttribute LogKeyCorrelationID cid) c in
               if iid \<noteq> [] then perform A (SetSpanAttribute LogKeyAppInstanceID iid) c else c)
            else c)
      in next_handler c)"

text \<open>What the middleware resolves, and what it does to the context before \<open>next\<close>.\<close>

definition inbound_id :: "string \<Rightarrow> string" where
  "inbound_id h = (if ValidID (trim_space h) then trim_space h else [])"

definition resolved_cid :: "('ctx, 'a) azugo_scheme \<Rightarrow> string \<Rightarrow> 'ctx \<Rightarrow> string" where
  "resolved_cid A new_id c =
     (if inbound_id (header_get A c HeaderCorrelationID) \<noteq> []
      then inbound_id (header_get A c HeaderCorrelationID)
      else if request_id A c \<noteq> [] then request_id A c else new_id)"

definition resolved_iid :: "('ctx, 'a) azugo_scheme \<Rightarrow> 'ctx \<Rightarrow> string" where
  "resolved_iid A c = inbound_id (header_get A c HeaderAppInstanceID)"

definition middleware_calls :: "('ctx, 'a) azugo_scheme \<Rightarrow> string \<Rightarrow> 'ctx \<Rightarrow> call list" where
  "middleware_calls A new_id c =
     (let cid = resolved_cid A new_id c; iid = resolved_iid A c in
      [SetUserValue RequestValueName cid, SetHeaderAlways HeaderCorrelationID cid] @
      (if iid \<noteq> [] then [SetUserValue AppInstanceRequestValueName iid] else []) @
      [AddLogFields ([zap_String LogKeyCorrelationID cid] @
         (case traceIDs A c of
            Some (tid, sid) \<Rightarrow> [zap_String LogKeyTraceID tid, zap_String LogKeySpanID sid] | None \<Rightarrow> []) @
         (if iid \<noteq> [] then [zap_String LogKeyAppInstanceID iid] else []))] @
      (if span_recording A c then [SetSpanAttribute LogKeyCorrelationID cid] @
         (if iid \<noteq> [] then [SetSpanAttribute LogKeyAppInstanceID iid] else []) else []))"

lemma ValidID_iff:
  "ValidID s \<longleftrightarrow> 1 \<le> length s \<and> length s \<le> 128 \<and> (\<forall>c \<in> set s. id_char c)"
  by (cases s) (auto simp: ValidID_def MaxIDLength_def list_all_iff)

lemma ValidID_Nil [simp]: "\<not> ValidID []"
  by (simp add: ValidID_def)

lemma inbound_id_valid: "inbound_id h \<noteq> [] \<Longrightarrow> ValidID (inbound_id h)"
  by (auto simp: inbound_id_def split: if_splits)

lemma Middleware_eq:
  assumes "azugo_laws A"
  shows "Middleware A new_id next_handler c = next_handler (perform_all A (middleware_calls A new_id c) c)"
proof -
  note laws = azugo_rules [OF assms]
  have c: "(if (if \<not> ValidID h then [] else h) = [] then b else if \<not> ValidID h then [] else h) =
      (if ValidID h then h else b)" for h b :: string
    by auto
  show ?thesis
    by (simp add: Middleware_def middleware_calls_def Let_def laws traceIDs_def resolved_cid_def
        resolved_iid_def inbound_id_def c cong: if_cong)
qed

lemma id_char_ascii: "id_char c \<Longrightarrow> byte c < 128 \<and> \<not> is_space_rune (byte c)"
  by (auto simp: id_char_def is_space_rune_def)

lemma dropWhile_none: "\<forall>x \<in> set xs. \<not> P x \<Longrightarrow> dropWhile P xs = xs"
  by (cases xs) auto

text \<open>A valid id is what is left of it without surrounding space.\<close>

lemma trim_space_ValidID:
  assumes "ValidID s"
  shows "trim_space s = s"
proof -
  have c: "\<forall>c \<in> set s. byte c < 128 \<and> \<not> is_space_rune (byte c)"
    using assms id_char_ascii by (auto simp: ValidID_iff)
  then have r: "runes s = map (\<lambda>c. (Some (byte c), [c])) s"
    by (intro runes_ascii) (simp add: ascii_def list_all_iff)
  have "trim_pieces (runes s) = runes s"
    unfolding trim_pieces_def r using c by (subst (1 2) dropWhile_none) auto
  then show ?thesis by (simp add: trim_space_def concat_runes)
qed

lemma inbound_id_ValidID: "ValidID s \<Longrightarrow> inbound_id s = s"
  by (simp add: inbound_id_def trim_space_ValidID)

lemma value_names_differ [simp]:
  "RequestValueName \<noteq> AppInstanceRequestValueName" "AppInstanceRequestValueName \<noteq> RequestValueName"
  by (simp_all add: RequestValueName_def requestValueName_def AppInstanceRequestValueName_def
      appInstanceRequestValueName_def)

lemma log_keys_differ [simp]: "LogKeyCorrelationID \<noteq> LogKeyAppInstanceID"
  by (simp add: log_keys)

text \<open>A request nothing has bound an app instance id to yet.\<close>

definition fresh_request :: "('ctx, 'a) azugo_scheme \<Rightarrow> 'ctx \<Rightarrow> bool" where
  "fresh_request A c \<longleftrightarrow> request_Value A c AppInstanceKey = None \<and>
     user_value A c AppInstanceRequestValueName = None"

text \<open>The context the middleware passes on.\<close>

definition bound_context :: "('ctx, 'a) azugo_scheme \<Rightarrow> string \<Rightarrow> 'ctx \<Rightarrow> 'ctx" where
  "bound_context A new_id c = perform_all A (middleware_calls A new_id c) c"

lemma bound_context_same: "azugo_laws A \<Longrightarrow> same_request A c (bound_context A new_id c)"
  by (simp add: bound_context_def same_request_all)

lemma bound_context_user:
  assumes "azugo_laws A"
  shows "user_value A (bound_context A new_id c) = (if resolved_iid A c = []
     then (user_value A c)(RequestValueName \<mapsto> GoString (resolved_cid A new_id c))
     else (user_value A c)(RequestValueName \<mapsto> GoString (resolved_cid A new_id c),
       AppInstanceRequestValueName \<mapsto> GoString (resolved_iid A c)))"
  using azugo_rules [OF assms]
  by (simp add: bound_context_def middleware_calls_def Let_def)

lemma ID_bound: "azugo_laws A \<Longrightarrow> ID A (Some (bound_context A new_id c)) = resolved_cid A new_id c"
  by (simp add: ID_def bound_context_user)

lemma AppInstance_bound:
  assumes "azugo_laws A" and "fresh_request A c"
  shows "RequestAppInstanceID A (bound_context A new_id c) = resolved_iid A c"
proof -
  have "request_Value A (bound_context A new_id c) AppInstanceKey = None"
    using bound_context_same [OF assms(1), of c new_id] assms(2)
    by (simp add: same_request_def fresh_request_def)
  moreover have "request_Value A (bound_context A new_id c) (StringKey appInstanceRequestValueName) =
      (if resolved_iid A c = [] then None else Some (GoString (resolved_iid A c)))"
    using assms(2) azugo_lawsD(4) [OF assms(1)] value_names_differ
    by (simp add: bound_context_user [OF assms(1)] fresh_request_def AppInstanceRequestValueName_def)
  ultimately show ?thesis
    by (simp add: RequestAppInstanceID_def AppInstanceID_of_def string_at_def)
qed

lemma performed_bound:
  "azugo_laws A \<Longrightarrow>
   performed A (bound_context A new_id c) = performed A c @ middleware_calls A new_id c"
  by (simp add: bound_context_def performed_all)

subsection \<open>Properties\<close>

text \<open>
  C25. What the middleware binds. The correlation id of the request is the inbound header,
  trimmed, when that is a valid id; otherwise the framework's own request id, and a minted
  id only when there is none. The app instance id is the inbound header when valid and is
  never minted. If the service's own ids are valid, so is the id every request carries.
\<close>

theorem Middleware_binds:
  assumes "azugo_laws A" and "fresh_request A c"
  shows "\<exists>d. Middleware A new_id next_handler c = next_handler d \<and> same_request A c d
    \<and> ID A (Some d) =
      (if ValidID (trim_space (header_get A c HeaderCorrelationID))
       then trim_space (header_get A c HeaderCorrelationID)
       else if request_id A c \<noteq> [] then request_id A c else new_id)
    \<and> RequestAppInstanceID A d =
      (if ValidID (trim_space (header_get A c HeaderAppInstanceID))
       then trim_space (header_get A c HeaderAppInstanceID) else [])
    \<and> (ValidID (request_id A c) \<or> request_id A c = [] \<and> ValidID new_id \<longrightarrow> ValidID (ID A (Some d)))"
proof (intro exI conjI)
  let ?d = "bound_context A new_id c"
  show "Middleware A new_id next_handler c = next_handler ?d"
    by (simp add: Middleware_eq [OF assms(1)] bound_context_def)
  show "same_request A c ?d" by (rule bound_context_same [OF assms(1)])
  show "ID A (Some ?d) =
      (if ValidID (trim_space (header_get A c HeaderCorrelationID))
       then trim_space (header_get A c HeaderCorrelationID)
       else if request_id A c \<noteq> [] then request_id A c else new_id)"
    by (auto simp: ID_bound [OF assms(1)] resolved_cid_def inbound_id_def)
  show "RequestAppInstanceID A ?d =
      (if ValidID (trim_space (header_get A c HeaderAppInstanceID))
       then trim_space (header_get A c HeaderAppInstanceID) else [])"
    by (simp add: AppInstance_bound [OF assms] resolved_iid_def inbound_id_def)
  show "ValidID (request_id A c) \<or> request_id A c = [] \<and> ValidID new_id \<longrightarrow> ValidID (ID A (Some ?d))"
    by (auto simp: ID_bound [OF assms(1)] resolved_cid_def inbound_id_def)
qed

lemma fresh_sample: "fresh_request request_azugo sample_request"
  by (simp add: fresh_request_def request_azugo_def sample_request_def)

lemma Middleware_binds_witness:
  "\<exists>d. Middleware request_azugo ''01NEW'' (\<lambda>c. c) sample_request = d \<and>
     ID request_azugo (Some d) = ''corr-h1'' \<and> RequestAppInstanceID request_azugo d = []"
proof -
  have "ValidID (trim_space (header_get request_azugo sample_request HeaderCorrelationID))"
    "trim_space (header_get request_azugo sample_request HeaderCorrelationID) = ''corr-h1''"
    "\<not> ValidID (trim_space (header_get request_azugo sample_request HeaderAppInstanceID))"
    by code_simp+
  then show ?thesis
    using Middleware_binds [OF request_azugo_laws fresh_sample, of "''01NEW''" "\<lambda>c. c"] by simp
qed

text \<open>
  C26. One id on every signal. Before the next handler the middleware makes these calls, in
  this order, and no others: it binds the correlation id the request then reads back, echoes
  it as the response header, binds the app instance id when there is one, adds to the log the
  correlation id, the trace and span id of a valid span and the app instance id when there is
  one, and, when the span is recording and only then, sets the correlation id and the app
  instance id when there is one as attributes of the span. Every id is the one a handler reads
  from its context.
\<close>

theorem Middleware_signals:
  assumes "azugo_laws A" and "fresh_request A c"
  shows "\<exists>d. Middleware A new_id next_handler c = next_handler d
    \<and> performed A d = performed A c @
        [SetUserValue RequestValueName (ID A (Some d)), SetHeaderAlways HeaderCorrelationID (ID A (Some d))] @
        (if RequestAppInstanceID A d = [] then []
         else [SetUserValue AppInstanceRequestValueName (RequestAppInstanceID A d)]) @
        [AddLogFields (zap_String LogKeyCorrelationID (ID A (Some d)) #
          (case traceIDs A d of None \<Rightarrow> []
           | Some (tid, sid) \<Rightarrow> [zap_String LogKeyTraceID tid, zap_String LogKeySpanID sid]) @
          (if RequestAppInstanceID A d = [] then []
           else [zap_String LogKeyAppInstanceID (RequestAppInstanceID A d)]))] @
        (if \<not> span_recording A d then []
         else SetSpanAttribute LogKeyCorrelationID (ID A (Some d)) #
          (if RequestAppInstanceID A d = [] then []
           else [SetSpanAttribute LogKeyAppInstanceID (RequestAppInstanceID A d)]))"
proof (intro exI conjI)
  let ?d = "bound_context A new_id c"
  note ids = ID_bound [OF assms(1), of new_id c] AppInstance_bound [OF assms, of new_id]
  have same: "traceIDs A ?d = traceIDs A c" "span_recording A ?d = span_recording A c"
    using bound_context_same [OF assms(1), of c new_id] by (simp_all add: traceIDs_def same_request_def)
  show "Middleware A new_id next_handler c = next_handler ?d"
    by (simp add: Middleware_eq [OF assms(1)] bound_context_def)
  show "performed A ?d = performed A c @
        [SetUserValue RequestValueName (ID A (Some ?d)), SetHeaderAlways HeaderCorrelationID (ID A (Some ?d))] @
        (if RequestAppInstanceID A ?d = [] then []
         else [SetUserValue AppInstanceRequestValueName (RequestAppInstanceID A ?d)]) @
        [AddLogFields (zap_String LogKeyCorrelationID (ID A (Some ?d)) #
          (case traceIDs A ?d of None \<Rightarrow> []
           | Some (tid, sid) \<Rightarrow> [zap_String LogKeyTraceID tid, zap_String LogKeySpanID sid]) @
          (if RequestAppInstanceID A ?d = [] then []
           else [zap_String LogKeyAppInstanceID (RequestAppInstanceID A ?d)]))] @
        (if \<not> span_recording A ?d then []
         else SetSpanAttribute LogKeyCorrelationID (ID A (Some ?d)) #
          (if RequestAppInstanceID A ?d = [] then []
           else [SetSpanAttribute LogKeyAppInstanceID (RequestAppInstanceID A ?d)]))"
    unfolding ids same performed_bound [OF assms(1)] by (simp add: middleware_calls_def Let_def)
qed

text \<open>A recording span gets both ids.\<close>

lemma Middleware_signals_witness:
  "\<exists>d. Middleware request_azugo ''01NEW'' (\<lambda>c. c) (sample_request\<lparr>rqHeaders := [(HeaderAppInstanceID, '' app-1 '')]\<rparr>) = d \<and>
     performed request_azugo d =
       [SetUserValue RequestValueName ''01ABC'', SetHeaderAlways HeaderCorrelationID ''01ABC'',
        SetUserValue AppInstanceRequestValueName ''app-1'',
        AddLogFields [zap_String LogKeyCorrelationID ''01ABC'', zap_String LogKeyAppInstanceID ''app-1''],
        SetSpanAttribute LogKeyCorrelationID ''01ABC'', SetSpanAttribute LogKeyAppInstanceID ''app-1'']"
proof -
  let ?c = "sample_request\<lparr>rqHeaders := [(HeaderAppInstanceID, '' app-1 '')]\<rparr>"
  let ?d = "Middleware request_azugo ''01NEW'' (\<lambda>c. c) ?c"
  have f: "fresh_request request_azugo ?c" by (simp add: fresh_request_def request_azugo_def sample_request_def)
  have "ID request_azugo (Some ?d) = ''01ABC''" "RequestAppInstanceID request_azugo ?d = ''app-1''"
    "traceIDs request_azugo ?d = None" "span_recording request_azugo ?d" "performed request_azugo ?c = []"
    by code_simp+
  with Middleware_signals [OF request_azugo_laws f, of "''01NEW''" "\<lambda>c. c"] show ?thesis by auto
qed

end
