(* ===== verification/Event_Envelope.thy ===== *)
theory Event_Envelope
  imports Go_Time Go_Float Json_Tokens Correlation
begin

text \<open>
  \<open>broker/envelope.go\<close>, with \<open>Stamp\<close>, \<open>Validate\<close> and \<open>stripTokens\<close> of \<open>broker/broker.go\<close>, and
  the JSON form of an envelope.

  A map of attributes is a list of pairs with distinct keys, in the order an iteration over
  it would take; \<open>[]\<close> is the nil or empty map. An attribute value is what the code can tell
  of an \<open>any\<close>: the JSON it encodes to, or that it cannot be encoded. Reading JSON into an
  \<open>any\<close> makes a number the nearest \<open>float64\<close>, which encodes to its own shortest text, and an
  object a map, which keeps the last value of a key and is written in key order
  (\<open>decode_json\<close>); a number beyond \<open>float64\<close> fails the decoding. The categories, which are
  written without \<open>omitempty\<close>, tell the nil slice (\<open>None\<close>) from the empty one. Decoding a slice
  that occurs twice reuses its memory, as in \<open>Problem_Wire\<close>. The time stamp is read from the
  token of its value (\<open>raw_values\<close>).
\<close>

datatype goany = AnyJson json | AnyOpaque nat

record actor =
  aID :: string
  aType :: string
  aAssurance :: string

record event_resource =
  rsType :: string
  rsID :: string

record envelope =
  eEventID :: string
  eOccurredAt :: gotime
  eCorrelationID :: string
  eTraceID :: string
  eCategories :: "string list option"
  eEventType :: string
  eActor :: "actor option"
  eDataSubjects :: "string list"
  eResource :: "event_resource option"
  eOperation :: string
  eLawfulBasis :: string
  ePurpose :: string
  eOutcome :: string
  eIP :: string
  eDevice :: string
  ePrevHash :: string
  eHash :: string
  eAttributes :: "(string \<times> goany) list"

definition zero_envelope :: envelope where
  "zero_envelope = \<lparr>eEventID = [], eOccurredAt = zero_time, eCorrelationID = [], eTraceID = [],
     eCategories = None, eEventType = [], eActor = None, eDataSubjects = [], eResource = None,
     eOperation = [], eLawfulBasis = [], ePurpose = [], eOutcome = [], eIP = [], eDevice = [],
     ePrevHash = [], eHash = [], eAttributes = []\<rparr>"

definition elems :: "'a list option \<Rightarrow> 'a list" where
  "elems s = (case s of None \<Rightarrow> [] | Some xs \<Rightarrow> xs)"

lemma elems_simps [simp]: "elems None = []" "elems (Some xs) = xs"
  by (simp_all add: elems_def)

subsection \<open>Stamp, Validate, stripTokens\<close>

definition tokenKeySubstrings :: "string list" where
  "tokenKeySubstrings = [''authorization'', ''bearer'', ''token'', ''dpop'', ''proof'', ''secret'',
     ''password'', ''credential'', ''cookie'', ''api_key'', ''apikey'', ''private_key'']"

text \<open>The inner loop: does it find a fragment in the lower-cased key?\<close>

fun token_loop :: "string \<Rightarrow> string list \<Rightarrow> bool" where
  "token_loop lk [] = False"
| "token_loop lk (s # ss) = (if contains lk s then True else token_loop lk ss)"

definition map_delete :: "'k \<Rightarrow> ('k \<times> 'v) list \<Rightarrow> ('k \<times> 'v) list" where
  "map_delete k m = filter (\<lambda>(k', v). k' \<noteq> k) m"

text \<open>
  The outer loop, over the keys of \<open>attrs\<close> in some order; \<open>out\<close> is the copy, once one was
  made. The copying loop visits the same map, so the copy holds its pairs.
\<close>

fun strip_loop :: "'a unicode_tables_scheme \<Rightarrow> (string \<times> 'v) list \<Rightarrow> string list \<Rightarrow>
    (string \<times> 'v) list option \<Rightarrow> (string \<times> 'v) list option" where
  "strip_loop U attrs [] out = out"
| "strip_loop U attrs (k # ks) out =
     (let lk = to_lower U k in
      if token_loop lk tokenKeySubstrings then
        (let out = (case out of None \<Rightarrow> attrs | Some m \<Rightarrow> m)
         in strip_loop U attrs ks (Some (map_delete k out)))
      else strip_loop U attrs ks out)"

definition stripTokens :: "'a unicode_tables_scheme \<Rightarrow> (string \<times> 'v) list \<Rightarrow> (string \<times> 'v) list" where
  "stripTokens U attrs =
     (if length attrs = 0 then attrs
      else (case strip_loop U attrs (keys_of attrs) None of None \<Rightarrow> attrs | Some out \<Rightarrow> out))"

text \<open>\<open>new_id\<close> is a fresh ULID, \<open>clock\<close> the current time in UTC.\<close>

definition Stamp ::
  "'a unicode_tables_scheme \<Rightarrow> ('ctx, 'b) azugo_scheme \<Rightarrow> string \<Rightarrow> gotime \<Rightarrow> 'ctx option \<Rightarrow>
   envelope \<Rightarrow> envelope" where
  "Stamp U A new_id clock ctx ev =
     (let ev = (if eEventID ev = [] then ev\<lparr>eEventID := new_id\<rparr> else ev);
          ev = (if IsZero (eOccurredAt ev) then ev\<lparr>eOccurredAt := clock\<rparr> else ev);
          ids = FromContext A ctx;
          ev = (if eCorrelationID ev = [] then ev\<lparr>eCorrelationID := CorrelationIDs ids\<rparr> else ev);
          ev = (if eTraceID ev = [] then ev\<lparr>eTraceID := TraceIDs ids\<rparr> else ev)
      in ev\<lparr>eAttributes := stripTokens U (eAttributes ev)\<rparr>)"

text \<open>The error's message, or none.\<close>

definition Validate :: "envelope \<Rightarrow> string option" where
  "Validate ev =
     (if eEventID ev = [] then Some ''broker: envelope missing event_id''
      else if IsZero (eOccurredAt ev) then Some ''broker: envelope missing occurred_at''
      else if eEventType ev = [] then Some ''broker: envelope missing event_type''
      else if length (elems (eCategories ev)) = 0 then Some ''broker: envelope missing category''
      else if eOutcome ev = [] then Some ''broker: envelope missing outcome''
      else None)"

subsection \<open>Writing\<close>

fun any_json :: "goany \<Rightarrow> json option" where
  "any_json (AnyJson j) = Some j"
| "any_json (AnyOpaque _) = None"

fun members_json :: "(string \<times> goany) list \<Rightarrow> (string \<times> json) list option" where
  "members_json [] = Some []"
| "members_json ((k, v) # m) = (case any_json v of
      None \<Rightarrow> None
    | Some j \<Rightarrow> map_option (\<lambda>ms. (k, j) # ms) (members_json m))"

text \<open>A map is written with its keys sorted.\<close>

definition attributes_json :: "(string \<times> goany) list \<Rightarrow> (string \<times> json) list option" where
  "attributes_json m =
     (if length m = 0 then Some []
      else map_option (\<lambda>ms. [(''attributes'', JObj ms)]) (members_json (sort_key fst m)))"

definition actor_json :: "actor \<Rightarrow> json" where
  "actor_json a = JObj (opt_str_field ''id'' (aID a) @ opt_str_field ''type'' (aType a) @
     opt_str_field ''assurance'' (aAssurance a))"

definition resource_json :: "event_resource \<Rightarrow> json" where
  "resource_json r = JObj (opt_str_field ''type'' (rsType r) @ opt_str_field ''id'' (rsID r))"

definition opt_field :: "string \<Rightarrow> json option \<Rightarrow> (string \<times> json) list" where
  "opt_field k v = (case v of None \<Rightarrow> [] | Some j \<Rightarrow> [(k, j)])"

definition strs_json :: "string list \<Rightarrow> json" where
  "strs_json ss = JArr (map JStr ss)"

definition slice_json :: "string list option \<Rightarrow> json" where
  "slice_json s = (case s of None \<Rightarrow> JNull | Some ss \<Rightarrow> strs_json ss)"

definition envelope_json :: "envelope \<Rightarrow> json option" where
  "envelope_json ev = (case (time_text (eOccurredAt ev), attributes_json (eAttributes ev)) of
      (Some t, Some attrs) \<Rightarrow> Some (JObj (
        str_field ''event_id'' (eEventID ev) @ str_field ''occurred_at'' t @
        opt_str_field ''correlation_id'' (eCorrelationID ev) @ opt_str_field ''trace_id'' (eTraceID ev) @
        [(''category'', slice_json (eCategories ev))] @
        str_field ''event_type'' (eEventType ev) @
        opt_field ''actor'' (map_option actor_json (eActor ev)) @
        (if eDataSubjects ev = [] then [] else [(''data_subjects'', strs_json (eDataSubjects ev))]) @
        opt_field ''resource'' (map_option resource_json (eResource ev)) @
        opt_str_field ''operation'' (eOperation ev) @ opt_str_field ''lawful_basis'' (eLawfulBasis ev) @
        opt_str_field ''purpose'' (ePurpose ev) @ str_field ''outcome'' (eOutcome ev) @
        opt_str_field ''ip'' (eIP ev) @ opt_str_field ''device'' (eDevice ev) @
        opt_str_field ''prev_hash'' (ePrevHash ev) @ opt_str_field ''hash'' (eHash ev) @ attrs))
    | _ \<Rightarrow> None)"

definition marshal_envelope :: "envelope \<Rightarrow> string option" where
  "marshal_envelope ev = map_option json_text (envelope_json ev)"

subsection \<open>Reading\<close>

fun any_ok :: "json \<Rightarrow> bool" where
  "any_ok (JNum lit) = float_ok lit"
| "any_ok (JArr js) = list_all any_ok js"
| "any_ok (JObj ms) = list_all (\<lambda>(k, v). any_ok v) ms"
| "any_ok _ = True"

definition upsert :: "'k \<Rightarrow> 'v \<Rightarrow> ('k \<times> 'v) list \<Rightarrow> ('k \<times> 'v) list" where
  "upsert k v m = (if k \<in> fst ` set m then map (\<lambda>(k', v'). if k' = k then (k, v) else (k', v')) m
     else m @ [(k, v)])"

definition collapse :: "('k \<times> 'v) list \<Rightarrow> ('k \<times> 'v) list" where
  "collapse ms = fold (\<lambda>(k, v) m. upsert k v m) ms []"

text \<open>What the value decoded into an \<open>any\<close> encodes to.\<close>

fun decode_json :: "json \<Rightarrow> json" where
  "decode_json (JNum lit) = JNum (float_text lit)"
| "decode_json (JArr js) = JArr (map decode_json js)"
| "decode_json (JObj ms) = JObj (sort_key fst (collapse (map (\<lambda>(k, v). (k, decode_json v)) ms)))"
| "decode_json j = j"

fun read_attrs :: "(string \<times> goany) list \<Rightarrow> (string \<times> json) list \<Rightarrow> (string \<times> goany) list option" where
  "read_attrs m [] = Some m"
| "read_attrs m ((k, v) # ms) = (if any_ok v then read_attrs (upsert k (AnyJson (decode_json v)) m) ms else None)"

fun read_attributes :: "(string \<times> goany) list \<Rightarrow> json \<Rightarrow> (string \<times> goany) list option" where
  "read_attributes m (JObj ms) = read_attrs m ms"
| "read_attributes m JNull = Some []"
| "read_attributes m _ = None"

definition read_actor_field :: "actor \<Rightarrow> string \<Rightarrow> json \<Rightarrow> actor option" where
  "read_actor_field a k v =
     (if field_is ''id'' k then map_option (\<lambda>s. a\<lparr>aID := s\<rparr>) (read_str (aID a) v)
      else if field_is ''type'' k then map_option (\<lambda>s. a\<lparr>aType := s\<rparr>) (read_str (aType a) v)
      else if field_is ''assurance'' k then map_option (\<lambda>s. a\<lparr>aAssurance := s\<rparr>) (read_str (aAssurance a) v)
      else Some a)"

definition read_resource_field :: "event_resource \<Rightarrow> string \<Rightarrow> json \<Rightarrow> event_resource option" where
  "read_resource_field r k v =
     (if field_is ''type'' k then map_option (\<lambda>s. r\<lparr>rsType := s\<rparr>) (read_str (rsType r) v)
      else if field_is ''id'' k then map_option (\<lambda>s. r\<lparr>rsID := s\<rparr>) (read_str (rsID r) v)
      else Some r)"

text \<open>A pointer to a struct: \<open>null\<close> clears it, an object is read over what it points to.\<close>

fun read_pointer :: "('a \<Rightarrow> string \<Rightarrow> json \<Rightarrow> 'a option) \<Rightarrow> 'a \<Rightarrow> 'a option \<Rightarrow> json \<Rightarrow> 'a option option" where
  "read_pointer f z old (JObj ms) =
     map_option Some (read_members f (case old of None \<Rightarrow> z | Some x \<Rightarrow> x) ms)"
| "read_pointer f z old JNull = Some None"
| "read_pointer f z old _ = None"

fun read_strs :: "string list \<Rightarrow> json list \<Rightarrow> string list option" where
  "read_strs mem [] = Some []"
| "read_strs mem (j # js) =
     (case read_str (case mem of [] \<Rightarrow> [] | s # _ \<Rightarrow> s) j of
        None \<Rightarrow> None
      | Some s \<Rightarrow> map_option (\<lambda>ss. s # ss) (read_strs (tl mem) js))"

text \<open>The slice and its memory after decoding.\<close>

fun read_slice :: "string list \<Rightarrow> json \<Rightarrow> (string list \<times> string list) option" where
  "read_slice mem (JArr js) =
     (if js = [] then Some ([], [])
      else map_option (\<lambda>ss. (ss, ss @ drop (length js) mem)) (read_strs mem js))"
| "read_slice mem JNull = Some ([], [])"
| "read_slice mem _ = None"

definition read_nil_slice :: "string list \<Rightarrow> json \<Rightarrow> (string list option \<times> string list) option" where
  "read_nil_slice mem v =
     map_option (\<lambda>(x, mem). (if v = JNull then None else Some x, mem)) (read_slice mem v)"

text \<open>\<open>JStr s\<close> is here the token \<open>s\<close> between quotes.\<close>

fun read_timestamp :: "gotime \<Rightarrow> json \<Rightarrow> gotime option" where
  "read_timestamp old (JStr s) = read_time s"
| "read_timestamp old JNull = Some old"
| "read_timestamp old _ = None"

record env_state =
  esEnv :: envelope
  esCat :: "string list"
  esSub :: "string list"

definition on_env :: "env_state \<Rightarrow> (envelope \<Rightarrow> envelope) \<Rightarrow> env_state" where
  "on_env s f = s\<lparr>esEnv := f (esEnv s)\<rparr>"

definition read_envelope_field :: "env_state \<Rightarrow> string \<Rightarrow> json \<Rightarrow> env_state option" where
  "read_envelope_field s k v = (let ev = esEnv s in
     if field_is ''event_id'' k then map_option (\<lambda>x. on_env s (eEventID_update (\<lambda>_. x))) (read_str (eEventID ev) v)
     else if field_is ''occurred_at'' k then
       map_option (\<lambda>x. on_env s (eOccurredAt_update (\<lambda>_. x))) (read_timestamp (eOccurredAt ev) v)
     else if field_is ''correlation_id'' k then
       map_option (\<lambda>x. on_env s (eCorrelationID_update (\<lambda>_. x))) (read_str (eCorrelationID ev) v)
     else if field_is ''trace_id'' k then map_option (\<lambda>x. on_env s (eTraceID_update (\<lambda>_. x))) (read_str (eTraceID ev) v)
     else if field_is ''category'' k then
       map_option (\<lambda>(x, mem). (on_env s (eCategories_update (\<lambda>_. x)))\<lparr>esCat := mem\<rparr>) (read_nil_slice (esCat s) v)
     else if field_is ''event_type'' k then
       map_option (\<lambda>x. on_env s (eEventType_update (\<lambda>_. x))) (read_str (eEventType ev) v)
     else if field_is ''actor'' k then
       map_option (\<lambda>x. on_env s (eActor_update (\<lambda>_. x)))
         (read_pointer read_actor_field \<lparr>aID = [], aType = [], aAssurance = []\<rparr> (eActor ev) v)
     else if field_is ''data_subjects'' k then
       map_option (\<lambda>(x, mem). (on_env s (eDataSubjects_update (\<lambda>_. x)))\<lparr>esSub := mem\<rparr>) (read_slice (esSub s) v)
     else if field_is ''resource'' k then
       map_option (\<lambda>x. on_env s (eResource_update (\<lambda>_. x)))
         (read_pointer read_resource_field \<lparr>rsType = [], rsID = []\<rparr> (eResource ev) v)
     else if field_is ''operation'' k then
       map_option (\<lambda>x. on_env s (eOperation_update (\<lambda>_. x))) (read_str (eOperation ev) v)
     else if field_is ''lawful_basis'' k then
       map_option (\<lambda>x. on_env s (eLawfulBasis_update (\<lambda>_. x))) (read_str (eLawfulBasis ev) v)
     else if field_is ''purpose'' k then map_option (\<lambda>x. on_env s (ePurpose_update (\<lambda>_. x))) (read_str (ePurpose ev) v)
     else if field_is ''outcome'' k then map_option (\<lambda>x. on_env s (eOutcome_update (\<lambda>_. x))) (read_str (eOutcome ev) v)
     else if field_is ''ip'' k then map_option (\<lambda>x. on_env s (eIP_update (\<lambda>_. x))) (read_str (eIP ev) v)
     else if field_is ''device'' k then map_option (\<lambda>x. on_env s (eDevice_update (\<lambda>_. x))) (read_str (eDevice ev) v)
     else if field_is ''prev_hash'' k then map_option (\<lambda>x. on_env s (ePrevHash_update (\<lambda>_. x))) (read_str (ePrevHash ev) v)
     else if field_is ''hash'' k then map_option (\<lambda>x. on_env s (eHash_update (\<lambda>_. x))) (read_str (eHash ev) v)
     else if field_is ''attributes'' k then
       map_option (\<lambda>x. on_env s (eAttributes_update (\<lambda>_. x))) (read_attributes (eAttributes ev) v)
     else Some s)"

definition empty_state :: env_state where
  "empty_state = \<lparr>esEnv = zero_envelope, esCat = [], esSub = []\<rparr>"

fun read_envelope :: "json \<Rightarrow> envelope option" where
  "read_envelope (JObj ms) = map_option esEnv (read_members read_envelope_field empty_state ms)"
| "read_envelope JNull = Some zero_envelope"
| "read_envelope _ = None"

text \<open>The members of the object, with the value of the time stamp as its token.\<close>

definition as_token :: "string \<times> json \<Rightarrow> string \<Rightarrow> string \<times> json" where
  "as_token kv raw = (case kv of (k, v) \<Rightarrow>
     (k, if field_is ''occurred_at'' k then (case v of JStr _ \<Rightarrow> JStr (butlast (tl raw)) | _ \<Rightarrow> v) else v))"

fun with_tokens :: "json \<Rightarrow> string list \<Rightarrow> json" where
  "with_tokens (JObj ms) raws = JObj (map2 as_token ms raws)"
| "with_tokens j raws = j"

definition unmarshal_envelope :: "string \<Rightarrow> envelope option" where
  "unmarshal_envelope payload =
     (case json_parse payload of
        None \<Rightarrow> None
      | Some j \<Rightarrow> read_envelope (with_tokens j (raw_values payload)))"

subsection \<open>Stripping tokens\<close>

definition token_key :: "'a unicode_tables_scheme \<Rightarrow> string \<Rightarrow> bool" where
  "token_key U k \<longleftrightarrow> (\<exists>s \<in> set tokenKeySubstrings. contains (to_lower U k) s)"

lemma token_loop_iff: "token_loop lk ss \<longleftrightarrow> (\<exists>s \<in> set ss. contains lk s)"
  by (induction ss) auto

lemma token_loop_key: "token_loop (to_lower U k) tokenKeySubstrings = token_key U k"
  by (simp add: token_loop_iff token_key_def)

lemma strip_loop_eq:
  "strip_loop U attrs ks out =
     (if \<exists>k \<in> set ks. token_key U k
      then Some (filter (\<lambda>kv. \<not> (fst kv \<in> set ks \<and> token_key U (fst kv)))
        (case out of None \<Rightarrow> attrs | Some m \<Rightarrow> m))
      else out)"
proof (induction ks arbitrary: out)
  case (Cons k ks)
  let ?m = "case out of None \<Rightarrow> attrs | Some m \<Rightarrow> m"
  let ?Q = "\<lambda>ks kv. \<not> (fst kv \<in> set ks \<and> token_key U (fst kv))"
  have id: "filter (?Q ks) m = m" if "\<not> (\<exists>k \<in> set ks. token_key U k)" for m
    using that by (intro filter_True) auto
  have step: "strip_loop U attrs ks (Some m) = Some (filter (?Q ks) m)" for m
    using id by (simp add: Cons)
  show ?case
  proof (cases "token_key U k")
    case True
    have "filter (?Q ks) (map_delete k ?m) = filter (\<lambda>kv. ?Q ks kv \<and> fst kv \<noteq> k) ?m"
      by (auto simp: map_delete_def case_prod_beta' intro!: filter_cong)
    also have "\<dots> = filter (?Q (k # ks)) ?m"
      using True by (intro filter_cong refl) auto
    finally show ?thesis
      using True by (simp add: step Let_def token_loop_key del: filter_filter)
  next
    case False
    then have "filter (?Q (k # ks)) ?m = filter (?Q ks) ?m"
      by (intro filter_cong refl) auto
    with False show ?thesis by (simp add: Cons Let_def token_loop_key)
  qed
qed simp

text \<open>The loop computes a filter, in whatever order it visits the keys.\<close>

lemma stripTokens_eq: "stripTokens U attrs = filter (\<lambda>kv. \<not> token_key U (fst kv)) attrs"
proof -
  have "filter (\<lambda>kv. \<not> (fst kv \<in> set (keys_of attrs) \<and> token_key U (fst kv))) attrs =
      filter (\<lambda>kv. \<not> token_key U (fst kv)) attrs"
    by (intro filter_cong) (auto simp: keys_of_def)
  moreover have "filter (\<lambda>kv. \<not> token_key U (fst kv)) attrs = attrs"
    if "\<not> (\<exists>k \<in> set (keys_of attrs). token_key U k)"
    using that by (intro filter_True) (auto simp: keys_of_def)
  ultimately show ?thesis by (auto simp: stripTokens_def strip_loop_eq)
qed

lemma stripTokens_idem: "stripTokens U (stripTokens U attrs) = stripTokens U attrs"
  by (simp add: stripTokens_eq)

subsection \<open>Stripping by reference\<close>

text \<open>
  The same loop on a store of maps, as the code runs it: \<open>r\<close> is the caller's map, \<open>fresh\<close> the
  address \<open>make\<close> returns, and only the copy is written to.
\<close>

type_synonym map_store = "nat \<Rightarrow> (string \<times> goany) list option"

definition copy_map :: "(string \<times> goany) list \<Rightarrow> (string \<times> goany) list" where
  "copy_map attrs = fold (\<lambda>(ck, cv) out. upsert ck cv out) attrs []"

definition delete_at :: "nat \<Rightarrow> string \<Rightarrow> map_store \<Rightarrow> map_store" where
  "delete_at r k \<sigma> = \<sigma>(r := map_option (map_delete k) (\<sigma> r))"

fun strip_refs :: "'a unicode_tables_scheme \<Rightarrow> nat \<Rightarrow> (string \<times> goany) list \<Rightarrow> string list \<Rightarrow>
    nat option \<Rightarrow> map_store \<Rightarrow> nat option \<times> map_store" where
  "strip_refs U fresh attrs [] out \<sigma> = (out, \<sigma>)"
| "strip_refs U fresh attrs (k # ks) out \<sigma> =
     (let lk = to_lower U k in
      if token_loop lk tokenKeySubstrings then
        (case out of
           None \<Rightarrow> strip_refs U fresh attrs ks (Some fresh) (delete_at fresh k (\<sigma>(fresh \<mapsto> copy_map attrs)))
         | Some a \<Rightarrow> strip_refs U fresh attrs ks (Some a) (delete_at a k \<sigma>))
      else strip_refs U fresh attrs ks out \<sigma>)"

definition stripTokens_ref ::
  "'a unicode_tables_scheme \<Rightarrow> nat \<Rightarrow> nat \<Rightarrow> map_store \<Rightarrow> nat \<times> map_store" where
  "stripTokens_ref U fresh r \<sigma> =
     (case \<sigma> r of
        None \<Rightarrow> (r, \<sigma>)
      | Some attrs \<Rightarrow>
          if length attrs = 0 then (r, \<sigma>)
          else (case strip_refs U fresh attrs (keys_of attrs) None \<sigma> of
              (None, \<sigma>) \<Rightarrow> (r, \<sigma>)
            | (Some out, \<sigma>) \<Rightarrow> (out, \<sigma>)))"

lemma fold_upsert:
  "distinct (keys_of m @ keys_of attrs) \<Longrightarrow> fold (\<lambda>(ck, cv) out. upsert ck cv out) attrs m = m @ attrs"
proof (induction attrs arbitrary: m)
  case (Cons kv attrs)
  then have "fst kv \<notin> fst ` set m" by (auto simp: keys_of_def)
  then have "(case kv of (ck, cv) \<Rightarrow> upsert ck cv m) = m @ [kv]" by (cases kv) (simp add: upsert_def)
  with Cons show ?case by (cases kv) simp
qed simp

lemma copy_map_id: "distinct (keys_of attrs) \<Longrightarrow> copy_map attrs = attrs"
  using fold_upsert [of "[]" attrs] by (simp add: copy_map_def)

lemma strip_refs_Some:
  "strip_refs U fresh attrs ks (Some a) (\<sigma>(a \<mapsto> m)) =
     (Some a, \<sigma>(a := strip_loop U attrs ks (Some m)))"
  by (induction ks arbitrary: m) (simp_all add: Let_def delete_at_def)

lemma strip_refs_None:
  assumes "distinct (keys_of attrs)"
  shows "strip_refs U fresh attrs ks None \<sigma> =
     (case strip_loop U attrs ks None of
        None \<Rightarrow> (None, \<sigma>) | Some m \<Rightarrow> (Some fresh, \<sigma>(fresh \<mapsto> m)))"
proof (induction ks)
  case (Cons k ks)
  have "strip_loop U attrs ks (Some (map_delete k attrs)) \<noteq> None" by (simp add: strip_loop_eq)
  then show ?case
    using Cons by (auto simp: Let_def delete_at_def copy_map_id [OF assms] strip_refs_Some split: option.split)
qed simp

lemma stripTokens_ref_eq:
  assumes "distinct (keys_of attrs)" and "\<sigma> r = Some attrs"
  shows "stripTokens_ref U fresh r \<sigma> =
    (if \<exists>k \<in> set (keys_of attrs). token_key U k
     then (fresh, \<sigma>(fresh \<mapsto> stripTokens U attrs)) else (r, \<sigma>))"
  using assms strip_loop_eq [of U attrs "keys_of attrs" None]
  by (auto simp: stripTokens_ref_def strip_refs_None stripTokens_def)

subsection \<open>An envelope is read back\<close>

lemma env_fold_names [go_simps]:
  "fold_name ''event_id'' = ''EVENT_ID''" "fold_name ''occurred_at'' = ''OCCURRED_AT''"
  "fold_name ''correlation_id'' = ''CORRELATION_ID''" "fold_name ''trace_id'' = ''TRACE_ID''"
  "fold_name ''category'' = ''CATEGORY''" "fold_name ''event_type'' = ''EVENT_TYPE''"
  "fold_name ''actor'' = ''ACTOR''" "fold_name ''data_subjects'' = ''DATA_SUBJECTS''"
  "fold_name ''resource'' = ''RESOURCE''" "fold_name ''operation'' = ''OPERATION''"
  "fold_name ''lawful_basis'' = ''LAWFUL_BASIS''" "fold_name ''purpose'' = ''PURPOSE''"
  "fold_name ''outcome'' = ''OUTCOME''" "fold_name ''ip'' = ''IP''" "fold_name ''device'' = ''DEVICE''"
  "fold_name ''prev_hash'' = ''PREV_HASH''" "fold_name ''hash'' = ''HASH''"
  "fold_name ''attributes'' = ''ATTRIBUTES''" "fold_name ''id'' = ''ID''" "fold_name ''type'' = ''TYPE''"
  "fold_name ''assurance'' = ''ASSURANCE''"
  by code_simp+

lemma read_envelope_field_simps:
  "read_envelope_field s ''event_id'' (JStr x) = Some (on_env s (eEventID_update (\<lambda>_. x)))"
  "read_time x = Some t \<Longrightarrow>
   read_envelope_field s ''occurred_at'' (JStr x) = Some (on_env s (eOccurredAt_update (\<lambda>_. t)))"
  "read_envelope_field s ''correlation_id'' (JStr x) = Some (on_env s (eCorrelationID_update (\<lambda>_. x)))"
  "read_envelope_field s ''trace_id'' (JStr x) = Some (on_env s (eTraceID_update (\<lambda>_. x)))"
  "read_envelope_field s ''category'' v = map_option (\<lambda>(x, mem).
     (on_env s (eCategories_update (\<lambda>_. x)))\<lparr>esCat := mem\<rparr>) (read_nil_slice (esCat s) v)"
  "read_envelope_field s ''event_type'' (JStr x) = Some (on_env s (eEventType_update (\<lambda>_. x)))"
  "read_envelope_field s ''actor'' v = map_option (\<lambda>x. on_env s (eActor_update (\<lambda>_. x)))
     (read_pointer read_actor_field \<lparr>aID = [], aType = [], aAssurance = []\<rparr> (eActor (esEnv s)) v)"
  "read_envelope_field s ''data_subjects'' v = map_option (\<lambda>(x, mem).
     (on_env s (eDataSubjects_update (\<lambda>_. x)))\<lparr>esSub := mem\<rparr>) (read_slice (esSub s) v)"
  "read_envelope_field s ''resource'' v = map_option (\<lambda>x. on_env s (eResource_update (\<lambda>_. x)))
     (read_pointer read_resource_field \<lparr>rsType = [], rsID = []\<rparr> (eResource (esEnv s)) v)"
  by (simp_all add: read_envelope_field_def field_is_def env_fold_names Let_def)

lemma read_envelope_field_simps2:
  "read_envelope_field s ''operation'' (JStr x) = Some (on_env s (eOperation_update (\<lambda>_. x)))"
  "read_envelope_field s ''lawful_basis'' (JStr x) = Some (on_env s (eLawfulBasis_update (\<lambda>_. x)))"
  "read_envelope_field s ''purpose'' (JStr x) = Some (on_env s (ePurpose_update (\<lambda>_. x)))"
  "read_envelope_field s ''outcome'' (JStr x) = Some (on_env s (eOutcome_update (\<lambda>_. x)))"
  "read_envelope_field s ''ip'' (JStr x) = Some (on_env s (eIP_update (\<lambda>_. x)))"
  "read_envelope_field s ''device'' (JStr x) = Some (on_env s (eDevice_update (\<lambda>_. x)))"
  "read_envelope_field s ''prev_hash'' (JStr x) = Some (on_env s (ePrevHash_update (\<lambda>_. x)))"
  "read_envelope_field s ''hash'' (JStr x) = Some (on_env s (eHash_update (\<lambda>_. x)))"
  "read_envelope_field s ''attributes'' v = map_option (\<lambda>x. on_env s (eAttributes_update (\<lambda>_. x)))
     (read_attributes (eAttributes (esEnv s)) v)"
  by (simp_all add: read_envelope_field_def field_is_def env_fold_names Let_def)

lemma read_actor_json:
  "read_pointer read_actor_field \<lparr>aID = [], aType = [], aAssurance = []\<rparr> None (actor_json a) = Some (Some a)"
  using read_opt_str [of read_actor_field _ "''assurance''" "aAssurance a" "[]"]
  by (cases a) (simp add: actor_json_def read_fields read_actor_field_def field_is_def env_fold_names)

lemma read_resource_json:
  "read_pointer read_resource_field \<lparr>rsType = [], rsID = []\<rparr> None (resource_json r) = Some (Some r)"
  using read_opt_str [of read_resource_field _ "''id''" "rsID r" "[]"]
  by (cases r) (simp add: resource_json_def read_fields read_resource_field_def field_is_def env_fold_names)

lemma read_strs_json: "read_strs [] (map JStr ss) = Some ss"
  by (induction ss) auto

lemma read_slice_json: "ss \<noteq> [] \<Longrightarrow> read_slice [] (strs_json ss) = Some (ss, ss)"
  by (simp add: strs_json_def read_strs_json)

lemma read_nil_slice_json: "read_nil_slice [] (slice_json s) = Some (s, elems s)"
  by (cases s; cases "elems s = []") (auto simp: read_nil_slice_def slice_json_def read_slice_json, simp_all add: strs_json_def)

lemma read_opt_field:
  "read_members f x (opt_field k v @ ms) = (case v of
      None \<Rightarrow> read_members f x ms
    | Some j \<Rightarrow> (case f x k j of None \<Rightarrow> None | Some y \<Rightarrow> read_members f y ms))"
  by (simp add: opt_field_def split: option.split)

text \<open>Attributes whose values are JSON that an \<open>any\<close> can take back.\<close>

fun any_wf :: "goany \<Rightarrow> bool" where
  "any_wf (AnyJson j) \<longleftrightarrow> json_wf j \<and> any_ok j \<and> json_depth j \<le> 9000"
| "any_wf (AnyOpaque _) \<longleftrightarrow> False"

definition attrs_wf :: "(string \<times> goany) list \<Rightarrow> bool" where
  "attrs_wf m \<longleftrightarrow> distinct (keys_of m) \<and> list_all (\<lambda>(k, v). valid_utf8 k \<and> any_wf v) m"

lemma members_json_wf:
  "list_all (\<lambda>(k, v). valid_utf8 k \<and> any_wf v) m \<Longrightarrow>
   \<exists>ms. members_json m = Some ms \<and> m = map (\<lambda>(k, j). (k, AnyJson j)) ms \<and>
     list_all (\<lambda>(k, j). valid_utf8 k \<and> json_wf j \<and> any_ok j \<and> json_depth j \<le> 9000) ms"
proof (induction m)
  case (Cons kv m)
  obtain k v where kv: "kv = (k, v)" by fastforce
  with Cons.prems obtain j where "v = AnyJson j" by (cases v) auto
  with Cons kv show ?case by (auto intro: exI [of _ "(k, j) # _"])
qed simp

text \<open>An attribute after it was encoded and decoded.\<close>

fun decode_any :: "goany \<Rightarrow> goany" where
  "decode_any (AnyJson j) = AnyJson (decode_json j)"
| "decode_any (AnyOpaque n) = AnyOpaque n"

definition decoded_attrs :: "(string \<times> goany) list \<Rightarrow> (string \<times> goany) list" where
  "decoded_attrs m = sort_key fst (map (\<lambda>(k, v). (k, decode_any v)) m)"

definition as_decoded :: "envelope \<Rightarrow> envelope" where
  "as_decoded ev = ev\<lparr>eAttributes := decoded_attrs (eAttributes ev)\<rparr>"

lemma as_decoded_fields [simp]:
  "eEventID (as_decoded ev) = eEventID ev" "eOccurredAt (as_decoded ev) = eOccurredAt ev"
  "eCorrelationID (as_decoded ev) = eCorrelationID ev" "eTraceID (as_decoded ev) = eTraceID ev"
  "eCategories (as_decoded ev) = eCategories ev" "eEventType (as_decoded ev) = eEventType ev"
  "eOutcome (as_decoded ev) = eOutcome ev" "eAttributes (as_decoded ev) = decoded_attrs (eAttributes ev)"
  by (simp_all add: as_decoded_def)

lemma Validate_as_decoded [simp]: "Validate (as_decoded ev) = Validate ev"
  by (simp add: Validate_def)

lemma sort_key_map_snd: "sort_key fst (map (\<lambda>(k, v). (k, f v)) m) = map (\<lambda>(k, v). (k, f v)) (sort_key fst m)"
proof -
  have ins: "insort_key fst (case x of (k, v) \<Rightarrow> (k, f v)) (map (\<lambda>(k, v). (k, f v)) xs) =
      map (\<lambda>(k, v). (k, f v)) (insort_key fst x xs)" for x xs
    by (induction xs) (auto split: prod.splits)
  show ?thesis by (induction m) (simp_all add: ins)
qed

lemma read_attrs_members:
  "distinct (keys_of m @ keys_of ms) \<Longrightarrow> list_all (\<lambda>(k, j). any_ok j) ms \<Longrightarrow>
   read_attrs m ms = Some (m @ map (\<lambda>(k, j). (k, AnyJson (decode_json j))) ms)"
proof (induction ms arbitrary: m)
  case (Cons kj ms)
  obtain k j where kj: "kj = (k, j)" by fastforce
  with Cons.prems(1) have "k \<notin> fst ` set m" by (auto simp: keys_of_def)
  with Cons kj show ?case by (auto simp: upsert_def keys_of_def)
qed simp

lemma keys_sort: "distinct (keys_of (sort_key fst m)) = distinct (keys_of m)"
  unfolding keys_of_def by (metis mset_map mset_sort mset_eq_imp_distinct_iff)

lemma attributes_written:
  assumes "attrs_wf m" and "m \<noteq> []"
  obtains ms where "attributes_json m = Some [(''attributes'', JObj ms)]"
    and "read_attributes [] (JObj ms) = Some (decoded_attrs m)"
    and "list_all (\<lambda>(k, j). valid_utf8 k \<and> json_wf j \<and> any_ok j \<and> json_depth j \<le> 9000) ms"
proof -
  have "list_all (\<lambda>(k, v). valid_utf8 k \<and> any_wf v) (sort_key fst m)"
    using assms(1) by (simp add: attrs_wf_def list_all_iff)
  from members_json_wf [OF this] obtain ms where ms: "members_json (sort_key fst m) = Some ms"
    "sort_key fst m = map (\<lambda>(k, j). (k, AnyJson j)) ms"
    "list_all (\<lambda>(k, j). valid_utf8 k \<and> json_wf j \<and> any_ok j \<and> json_depth j \<le> 9000) ms"
    by blast
  have "keys_of (sort_key fst m) = keys_of ms"
    unfolding ms(2) by (simp add: keys_of_def case_prod_beta')
  then have "distinct (keys_of ms)"
    using assms(1) keys_sort [of m] by (simp add: attrs_wf_def)
  then have "read_attrs [] ms = Some (map (\<lambda>(k, j). (k, AnyJson (decode_json j))) ms)"
    using ms(3) read_attrs_members [of "[]" ms] by (auto simp: list_all_iff)
  moreover have "map (\<lambda>(k, j). (k, AnyJson (decode_json j))) ms = decoded_attrs m"
    unfolding decoded_attrs_def sort_key_map_snd ms(2) by auto
  ultimately have "read_attrs [] ms = Some (decoded_attrs m)" by simp
  with ms assms(2) show thesis by (intro that [of ms]) (simp_all add: attributes_json_def)
qed

definition time_wf :: "gotime \<Rightarrow> bool" where
  "time_wf t \<longleftrightarrow> time_ok t \<and> 0 \<le> tYear t \<and> tYear t \<le> 9999 \<and> \<bar>tOff t\<bar> < 86400 \<and> tOff t mod 60 = 0"

lemma time_wf_text: "time_wf t \<Longrightarrow> \<exists>s. time_text t = Some s \<and> read_time s = Some t"
  using read_time_text [of t] by (auto simp: time_wf_def time_text_def)

lemma ascii_digit: "is_digit c \<Longrightarrow> byte c < 128"
  by (simp add: is_digit_def)

lemma ascii_digits: "list_all is_digit s \<Longrightarrow> ascii s"
  by (auto simp: ascii_def list_all_iff ascii_digit)

lemma ascii_time_text: "time_text t = Some s \<Longrightarrow> ascii s"
proof -
  have p: "ascii (pad2 n)" "ascii (pad4 n)" "ascii (pad9 n)" for n
    using digits_of_facts by (simp_all add: pad_digits ascii_digits)
  have "ascii (strip_zeros (pad9 n))" for n
    by (rule ascii_digits) (use digits_of_facts [of 9 n] in \<open>simp add: pad_digits strip_zeros_digits\<close>)
  then show "time_text t = Some s \<Longrightarrow> ascii s"
    by (auto simp: time_text_def frac_text_def zone_text_def Let_def p split: if_splits)
qed

definition envelope_wf :: "envelope \<Rightarrow> bool" where
  "envelope_wf ev \<longleftrightarrow> time_wf (eOccurredAt ev) \<and> attrs_wf (eAttributes ev) \<and>
     list_all valid_utf8 ([eEventID ev, eCorrelationID ev, eTraceID ev, eEventType ev, eOperation ev,
       eLawfulBasis ev, ePurpose ev, eOutcome ev, eIP ev, eDevice ev, ePrevHash ev, eHash ev] @
       elems (eCategories ev) @ eDataSubjects ev) \<and>
     (case eActor ev of None \<Rightarrow> True | Some a \<Rightarrow> list_all valid_utf8 [aID a, aType a, aAssurance a]) \<and>
     (case eResource ev of None \<Rightarrow> True | Some r \<Rightarrow> list_all valid_utf8 [rsType r, rsID r])"

text \<open>
  One field of the envelope at a time: a field still at its zero value is set to what was
  written, also where \<open>omitempty\<close> left it out.
\<close>

lemma on_env_simps [simp]:
  "esEnv (on_env s f) = f (esEnv s)" "esCat (on_env s f) = esCat s" "esSub (on_env s f) = esSub s"
  by (simp_all add: on_env_def)

lemma on_env_same: "f (esEnv s) = esEnv s \<Longrightarrow> on_env s f = s"
  by (simp add: on_env_def)

lemma read_opt_env:
  assumes "\<And>x. read_envelope_field s k (JStr x) = Some (g x)" and "g [] = s"
  shows "read_members read_envelope_field s (opt_str_field k x @ ms) = read_members read_envelope_field (g x) ms"
  using assms by (cases "x = []") (simp_all add: read_opt_str)

lemma read_env_strings:
  "eCorrelationID (esEnv s) = [] \<Longrightarrow> read_members read_envelope_field s (opt_str_field ''correlation_id'' x @ ms) =
     read_members read_envelope_field (on_env s (eCorrelationID_update (\<lambda>_. x))) ms"
  "eTraceID (esEnv s) = [] \<Longrightarrow> read_members read_envelope_field s (opt_str_field ''trace_id'' x @ ms) =
     read_members read_envelope_field (on_env s (eTraceID_update (\<lambda>_. x))) ms"
  "eOperation (esEnv s) = [] \<Longrightarrow> read_members read_envelope_field s (opt_str_field ''operation'' x @ ms) =
     read_members read_envelope_field (on_env s (eOperation_update (\<lambda>_. x))) ms"
  "eLawfulBasis (esEnv s) = [] \<Longrightarrow> read_members read_envelope_field s (opt_str_field ''lawful_basis'' x @ ms) =
     read_members read_envelope_field (on_env s (eLawfulBasis_update (\<lambda>_. x))) ms"
  "ePurpose (esEnv s) = [] \<Longrightarrow> read_members read_envelope_field s (opt_str_field ''purpose'' x @ ms) =
     read_members read_envelope_field (on_env s (ePurpose_update (\<lambda>_. x))) ms"
  "eIP (esEnv s) = [] \<Longrightarrow> read_members read_envelope_field s (opt_str_field ''ip'' x @ ms) =
     read_members read_envelope_field (on_env s (eIP_update (\<lambda>_. x))) ms"
  "eDevice (esEnv s) = [] \<Longrightarrow> read_members read_envelope_field s (opt_str_field ''device'' x @ ms) =
     read_members read_envelope_field (on_env s (eDevice_update (\<lambda>_. x))) ms"
  "ePrevHash (esEnv s) = [] \<Longrightarrow> read_members read_envelope_field s (opt_str_field ''prev_hash'' x @ ms) =
     read_members read_envelope_field (on_env s (ePrevHash_update (\<lambda>_. x))) ms"
  "eHash (esEnv s) = [] \<Longrightarrow> read_members read_envelope_field s (opt_str_field ''hash'' x @ ms) =
     read_members read_envelope_field (on_env s (eHash_update (\<lambda>_. x))) ms"
  by (rule read_opt_env, simp_all add: read_envelope_field_simps read_envelope_field_simps2 on_env_same)+

lemma read_env_parts:
  "esCat s = [] \<Longrightarrow> read_members read_envelope_field s
       ((''category'', slice_json cs) # ms) =
     read_members read_envelope_field ((on_env s (eCategories_update (\<lambda>_. cs)))\<lparr>esCat := elems cs\<rparr>) ms"
  "eDataSubjects (esEnv s) = [] \<Longrightarrow> esSub s = [] \<Longrightarrow> read_members read_envelope_field s
       ((if ds = [] then [] else [(''data_subjects'', strs_json ds)]) @ ms) =
     read_members read_envelope_field ((on_env s (eDataSubjects_update (\<lambda>_. ds)))\<lparr>esSub := ds\<rparr>) ms"
  "eActor (esEnv s) = None \<Longrightarrow> read_members read_envelope_field s
       (opt_field ''actor'' (map_option actor_json a) @ ms) =
     read_members read_envelope_field (on_env s (eActor_update (\<lambda>_. a))) ms"
  "eResource (esEnv s) = None \<Longrightarrow> read_members read_envelope_field s
       (opt_field ''resource'' (map_option resource_json r) @ ms) =
     read_members read_envelope_field (on_env s (eResource_update (\<lambda>_. r))) ms"
     apply (simp add: read_envelope_field_simps read_nil_slice_json)
    apply (cases "ds = []"; cases s; simp add: read_envelope_field_simps read_slice_json on_env_same)
   apply (cases a; simp add: read_opt_field read_envelope_field_simps read_actor_json on_env_same)
  apply (cases r; simp add: read_opt_field read_envelope_field_simps read_resource_json on_env_same)
  done

lemmas read_env_steps = read_str_field read_env_strings read_env_parts read_envelope_field_simps(1,2,6)
  read_envelope_field_simps2(4)

definition written_attrs :: "(string \<times> goany) list \<Rightarrow> (string \<times> json) list" where
  "written_attrs m = (case attributes_json m of Some ms \<Rightarrow> ms | None \<Rightarrow> [])"

lemma read_written_attrs:
  assumes "attrs_wf m" and "eAttributes (esEnv s) = []"
  shows "read_members read_envelope_field s (written_attrs m) =
    Some (on_env s (eAttributes_update (\<lambda>_. decoded_attrs m)))"
proof (cases "m = []")
  case True
  with assms(2) show ?thesis by (simp add: written_attrs_def attributes_json_def on_env_same decoded_attrs_def)
next
  case False
  obtain ms where "attributes_json m = Some [(''attributes'', JObj ms)]"
    and "read_attributes [] (JObj ms) = Some (decoded_attrs m)"
    using attributes_written [OF assms(1) False] by blast
  with assms(2) show ?thesis by (simp add: written_attrs_def read_envelope_field_simps2)
qed

lemma attributes_json_written: "attrs_wf m \<Longrightarrow> attributes_json m = Some (written_attrs m)"
proof (cases "m = []")
  case False
  assume "attrs_wf m"
  from attributes_written [OF this False] obtain ms where "attributes_json m = Some ms" by blast
  then show ?thesis by (simp add: written_attrs_def)
qed (simp add: written_attrs_def attributes_json_def)

definition written_members :: "string \<Rightarrow> envelope \<Rightarrow> (string \<times> json) list" where
  "written_members t ev =
        str_field ''event_id'' (eEventID ev) @ str_field ''occurred_at'' t @
        opt_str_field ''correlation_id'' (eCorrelationID ev) @ opt_str_field ''trace_id'' (eTraceID ev) @
        [(''category'', slice_json (eCategories ev))] @
        str_field ''event_type'' (eEventType ev) @
        opt_field ''actor'' (map_option actor_json (eActor ev)) @
        (if eDataSubjects ev = [] then [] else [(''data_subjects'', strs_json (eDataSubjects ev))]) @
        opt_field ''resource'' (map_option resource_json (eResource ev)) @
        opt_str_field ''operation'' (eOperation ev) @ opt_str_field ''lawful_basis'' (eLawfulBasis ev) @
        opt_str_field ''purpose'' (ePurpose ev) @ str_field ''outcome'' (eOutcome ev) @
        opt_str_field ''ip'' (eIP ev) @ opt_str_field ''device'' (eDevice ev) @
        opt_str_field ''prev_hash'' (ePrevHash ev) @ opt_str_field ''hash'' (eHash ev) @
        written_attrs (eAttributes ev)"

lemma envelope_json_written:
  "attrs_wf (eAttributes ev) \<Longrightarrow> time_text (eOccurredAt ev) = Some t \<Longrightarrow>
   envelope_json ev = Some (JObj (written_members t ev))"
  by (simp add: envelope_json_def attributes_json_written written_members_def)

lemma read_written_members:
  assumes "attrs_wf (eAttributes ev)" and "read_time t = Some (eOccurredAt ev)"
  shows "\<exists>s. read_members read_envelope_field empty_state (written_members t ev) = Some s \<and>
    esEnv s = as_decoded ev"
  unfolding written_members_def
  using assms(2)
  by (simp add: read_env_steps read_written_attrs [OF assms(1)] empty_state_def zero_envelope_def as_decoded_def
      split del: if_split del: read_members.simps)

abbreviation member_wf :: "string \<times> json \<Rightarrow> bool" where
  "member_wf \<equiv> \<lambda>(k, v). valid_utf8 k \<and> json_wf v"

lemma utf8_names [simp]:
  "valid_utf8 ''event_id''" "valid_utf8 ''occurred_at''" "valid_utf8 ''correlation_id''"
  "valid_utf8 ''trace_id''" "valid_utf8 ''category''" "valid_utf8 ''event_type''" "valid_utf8 ''actor''"
  "valid_utf8 ''data_subjects''" "valid_utf8 ''resource''" "valid_utf8 ''operation''"
  "valid_utf8 ''lawful_basis''" "valid_utf8 ''purpose''" "valid_utf8 ''outcome''" "valid_utf8 ''ip''"
  "valid_utf8 ''device''" "valid_utf8 ''prev_hash''" "valid_utf8 ''hash''" "valid_utf8 ''attributes''"
  "valid_utf8 ''id''" "valid_utf8 ''type''" "valid_utf8 ''assurance''"
  by (rule ascii_valid_utf8, simp add: ascii_def)+

lemma json_wf_strs: "list_all valid_utf8 ss \<Longrightarrow> json_wf (strs_json ss)"
  by (simp add: strs_json_def list_all_iff)

lemma wf_opt_field:
  "list_all member_wf (opt_field k v) \<longleftrightarrow>
     (case v of None \<Rightarrow> True | Some j \<Rightarrow> valid_utf8 k \<and> json_wf j)"
  by (simp add: opt_field_def split: option.split)

lemma wf_written_attrs: "attrs_wf m \<Longrightarrow> list_all member_wf (written_attrs m)"
proof (cases "m = []")
  case False
  assume "attrs_wf m"
  from attributes_written [OF this False] obtain ms where
    "attributes_json m = Some [(''attributes'', JObj ms)]"
    "list_all (\<lambda>(k, j). valid_utf8 k \<and> json_wf j \<and> any_ok j \<and> json_depth j \<le> 9000) ms" by blast
  then show ?thesis by (auto simp: written_attrs_def list_all_iff)
qed (simp add: written_attrs_def attributes_json_def)

lemma wf_data_subjects:
  "list_all valid_utf8 ds \<Longrightarrow> list_all member_wf (if ds = [] then [] else [(''data_subjects'', strs_json ds)])"
  by (simp add: json_wf_strs)

lemma wf_written_members:
  assumes "envelope_wf ev" and "ascii t"
  shows "list_all member_wf (written_members t ev)"
proof -
  have a: "json_wf (actor_json x)" if "eActor ev = Some x" for x
    using assms(1) that by (simp add: envelope_wf_def actor_json_def)
  have r: "json_wf (resource_json x)" if "eResource ev = Some x" for x
    using assms(1) that by (simp add: envelope_wf_def resource_json_def)
  have "list_all member_wf (opt_field ''actor'' (map_option actor_json (eActor ev)))"
    "list_all member_wf (opt_field ''resource'' (map_option resource_json (eResource ev)))"
    using a r by (simp_all add: wf_opt_field split: option.split)
  moreover have "list_all member_wf (written_attrs (eAttributes ev))"
    using assms(1) by (intro wf_written_attrs) (simp add: envelope_wf_def)
  moreover have "json_wf (slice_json (eCategories ev))" "list_all valid_utf8 (eDataSubjects ev)"
    using assms(1) by (auto simp: envelope_wf_def slice_json_def json_wf_strs split: option.split)
  ultimately show ?thesis
    using assms ascii_valid_utf8 [OF assms(2)] wf_data_subjects
    by (simp add: written_members_def envelope_wf_def)
qed

lemma depth_strs: "json_depth (strs_json ss) \<le> 1"
  unfolding strs_json_def One_nat_def by (intro json_depth_JArr) auto

lemma depth_actor: "json_depth (actor_json a) \<le> 1"
  unfolding actor_json_def One_nat_def by (intro json_depth_JObj) (auto simp: field_defs)

lemma depth_resource: "json_depth (resource_json r) \<le> 1"
  unfolding resource_json_def One_nat_def by (intro json_depth_JObj) (auto simp: field_defs)

abbreviation shallow :: "string \<times> json \<Rightarrow> bool" where
  "shallow \<equiv> \<lambda>(k, v). json_depth v \<le> 9001"

lemma shallow_fields [simp]:
  "list_all shallow (opt_str_field k s)" "list_all shallow (str_field k s)"
  by (simp_all add: field_defs)

lemma shallow_opt_field:
  "list_all shallow (opt_field k v) \<longleftrightarrow> (case v of None \<Rightarrow> True | Some j \<Rightarrow> json_depth j \<le> 9001)"
  by (simp add: opt_field_def split: option.split)

lemma shallow_parts:
  "json_depth (slice_json s) \<le> 9001"
  "list_all shallow (if cs = [] then [] else [(k, strs_json cs)])"
  "list_all shallow (opt_field k (map_option actor_json a))"
  "list_all shallow (opt_field k (map_option resource_json r))"
  using depth_strs [of cs] depth_strs [of "elems s"] le_trans [OF depth_actor, of 9001] le_trans [OF depth_resource, of 9001]
  by (auto simp: shallow_opt_field slice_json_def split: option.split)

lemma shallow_written_attrs: "attrs_wf m \<Longrightarrow> list_all shallow (written_attrs m)"
proof (cases "m = []")
  case False
  assume w: "attrs_wf m"
  from attributes_written [OF w False] obtain ms where
    ms: "attributes_json m = Some [(''attributes'', JObj ms)]"
    "list_all (\<lambda>(k, j). valid_utf8 k \<and> json_wf j \<and> any_ok j \<and> json_depth j \<le> 9000) ms" by blast
  have "json_depth (JObj ms) \<le> Suc 9000"
    using ms(2) by (intro json_depth_JObj) (auto simp: list_all_iff)
  with ms(1) show ?thesis by (simp add: written_attrs_def)
qed (simp add: written_attrs_def attributes_json_def)

lemma depth_written_members:
  assumes "attrs_wf (eAttributes ev)"
  shows "json_depth (JObj (written_members t ev)) \<le> 9002"
proof -
  have "list_all shallow (written_members t ev)"
    using shallow_written_attrs [OF assms]
    by (simp only: written_members_def list_all_append shallow_fields shallow_parts list.pred_inject
        prod.case simp_thms)
  then have "json_depth (JObj (written_members t ev)) \<le> Suc 9001"
    by (intro json_depth_JObj) (auto simp: list_all_iff)
  then show ?thesis by simp
qed

text \<open>The token of the time stamp is its text in quotes; the other members do not depend on theirs.\<close>

definition time_char :: "char \<Rightarrow> bool" where
  "time_char c \<longleftrightarrow> is_digit c \<or> c \<in> set ''-:T.Z+''"

lemma time_char_time_text: "time_text t = Some s \<Longrightarrow> list_all time_char s"
proof -
  have d: "list_all is_digit s \<Longrightarrow> list_all time_char s" for s by (auto simp: time_char_def list_all_iff)
  have p: "list_all time_char (pad2 n)" "list_all time_char (pad4 n)" for n
    using digits_of_facts by (simp_all add: pad_digits d)
  have c: "time_char (CHR ''-'')" "time_char (CHR '':'')" "time_char (CHR ''T'')" "time_char (CHR ''.'')"
    "time_char (CHR ''Z'')" "time_char (CHR ''+'')" by (simp_all add: time_char_def)
  have "list_all time_char (strip_zeros (pad9 n))" for n
    by (rule d) (use digits_of_facts [of 9 n] in \<open>simp add: pad_digits strip_zeros_digits\<close>)
  then have f: "list_all time_char (frac_text n)" for n by (simp add: frac_text_def c)
  have z: "list_all time_char (zone_text n)" for n by (simp add: zone_text_def Let_def p c)
  assume "time_text t = Some s"
  then show ?thesis by (simp add: time_text_def p c f z split: if_splits) (auto simp: p c f z)
qed

lemma quote_time_char: "time_char c \<Longrightarrow> byte c < 128 \<and> quote_piece (Some (byte c), [c]) = [c]"
  by (auto simp: time_char_def is_digit_def)

lemma json_quote_time:
  assumes "list_all time_char s"
  shows "json_quote s = DQ # s @ [DQ]"
proof -
  have c: "\<forall>c \<in> set s. byte c < 128 \<and> quote_piece (Some (byte c), [c]) = [c]"
    using assms quote_time_char by (auto simp: list_all_iff)
  then have "runes s = map (\<lambda>c. (Some (byte c), [c])) s" by (intro runes_ascii) (simp add: ascii_def list_all_iff)
  moreover have "concat (map (\<lambda>c. quote_piece (Some (byte c), [c])) s) = s"
    using c by (induction s) auto
  ultimately show ?thesis by (simp add: json_quote_def comp_def del: quote_piece.simps)
qed

abbreviation token_same :: "string \<times> json \<Rightarrow> bool" where
  "token_same \<equiv> \<lambda>kv. as_token kv (json_text (snd kv)) = kv"

lemma token_same_other: "\<not> field_is ''occurred_at'' (fst kv) \<Longrightarrow> token_same kv"
  by (cases kv) (simp add: as_token_def)

lemma token_same_fields:
  "\<not> field_is ''occurred_at'' k \<Longrightarrow> list_all token_same (opt_str_field k s)"
  "\<not> field_is ''occurred_at'' k \<Longrightarrow> list_all token_same (str_field k s)"
  "\<not> field_is ''occurred_at'' k \<Longrightarrow> list_all token_same (opt_field k v)"
  "\<not> field_is ''occurred_at'' k \<Longrightarrow> list_all token_same (if b then [] else [(k, x)])"
  "\<not> field_is ''occurred_at'' k \<Longrightarrow> list_all token_same [(k, x)]"
  by (simp_all add: field_defs opt_field_def as_token_def split: option.split)

lemma token_same_time: "list_all time_char t \<Longrightarrow> list_all token_same (str_field ''occurred_at'' t)"
  by (simp add: str_field_def as_token_def json_quote_time butlast_append)

lemma token_same_attrs: "list_all token_same (written_attrs m)"
proof -
  have "\<not> field_is ''occurred_at'' ''attributes''" by (simp add: field_is_def env_fold_names)
  then show ?thesis
    by (auto simp: written_attrs_def attributes_json_def as_token_def split: option.split)
qed

lemma with_tokens_written:
  assumes "list_all time_char t"
  shows "with_tokens (JObj (written_members t ev)) (map (\<lambda>(k, v). json_text v) (written_members t ev)) =
    JObj (written_members t ev)"
proof -
  have n: "\<not> field_is ''occurred_at'' k" if "k \<in> {''event_id'', ''correlation_id'', ''trace_id'', ''category'', ''event_type'',
    ''actor'', ''data_subjects'', ''resource'', ''operation'', ''lawful_basis'', ''purpose'', ''outcome'', ''ip'', ''device'',
    ''prev_hash'', ''hash''}" for k
    using that by (auto simp: field_is_def env_fold_names)
  have "list_all token_same (written_members t ev)"
    unfolding written_members_def
    by (simp only: list_all_append token_same_time [OF assms] token_same_attrs simp_thms)
       (intro conjI token_same_fields n; simp)
  then have "map2 as_token ms (map (\<lambda>(k, v). json_text v) ms) = ms" if "ms = written_members t ev" for ms
    unfolding that [symmetric] by (induction ms) (auto simp: case_prod_beta')
  then show ?thesis by simp
qed

lemma marshal_unmarshal:
  assumes "envelope_wf ev"
  shows "\<exists>payload. marshal_envelope ev = Some payload \<and>
    unmarshal_envelope payload = Some (as_decoded ev)"
proof -
  have aw: "attrs_wf (eAttributes ev)" and tw: "time_wf (eOccurredAt ev)"
    using assms by (simp_all add: envelope_wf_def)
  obtain t where t: "time_text (eOccurredAt ev) = Some t" "read_time t = Some (eOccurredAt ev)"
    using time_wf_text [OF tw] by blast
  let ?j = "JObj (written_members t ev)"
  have j: "envelope_json ev = Some ?j" by (rule envelope_json_written [OF aw t(1)])
  have wf: "json_wf ?j" using wf_written_members [OF assms ascii_time_text [OF t(1)]] by simp
  have depth: "json_depth ?j \<le> 10000" using depth_written_members [OF aw, of t] by simp
  have p: "json_parse (json_text ?j) = Some ?j" by (rule json_parse_text [OF wf depth])
  have "written_members t ev \<noteq> []" by (simp add: written_members_def str_field_def)
  from raw_values_text [OF wf depth this]
  have "with_tokens ?j (raw_values (json_text ?j)) = ?j"
    by (simp only: with_tokens_written [OF time_char_time_text [OF t(1)]])
  with read_written_members [OF aw t(2)] j p show ?thesis
    by (auto simp: marshal_envelope_def unmarshal_envelope_def simp del: with_tokens.simps json_text.simps)
qed

subsection \<open>Decoding twice\<close>

lemma keys_upsert: "keys_of (upsert k v m) = (if k \<in> set (keys_of m) then keys_of m else keys_of m @ [k])"
proof -
  have "map fst (map (\<lambda>(k', v'). if k' = k then (k, v) else (k', v')) m) = map fst m"
    by (induction m) auto
  then show ?thesis by (simp add: upsert_def keys_of_def)
qed

lemma upsert_set: "set (upsert k v m) \<subseteq> insert (k, v) (set m)"
proof (cases "k \<in> fst ` set m")
  case True
  have "(\<lambda>(k', v'). if k' = k then (k, v) else (k', v')) y \<in> insert (k, v) (set m)" if "y \<in> set m" for y
    by (cases y) (use that in simp)
  with True show ?thesis by (simp add: upsert_def image_subset_iff)
qed (simp add: upsert_def subset_insertI)

lemma collapse_facts:
  "distinct (keys_of (collapse ms)) \<and> set (collapse ms) \<subseteq> set ms"
proof (induction ms rule: rev_induct)
  case (snoc kv ms)
  obtain k v where kv: "kv = (k, v)" by fastforce
  have "collapse (ms @ [kv]) = upsert k v (collapse ms)" by (simp add: collapse_def kv)
  with snoc upsert_set [of k v "collapse ms"] kv show ?case by (auto simp: keys_upsert)
qed (simp add: collapse_def keys_of_def)

lemma collapse_distinct: "distinct (keys_of ms) \<Longrightarrow> collapse ms = ms"
  using fold_upsert [of "[]" ms] by (simp add: collapse_def)

lemma decode_json_idem: "decode_json (decode_json j) = decode_json j"
proof (induction j rule: decode_json.induct)
  case (3 ms)
  let ?g = "\<lambda>(k, v). (k, decode_json v)"
  let ?xs = "sort_key fst (collapse (map ?g ms))"
  have IH: "decode_json (decode_json v) = decode_json v" if "(k, v) \<in> set ms" for k v
    using 3 that by fastforce
  have "set ?xs \<subseteq> set (map ?g ms)" using collapse_facts [of "map ?g ms"] by simp
  then have "?g kv = kv" if "kv \<in> set ?xs" for kv using that IH by fastforce
  then have "map ?g ?xs = ?xs" by (rule map_idI)
  moreover have "collapse ?xs = ?xs" using collapse_facts [of "map ?g ms"] by (intro collapse_distinct) (simp add: keys_sort)
  ultimately show ?case by (simp add: sort_key_id_if_sorted)
qed (simp_all add: float_text_idem)

lemma decode_any_idem [simp]: "decode_any (decode_any v) = decode_any v"
  by (cases v) (simp_all add: decode_json_idem)

lemma as_decoded_same:
  assumes "\<forall>(k, v) \<in> set (eAttributes ev). decode_any v = v"
  shows "as_decoded ev = ev\<lparr>eAttributes := sort_key fst (eAttributes ev)\<rparr>"
proof -
  have "map (\<lambda>(k, v). (k, decode_any v)) (eAttributes ev) = eAttributes ev" using assms by (intro map_idI) auto
  then show ?thesis by (simp add: as_decoded_def decoded_attrs_def)
qed

lemma as_decoded_idem: "as_decoded (as_decoded ev) = as_decoded ev"
proof -
  have "map (\<lambda>(k, v). (k, decode_any v)) (decoded_attrs m) = decoded_attrs m" for m
    by (intro map_idI) (auto simp: decoded_attrs_def)
  then show ?thesis by (simp add: as_decoded_def decoded_attrs_def sort_key_id_if_sorted)
qed

subsection \<open>Properties\<close>

text \<open>
  C27. An event survives the wire. Any envelope of valid text, a representable time and
  encodable attributes is encoded, and decoding the payload gives back the envelope, time,
  zone and nanoseconds, actor, resource and lists included, with the attributes in key order
  and each attribute value as an \<open>any\<close> holds it: its numbers are the nearest floats and its
  objects maps. Where the values are of that form already the envelope is the very same, and
  they are after one decoding: passing an event on changes it no further.
\<close>

theorem envelope_roundtrip:
  assumes "envelope_wf ev"
  shows "\<exists>payload. marshal_envelope ev = Some payload \<and> unmarshal_envelope payload = Some (as_decoded ev)
    \<and> ((\<forall>(k, v) \<in> set (eAttributes ev). decode_any v = v) \<longrightarrow>
        as_decoded ev = ev\<lparr>eAttributes := sort_key fst (eAttributes ev)\<rparr>)
    \<and> as_decoded (as_decoded ev) = as_decoded ev"
  using marshal_unmarshal [OF assms] as_decoded_same [of ev] as_decoded_idem [of ev] by blast

definition sample_time :: gotime where
  "sample_time = \<lparr>tYear = 2024, tMonth = 2, tDay = 29, tHour = 23, tMin = 59, tSec = 58,
     tNsec = 120000000, tOff = 7200\<rparr>"

definition sample_envelope :: envelope where
  "sample_envelope = zero_envelope\<lparr>eOccurredAt := sample_time, eCategories := Some [''signing'', ''security''],
     eEventType := ''document.signed'', eActor := Some \<lparr>aID = ''u1'', aType = ''user'', aAssurance = []\<rparr>,
     eOutcome := ''success'', eAttributes := [(''slot'', AnyJson (JNum ''3'')),
       (''Access_Token'', AnyJson (JStr ''x'')), (''pages'', AnyJson (JArr [JBool True, JNull]))]\<rparr>"

lemma float_ok_sample: "float_ok ''3''"
  by (simp add: float_ok_def round64_examples)

lemma decode_sample: "\<forall>(k, v) \<in> set (eAttributes sample_envelope). decode_any v = v"
  by (simp add: sample_envelope_def zero_envelope_def float_text_3)

lemma decoded_sample:
  "as_decoded (sample_envelope\<lparr>eEventID := i\<rparr>) =
     sample_envelope\<lparr>eEventID := i, eAttributes := sort_key fst (eAttributes sample_envelope)\<rparr>"
  using as_decoded_same [of "sample_envelope\<lparr>eEventID := i\<rparr>"] decode_sample by simp

lemma envelope_wf_sample: "envelope_wf (sample_envelope\<lparr>eEventID := ''01E''\<rparr>)"
proof -
  have "time_wf sample_time" "json_wf (JNum ''3'')" "json_wf (JStr ''x'')" by code_simp+
  moreover have "list_all valid_utf8 [''slot'', ''Access_Token'', ''pages'', ''01E'', ''signing'',
      ''security'', ''document.signed'', ''u1'', ''user'', ''success'', []]"
    by code_simp
  ultimately show ?thesis
    by (simp add: envelope_wf_def sample_envelope_def attrs_wf_def zero_envelope_def float_ok_sample
        del: json_wf.simps(1,2))
qed

text \<open>A number with a redundant fraction is read as its float, a whole envelope of plain values as itself.\<close>

lemma envelope_roundtrip_witness:
  "\<exists>payload ev. marshal_envelope (sample_envelope\<lparr>eEventID := ''01E''\<rparr>) = Some payload \<and>
     unmarshal_envelope payload = Some ev \<and> eOccurredAt ev = sample_time \<and> eEventID ev = ''01E'' \<and>
     map_of (eAttributes ev) ''slot'' = Some (AnyJson (JNum ''3'')) \<and>
     decode_any (AnyJson (JNum ''3.0'')) = AnyJson (JNum ''3'')"
proof -
  let ?e = "sample_envelope\<lparr>eEventID := ''01E''\<rparr>"
  from envelope_roundtrip [OF envelope_wf_sample] obtain payload where
    p: "marshal_envelope ?e = Some payload" "unmarshal_envelope payload = Some (as_decoded ?e)" by blast
  have "sort_key fst (eAttributes sample_envelope) =
      [(''Access_Token'', AnyJson (JStr ''x'')), (''pages'', AnyJson (JArr [JBool True, JNull])), (''slot'', AnyJson (JNum ''3''))]"
    by code_simp
  moreover have "eOccurredAt (as_decoded ?e) = sample_time" "eEventID (as_decoded ?e) = ''01E''"
    "eAttributes (as_decoded ?e) = sort_key fst (eAttributes sample_envelope)"
    by (simp_all add: decoded_sample) (simp add: sample_envelope_def)
  ultimately show ?thesis
    using p by (intro exI [of _ payload] exI [of _ "as_decoded ?e"]) (simp add: float_text_3)
qed

text \<open>
  No credential rides an event. Whatever order the map is walked in, \<open>stripTokens\<close> keeps
  exactly the attributes whose lower-cased key contains none of the credential fragments,
  with their values, and a second pass changes nothing.
\<close>

theorem stripTokens_exact:
  "map_of (stripTokens U attrs) k =
      (if \<exists>s \<in> set tokenKeySubstrings. contains (to_lower U k) s then None else map_of attrs k)
   \<and> stripTokens U (stripTokens U attrs) = stripTokens U attrs
   \<and> mset (stripTokens U (rev attrs)) = mset (stripTokens U attrs)"
proof -
  have "map_of (stripTokens U attrs) k = (if token_key U k then None else map_of attrs k)"
    using map_of_filter_key [of "\<lambda>k. \<not> token_key U k" attrs k]
    by (simp add: stripTokens_eq case_prod_beta')
  then show ?thesis by (simp add: stripTokens_idem token_key_def) (simp add: stripTokens_eq rev_filter)
qed

text \<open>
  C35. Stripping never touches the caller's map. On a store of maps, the loop writes only to
  the copy it makes: the caller's map is unchanged, the map returned holds exactly what
  \<open>stripTokens\<close> computes, and it is the caller's own map when there was nothing to strip.
\<close>

theorem stripTokens_copy_on_write:
  assumes "distinct (keys_of attrs)" and "\<sigma> r = Some attrs" and "fresh \<noteq> r"
  shows "(case stripTokens_ref U fresh r \<sigma> of (out, \<sigma>') \<Rightarrow>
      \<sigma>' out = Some (stripTokens U attrs) \<and> \<sigma>' r = Some attrs \<and>
      (\<forall>a. a \<noteq> fresh \<longrightarrow> \<sigma>' a = \<sigma> a) \<and>
      (out = r \<longleftrightarrow> (\<forall>k \<in> set (keys_of attrs). \<not> token_key U k)))"
proof -
  have eq: "stripTokens_ref U fresh r \<sigma> =
    (if \<exists>k \<in> set (keys_of attrs). token_key U k
     then (fresh, \<sigma>(fresh \<mapsto> stripTokens U attrs)) else (r, \<sigma>))"
    by (rule stripTokens_ref_eq) (rule assms(1), rule assms(2))
  have "stripTokens U attrs = attrs" if "\<not> (\<exists>k \<in> set (keys_of attrs). token_key U k)"
    using that by (auto simp: stripTokens_eq keys_of_def intro!: filter_True)
  with assms show ?thesis by (auto simp: eq)
qed

definition sample_tables :: unicode_tables where
  "sample_tables = \<lparr>uni_lower = (\<lambda>r. r), uni_print = (\<lambda>r. True)\<rparr>"

lemma stripTokens_copy_on_write_witness:
  "(case stripTokens_ref sample_tables 1 0 [0 \<mapsto> eAttributes sample_envelope] of (out, \<sigma>') \<Rightarrow>
     \<sigma>' 0 = Some (eAttributes sample_envelope) \<and> out = 1)"
proof -
  have d: "distinct (keys_of (eAttributes sample_envelope))" by code_simp
  have "\<not> (\<forall>k \<in> set (keys_of (eAttributes sample_envelope)). \<not> token_key sample_tables k)" by code_simp
  then show ?thesis
    using stripTokens_copy_on_write [OF d, of "[0 \<mapsto> eAttributes sample_envelope]" 0 1 sample_tables]
      stripTokens_ref_eq [OF d, of "[0 \<mapsto> eAttributes sample_envelope]" 0 sample_tables 1]
    by auto
qed

end
