(* ===== verification/Metrics.thy ===== *)
theory Metrics
  imports Go_Json
begin

text \<open>
  \<open>observability/metrics.go\<close>: the series name of a metric with labels, and the two helpers
  that record into it. A label set is a list of pairs with distinct keys in the order an
  iteration over the map takes. The registry of the metrics library is what it documents:
  a counter or a histogram per series name, created on first use.
\<close>

definition LabelService :: string where "LabelService = ''service''"
definition LabelOutcome :: string where "LabelOutcome = ''outcome''"
definition LabelTopic :: string where "LabelTopic = ''topic''"
definition OutcomeSuccess :: string where "OutcomeSuccess = ''success''"
definition OutcomeError :: string where "OutcomeError = ''error''"
definition MetricBrokerPublishTotal :: string where
  "MetricBrokerPublishTotal = ''platform_broker_publish_total''"
definition MetricBrokerConsumeTotal :: string where
  "MetricBrokerConsumeTotal = ''platform_broker_consume_total''"

subsection \<open>The verb q\<close>

text \<open>\<open>strconv.Quote\<close>: one rune, or one byte that is not UTF-8, at a time.\<close>

definition is_print :: "'a unicode_tables_scheme \<Rightarrow> nat \<Rightarrow> bool" where
  "is_print U r \<longleftrightarrow> (if r < 128 then 32 \<le> r \<and> r < 127 else uni_print U r)"

definition hex2 :: "nat \<Rightarrow> string" where
  "hex2 n = [BS, CHR ''x'', hex_digit (n div 16 mod 16), hex_digit (n mod 16)]"

definition hex8 :: "nat \<Rightarrow> string" where
  "hex8 n = BS # CHR ''U'' # map (\<lambda>k. hex_digit (n div 16 ^ k mod 16)) [7, 6, 5, 4, 3, 2, 1, 0]"

fun q_piece :: "'a unicode_tables_scheme \<Rightarrow> nat option \<times> string \<Rightarrow> string" where
  "q_piece U (None, p) = concat (map (\<lambda>c. hex2 (byte c)) p)"
| "q_piece U (Some r, p) =
     (if r = 34 \<or> r = 92 then BS # p
      else if is_print U r then p
      else if r = 7 then [BS, CHR ''a'']
      else if r = 8 then [BS, CHR ''b'']
      else if r = 12 then [BS, CHR ''f'']
      else if r = 10 then [BS, CHR ''n'']
      else if r = 13 then [BS, CHR ''r'']
      else if r = 9 then [BS, CHR ''t'']
      else if r = 11 then [BS, CHR ''v'']
      else if r < 32 \<or> r = 127 then hex2 r
      else if r < 65536 then u_escape r
      else hex8 r)"

definition quoted :: "'a unicode_tables_scheme \<Rightarrow> string \<Rightarrow> string" where
  "quoted U s = DQ # concat (map (q_piece U) (runes s)) @ [DQ]"

subsection \<open>Series names\<close>

text \<open>The loop over the sorted keys, \<open>i\<close> being the loop's index.\<close>

fun label_loop ::
  "'a unicode_tables_scheme \<Rightarrow> (string \<times> string) list \<Rightarrow> nat \<Rightarrow> string list \<Rightarrow> string \<Rightarrow> string" where
  "label_loop U labels i [] b = b"
| "label_loop U labels i (k # ks) b =
     (let b = (if 0 < i then b @ '','' else b);
          v = (case map_of labels k of Some v \<Rightarrow> v | None \<Rightarrow> [])
      in label_loop U labels (Suc i) ks (b @ k @ ''='' @ quoted U v))"

definition formatLabels :: "'a unicode_tables_scheme \<Rightarrow> (string \<times> string) list \<Rightarrow> string" where
  "formatLabels U labels =
     (if length labels = 0 then []
      else
        let keys = sort (keys_of labels)
        in label_loop U labels 0 keys ''{'' @ ''}'')"

record 'f metrics =
  counters :: "string \<Rightarrow> nat option"
  histograms :: "string \<Rightarrow> 'f list option"

definition no_metrics :: "unit metrics" where
  "no_metrics = \<lparr>counters = Map.empty, histograms = Map.empty\<rparr>"

definition IncCounter ::
  "'a unicode_tables_scheme \<Rightarrow> string \<Rightarrow> (string \<times> string) list \<Rightarrow> 'f metrics \<Rightarrow> 'f metrics" where
  "IncCounter U name labels m =
     (let series = name @ formatLabels U labels;
          c = (case counters m series of None \<Rightarrow> 0 | Some n \<Rightarrow> n)
      in m\<lparr>counters := (counters m)(series \<mapsto> c + 1)\<rparr>)"

definition ObserveSeconds ::
  "'a unicode_tables_scheme \<Rightarrow> string \<Rightarrow> (string \<times> string) list \<Rightarrow> 'f \<Rightarrow> 'f metrics \<Rightarrow> 'f metrics" where
  "ObserveSeconds U name labels seconds m =
     (let series = name @ formatLabels U labels;
          h = (case histograms m series of None \<Rightarrow> [] | Some vs \<Rightarrow> vs)
      in m\<lparr>histograms := (histograms m)(series \<mapsto> h @ [seconds])\<rparr>)"

definition count_of :: "string \<Rightarrow> 'f metrics \<Rightarrow> nat" where
  "count_of series m = (case counters m series of None \<Rightarrow> 0 | Some n \<Rightarrow> n)"

lemma count_IncCounter:
  "count_of series (IncCounter U name labels m) =
     count_of series m + (if series = name @ formatLabels U labels then 1 else 0)"
  by (simp add: count_of_def IncCounter_def Let_def)

lemma label_loop_acc: "label_loop U labels i ks b = b @ label_loop U labels i ks []"
proof (induction ks arbitrary: i b)
  case (Cons k ks)
  show ?case
    by (simp only: label_loop.simps Let_def, subst (1 2) Cons.IH) simp
qed simp

lemma label_loop_Suc:
  "label_loop U labels (Suc i) ks [] =
     concat (map (\<lambda>k. '','' @ k @ ''='' @ quoted U (case map_of labels k of Some v \<Rightarrow> v | None \<Rightarrow> [])) ks)"
proof (induction ks arbitrary: i)
  case (Cons k ks)
  show ?case
    by (simp only: label_loop.simps Let_def, subst label_loop_acc) (simp add: Cons)
qed simp

lemma label_loop_cong:
  "map_of l = map_of l' \<Longrightarrow> label_loop U l i ks b = label_loop U l' i ks b"
  by (induction ks arbitrary: i b) (simp_all add: Let_def)

lemma formatLabels_perm:
  assumes "mset l = mset l'" and "distinct (keys_of l)"
  shows "formatLabels U l = formatLabels U l'"
proof -
  have k: "mset (keys_of l) = mset (keys_of l')" using assms(1) by (simp add: keys_of_def)
  then have d: "distinct (keys_of l')" using assms(2) mset_eq_imp_distinct_iff by blast
  have "map_of l = map_of l'"
    using assms d by (intro map_of_inject_set [THEN iffD2]) (auto simp: keys_of_def dest: mset_eq_setD)
  moreover have "sort (keys_of l) = sort (keys_of l')"
    using k by (metis properties_for_sort sorted_sort mset_sort)
  moreover have "length l = length l'" using assms(1) by (metis size_mset)
  ultimately show ?thesis by (simp add: formatLabels_def label_loop_cong [of l l'])
qed

subsection \<open>Properties\<close>

text \<open>
  One label set, one series: the series name does not depend on the order in which the
  label map is walked, so counting the same labels in any order adds up in one counter and
  in no other.
\<close>

theorem series_order_independent:
  assumes "mset l = mset l'" and "distinct (keys_of l)"
  shows "formatLabels U l = formatLabels U l'
    \<and> count_of series (IncCounter U name l' (IncCounter U name l m)) =
        count_of series m + (if series = name @ formatLabels U l then 2 else 0)"
  using formatLabels_perm [OF assms, of U] by (simp add: count_IncCounter)

definition sample_labels :: "(string \<times> string) list" where
  "sample_labels = [(LabelTopic, [CHR ''a'', CHR 0x22, CHR 0x0A]), (LabelOutcome, ''error'')]"

lemma series_order_independent_witness:
  "formatLabels \<lparr>uni_lower = \<lambda>r. r, uni_print = \<lambda>r. True\<rparr> (rev sample_labels) =
   ''{outcome='' @ [DQ] @ ''error'' @ [DQ] @ '',topic='' @ [DQ, CHR ''a'', BS, DQ, BS, CHR ''n'', DQ] @ ''}''"
proof -
  let ?U = "\<lparr>uni_lower = \<lambda>r. r, uni_print = \<lambda>r. True\<rparr>"
  have "distinct (keys_of sample_labels)" by code_simp
  moreover have "mset sample_labels = mset (rev sample_labels)" by simp
  ultimately have "formatLabels ?U sample_labels = formatLabels ?U (rev sample_labels)"
    using series_order_independent by blast
  moreover have "formatLabels ?U sample_labels =
    ''{outcome='' @ [DQ] @ ''error'' @ [DQ] @ '',topic='' @ [DQ, CHR ''a'', BS, DQ, BS, CHR ''n'', DQ] @ ''}''"
    by code_simp
  ultimately show ?thesis by simp
qed

end
