(* ===== verification/Publisher.thy ===== *)
theory Publisher
  imports Event_Envelope Metrics
begin

text \<open>
  \<open>broker/broker.go\<close>: publishing. The transport is an interface; its state is the type
  variable \<open>'w\<close>, its error type \<open>'e\<close>. A nil publisher, transport or envelope is \<open>None\<close>, and so
  is a nil error. Each operation returns the error with the states it changed; \<open>Publish\<close>
  also returns the envelope, which it mutates.
\<close>

type_synonym ('w, 'e) transport = "'w \<Rightarrow> string \<Rightarrow> string \<Rightarrow> string \<Rightarrow> 'w \<times> 'e option"

datatype 'e berror =
    BErr string
  | BWrap string string 'e \<comment> \<open>the message, the quoted name in it, the wrapped error\<close>

record ('w, 'e) publisher =
  pubTransport :: "('w, 'e) transport option"
  pubService :: string

definition NewPublisher :: "('w, 'e) transport option \<Rightarrow> string \<Rightarrow> ('w, 'e) publisher" where
  "NewPublisher transport service = \<lparr>pubTransport = transport, pubService = service\<rparr>"

definition outcome :: "'e option \<Rightarrow> string" where
  "outcome err = (if err \<noteq> None then OutcomeError else OutcomeSuccess)"

definition publish_labels :: "string \<Rightarrow> string \<Rightarrow> 'e option \<Rightarrow> (string \<times> string) list" where
  "publish_labels service topic err =
     [(LabelService, service), (LabelTopic, topic), (LabelOutcome, outcome err)]"

definition PublishStamped ::
  "'a unicode_tables_scheme \<Rightarrow> ('w, 'e) publisher option \<Rightarrow> string \<Rightarrow> envelope option \<Rightarrow>
   'w \<Rightarrow> 'f metrics \<Rightarrow> 'e berror option \<times> 'w \<times> 'f metrics" where
  "PublishStamped U p topic ev w m = (case Option.bind p pubTransport of
      None \<Rightarrow> (Some (BErr ''broker: publisher has no transport''), w, m)
    | Some transport \<Rightarrow> (case ev of
        None \<Rightarrow> (Some (BErr ''broker: nil envelope''), w, m)
      | Some ev \<Rightarrow> (case Validate ev of
          Some msg \<Rightarrow> (Some (BErr msg), w, m)
        | None \<Rightarrow> (case marshal_envelope ev of
            None \<Rightarrow> (Some (BErr ''broker: marshal envelope''), w, m)
          | Some payload \<Rightarrow>
              (case transport w topic (eEventID ev) payload of (w, err) \<Rightarrow>
                 let m = IncCounter U MetricBrokerPublishTotal
                           (publish_labels (pubService (the p)) topic err) m
                 in (case err of
                       Some e \<Rightarrow> (Some (BWrap ''broker: publish to'' topic e), w, m)
                     | None \<Rightarrow> (None, w, m)))))))"

definition Publish ::
  "'a unicode_tables_scheme \<Rightarrow> ('ctx, 'b) azugo_scheme \<Rightarrow> string \<Rightarrow> gotime \<Rightarrow>
   ('w, 'e) publisher option \<Rightarrow> 'ctx option \<Rightarrow> string \<Rightarrow> envelope option \<Rightarrow>
   'w \<Rightarrow> 'f metrics \<Rightarrow> ('e berror option \<times> 'w \<times> 'f metrics) \<times> envelope option" where
  "Publish U A new_id clock p ctx topic ev w m = (case Option.bind p pubTransport of
      None \<Rightarrow> ((Some (BErr ''broker: publisher has no transport''), w, m), ev)
    | Some _ \<Rightarrow> (case ev of
        None \<Rightarrow> ((Some (BErr ''broker: nil envelope''), w, m), ev)
      | Some e \<Rightarrow>
          let e = Stamp U A new_id clock ctx e
          in (PublishStamped U p topic (Some e) w m, Some e)))"

subsection \<open>What a publish does\<close>

lemma PublishStamped_ok:
  assumes "pubTransport p = Some tr" and "Validate ev = None" and "marshal_envelope ev = Some payload"
    and "tr w topic (eEventID ev) payload = (w', err)"
  shows "PublishStamped U (Some p) topic (Some ev) w m =
    (map_option (BWrap ''broker: publish to'' topic) err, w',
     IncCounter U MetricBrokerPublishTotal (publish_labels (pubService p) topic err) m)"
  using assms by (simp add: PublishStamped_def Let_def split: option.split)

lemma PublishStamped_rejects:
  assumes "pubTransport p = Some tr" and "Validate ev \<noteq> None \<or> marshal_envelope ev = None"
  shows "\<exists>msg. PublishStamped U (Some p) topic (Some ev) w m = (Some (BErr msg), w, m)"
  using assms by (auto simp: PublishStamped_def split: option.split)

lemma Validate_None_iff:
  "Validate ev = None \<longleftrightarrow> eEventID ev \<noteq> [] \<and> \<not> IsZero (eOccurredAt ev) \<and> eEventType ev \<noteq> [] \<and>
     elems (eCategories ev) \<noteq> [] \<and> eOutcome ev \<noteq> []"
  by (simp add: Validate_def)

lemma Stamp_fields:
  "eEventID (Stamp U A i t ctx ev) = (if eEventID ev = [] then i else eEventID ev)"
  "eOccurredAt (Stamp U A i t ctx ev) = (if IsZero (eOccurredAt ev) then t else eOccurredAt ev)"
  "eCorrelationID (Stamp U A i t ctx ev) =
     (if eCorrelationID ev = [] then CorrelationIDs (FromContext A ctx) else eCorrelationID ev)"
  "eTraceID (Stamp U A i t ctx ev) = (if eTraceID ev = [] then TraceIDs (FromContext A ctx) else eTraceID ev)"
  "eAttributes (Stamp U A i t ctx ev) = stripTokens U (eAttributes ev)"
  "eEventType (Stamp U A i t ctx ev) = eEventType ev" "eCategories (Stamp U A i t ctx ev) = eCategories ev"
  "eOutcome (Stamp U A i t ctx ev) = eOutcome ev" "eActor (Stamp U A i t ctx ev) = eActor ev"
  "eDataSubjects (Stamp U A i t ctx ev) = eDataSubjects ev" "eResource (Stamp U A i t ctx ev) = eResource ev"
  by (simp_all add: Stamp_def Let_def)

lemma Stamp_valid:
  assumes "i \<noteq> []" and "\<not> IsZero t"
  shows "Validate (Stamp U A i t ctx ev) = None \<longleftrightarrow>
    eEventType ev \<noteq> [] \<and> elems (eCategories ev) \<noteq> [] \<and> eOutcome ev \<noteq> []"
  using assms by (simp add: Validate_None_iff Stamp_fields)

text \<open>Stamping keeps an envelope encodable.\<close>

lemma attrs_wf_strip: "attrs_wf m \<Longrightarrow> attrs_wf (stripTokens U m)"
  by (auto simp: attrs_wf_def stripTokens_eq list_all_iff intro: distinct_keys_filter)

lemma Stamp_wf:
  assumes "attrs_wf (eAttributes ev)" and "envelope_wf (ev\<lparr>eEventID := [], eOccurredAt := t, eAttributes := []\<rparr>)"
    and "IsZero (eOccurredAt ev) \<or> time_wf (eOccurredAt ev)" and "valid_utf8 i" and "valid_utf8 (eEventID ev)"
    and "valid_utf8 (CorrelationIDs (FromContext A ctx))" and "valid_utf8 (TraceIDs (FromContext A ctx))"
  shows "envelope_wf (Stamp U A i t ctx ev)"
  using assms attrs_wf_strip [OF assms(1), of U]
  by (auto simp: envelope_wf_def Stamp_def Let_def split: option.splits)

subsection \<open>Properties\<close>

text \<open>
  C10. A request's event is published once, complete and correlated. For an event with a type,
  a category and an outcome, the transport is called exactly once, with the topic, the event
  id as the key and the encoding of the event with its id, time, correlation and trace id
  filled in from the request where they were unset, and without credential attributes; it
  decodes to that event, the other attributes with their values as an \<open>any\<close> holds them. One
  publish is counted, under the outcome the transport reported, and a
  transport error is returned.
\<close>

theorem Publish_once:
  fixes A :: "('ctx, 'b) azugo_scheme"
  assumes "pubTransport p = Some tr" and "new_id \<noteq> []" and "\<not> IsZero clock"
    and "eEventType ev \<noteq> []" and "elems (eCategories ev) \<noteq> []" and "eOutcome ev \<noteq> []"
    and "envelope_wf (Stamp U A new_id clock ctx ev)"
  shows "\<exists>payload ev'. marshal_envelope (Stamp U A new_id clock ctx ev) = Some payload
    \<and> unmarshal_envelope payload = Some ev'
    \<and> (case tr w topic (eEventID ev') payload of (w', err) \<Rightarrow>
        Publish U A new_id clock (Some p) ctx topic (Some ev) w m =
          ((map_option (BWrap ''broker: publish to'' topic) err, w',
            IncCounter U MetricBrokerPublishTotal (publish_labels (pubService p) topic err) m),
           Some (Stamp U A new_id clock ctx ev)))
    \<and> eEventID ev' = (if eEventID ev = [] then new_id else eEventID ev)
    \<and> eOccurredAt ev' = (if IsZero (eOccurredAt ev) then clock else eOccurredAt ev)
    \<and> eCorrelationID ev' = (if eCorrelationID ev = [] then ID A ctx else eCorrelationID ev)
    \<and> (\<forall>k. map_of (eAttributes ev') k =
        (if token_key U k then None else map_option decode_any (map_of (eAttributes ev) k)))"
proof -
  let ?s = "Stamp U A new_id clock ctx ev"
  let ?ev' = "as_decoded ?s"
  obtain payload where p: "marshal_envelope ?s = Some payload" "unmarshal_envelope payload = Some ?ev'"
    using marshal_unmarshal [OF assms(7)] by blast
  have v: "Validate ?s = None" using assms by (simp add: Stamp_valid)
  obtain w' err where t: "tr w topic (eEventID ?s) payload = (w', err)" by fastforce
  have pub: "Publish U A new_id clock (Some p) ctx topic (Some ev) w m =
      (PublishStamped U (Some p) topic (Some ?s) w m, Some ?s)"
    using assms(1) by (simp add: Publish_def Let_def)
  have ids: "CorrelationIDs (FromContext A ctx) = ID A ctx"
    by (simp add: FromContext_def ID_def Let_def split: option.split)
  have d: "distinct (map fst (eAttributes ?s))"
    using assms(7) by (simp add: envelope_wf_def attrs_wf_def keys_of_def)
  have "mset (sort_key fst (eAttributes ?s)) = mset (eAttributes ?s)" by simp
  then have "map_of (sort_key fst (eAttributes ?s)) = map_of (eAttributes ?s)"
    using d by (intro map_of_inject_set [THEN iffD2])
      (auto simp: keys_sort [unfolded keys_of_def] dest: mset_eq_setD)
  moreover have "map_of (eAttributes ?s) k = (if token_key U k then None else map_of (eAttributes ev) k)" for k
    using map_of_filter_key [of "\<lambda>k. \<not> token_key U k" "eAttributes ev" k]
    by (simp add: Stamp_fields stripTokens_eq case_prod_beta')
  ultimately have "map_of (sort_key fst (eAttributes ?s)) k = (if token_key U k then None else map_of (eAttributes ev) k)"
    for k by simp
  then have attrs: "\<forall>k. map_of (eAttributes ?ev') k =
      (if token_key U k then None else map_option decode_any (map_of (eAttributes ev) k))"
    by (simp add: decoded_attrs_def sort_key_map_snd map_of_map)
  show ?thesis
    by (rule exI [of _ payload], rule exI [of _ ?ev'])
       (use p attrs in \<open>simp add: pub t PublishStamped_ok [OF assms(1) v p(1) t]\<close>,
        simp add: Stamp_fields ids)
qed

lemma envelope_wf_strip: "envelope_wf e \<Longrightarrow> envelope_wf (e\<lparr>eAttributes := stripTokens U (eAttributes e)\<rparr>)"
  using attrs_wf_strip by (auto simp: envelope_wf_def)

lemma sample_Stamp:
  "Stamp sample_tables request_azugo ''01E'' clock None sample_envelope =
     (let e = sample_envelope\<lparr>eEventID := ''01E''\<rparr> in e\<lparr>eAttributes := stripTokens sample_tables (eAttributes e)\<rparr>)"
  by (simp add: Stamp_def Let_def FromContext_def sample_envelope_def zero_envelope_def IsZero_def sample_time_def)

definition recording_transport :: "(string list, string) transport" where
  "recording_transport w topic key payload = (w @ [key], None)"

lemma Publish_once_witness:
  "\<exists>m' ev. Publish sample_tables request_azugo ''01E'' sample_time
      (Some (NewPublisher (Some recording_transport) ''svc'')) None ''audit'' (Some sample_envelope) [] no_metrics =
    ((None, [''01E''], m'), Some ev)"
proof -
  have wf: "envelope_wf (Stamp sample_tables request_azugo ''01E'' sample_time None sample_envelope)"
    using envelope_wf_strip [OF envelope_wf_sample] by (simp add: sample_Stamp Let_def)
  have tr: "pubTransport (NewPublisher (Some recording_transport) ''svc'') = Some recording_transport"
    by (simp add: NewPublisher_def)
  have e: "eEventType sample_envelope \<noteq> []" "elems (eCategories sample_envelope) \<noteq> []" "eOutcome sample_envelope \<noteq> []"
    by (simp_all add: sample_envelope_def)
  have "\<not> IsZero sample_time" by (simp add: IsZero_def sample_time_def)
  from Publish_once [where w = "[]" and topic = "''audit''" and m = no_metrics, OF tr _ this e wf]
  show ?thesis by (auto simp: recording_transport_def sample_envelope_def zero_envelope_def)
qed

text \<open>Stamping an envelope again, with another id and a later time, changes nothing.\<close>

lemma Stamp_again:
  assumes "i \<noteq> []" and "\<not> IsZero t"
  shows "Stamp U A j u ctx (Stamp U A i t ctx ev) = Stamp U A i t ctx ev"
proof -
  let ?s = "Stamp U A i t ctx ev"
  have "eEventID ?s \<noteq> []" "\<not> IsZero (eOccurredAt ?s)" using assms by (simp_all add: Stamp_fields)
  moreover have "eCorrelationID ?s = [] \<Longrightarrow> CorrelationIDs (FromContext A ctx) = []"
    "eTraceID ?s = [] \<Longrightarrow> TraceIDs (FromContext A ctx) = []" by (auto simp: Stamp_fields split: if_splits)
  moreover have "stripTokens U (eAttributes ?s) = eAttributes ?s" by (simp add: Stamp_fields stripTokens_eq)
  ultimately show ?thesis by (simp add: Stamp_def [of U A j u ctx ?s] Let_def)
qed

text \<open>
  C11. A publish can be retried safely. \<open>Publish\<close> fills the ids into the caller's own envelope, so
  calling it again with the same envelope, for the same request and after any error, hands
  the transport exactly the first message: the same topic, key and payload, not a second
  event with a new id and time. The envelope is then left as the first call left it.
\<close>

theorem Publish_retry_same:
  fixes A :: "('ctx, 'b) azugo_scheme"
  assumes "pubTransport p = Some tr" and "id1 \<noteq> []" and "\<not> IsZero clock1"
    and "eEventType ev \<noteq> []" and "elems (eCategories ev) \<noteq> []" and "eOutcome ev \<noteq> []"
    and "envelope_wf (Stamp U A id1 clock1 ctx ev)"
    and "Publish U A id1 clock1 (Some p) ctx topic (Some ev) w1 m1 = ((r1, w1', m1'), ev1)"
    and "Publish U A id2 clock2 (Some p) ctx topic ev1 w2 m2 = ((r2, w2', m2'), ev2)"
  shows "\<exists>key payload. fst (tr w1 topic key payload) = w1' \<and> (r1 = None \<longleftrightarrow> snd (tr w1 topic key payload) = None)
    \<and> fst (tr w2 topic key payload) = w2' \<and> (r2 = None \<longleftrightarrow> snd (tr w2 topic key payload) = None)
    \<and> ev1 = ev2 \<and> map_option eEventID ev1 = Some key \<and> Option.bind ev1 marshal_envelope = Some payload"
proof -
  let ?s = "Stamp U A id1 clock1 ctx ev"
  obtain payload where p: "marshal_envelope ?s = Some payload" using marshal_unmarshal [OF assms(7)] by blast
  have v: "Validate ?s = None" using assms(2-6) by (simp add: Stamp_valid)
  have ev1: "ev1 = Some ?s" and one: "PublishStamped U (Some p) topic (Some ?s) w1 m1 = (r1, w1', m1')"
    using assms(1,8) by (auto simp: Publish_def Let_def)
  have ev2: "ev2 = Some ?s" and two: "PublishStamped U (Some p) topic (Some ?s) w2 m2 = (r2, w2', m2')"
    using assms(1,9) by (auto simp: Publish_def Let_def ev1 Stamp_again [OF assms(2,3)])
  obtain v1 e1 where t1: "tr w1 topic (eEventID ?s) payload = (v1, e1)" by fastforce
  obtain v2 e2 where t2: "tr w2 topic (eEventID ?s) payload = (v2, e2)" by fastforce
  from PublishStamped_ok [OF assms(1) v p t1, of U m1] PublishStamped_ok [OF assms(1) v p t2, of U m2] one two
  show ?thesis by (intro exI [of _ "eEventID ?s"] exI [of _ payload]) (auto simp: t1 t2 ev1 ev2 p)
qed

definition flaky_transport :: "(string list, string) transport" where
  "flaky_transport w topic key payload = (w @ [key], if w = [] then Some ''timeout'' else None)"

lemma Publish_retry_same_witness:
  "\<exists>ev m' r. Publish sample_tables request_azugo ''01E'' sample_time
      (Some (NewPublisher (Some flaky_transport) ''svc'')) None ''audit'' (Some sample_envelope) [] no_metrics =
        ((Some r, [''01E''], m'), ev) \<and>
     fst (snd (fst (Publish sample_tables request_azugo ''01F'' (sample_time\<lparr>tYear := 2030\<rparr>)
      (Some (NewPublisher (Some flaky_transport) ''svc'')) None ''audit'' ev [''01E''] m'))) = [''01E'', ''01E'']"
proof -
  have wf: "envelope_wf (Stamp sample_tables request_azugo ''01E'' sample_time None sample_envelope)"
    using envelope_wf_strip [OF envelope_wf_sample] by (simp add: sample_Stamp Let_def)
  have tr: "pubTransport (NewPublisher (Some flaky_transport) ''svc'') = Some flaky_transport"
    by (simp add: NewPublisher_def)
  have e: "eEventType sample_envelope \<noteq> []" "elems (eCategories sample_envelope) \<noteq> []" "eOutcome sample_envelope \<noteq> []"
    by (simp_all add: sample_envelope_def)
  have z: "\<not> IsZero sample_time" by (simp add: IsZero_def sample_time_def)
  have i: "''01E'' \<noteq> ([] :: string)" by simp
  obtain r1 w1 m1 ev1 where one: "Publish sample_tables request_azugo ''01E'' sample_time
      (Some (NewPublisher (Some flaky_transport) ''svc'')) None ''audit'' (Some sample_envelope) [] no_metrics =
      ((r1, w1, m1), ev1)" by (metis prod.exhaust)
  obtain r2 w2 m2 ev2 where two: "Publish sample_tables request_azugo ''01F'' (sample_time\<lparr>tYear := 2030\<rparr>)
      (Some (NewPublisher (Some flaky_transport) ''svc'')) None ''audit'' ev1 [''01E''] m1 = ((r2, w2, m2), ev2)"
    by (metis prod.exhaust)
  have id: "map_option eEventID ev1 = Some ''01E''"
    using one tr by (auto simp: Publish_def Let_def Stamp_fields sample_envelope_def zero_envelope_def)
  from Publish_retry_same [OF tr i z e wf one two] id
  have "w1 = [''01E'']" "r1 \<noteq> None" "w2 = [''01E'', ''01E'']" by (auto simp: flaky_transport_def)
  with one two show ?thesis by auto
qed

text \<open>
  Nothing incomplete leaves the service: without a transport, without an envelope, with
  an envelope that fails validation or cannot be encoded, publishing returns an error and
  neither the transport nor the metrics see anything. In particular \<open>PublishStamped\<close> refuses
  an envelope that was never stamped.
\<close>

theorem Publish_rejects:
  assumes "Option.bind p pubTransport = None \<or> ev = None \<or>
      (\<exists>e. ev = Some e \<and> (eEventID e = [] \<or> IsZero (eOccurredAt e) \<or> eEventType e = [] \<or>
        elems (eCategories e) = [] \<or> eOutcome e = [] \<or> marshal_envelope e = None))"
  shows "\<exists>msg. PublishStamped U p topic ev w m = (Some (BErr msg), w, m)"
  using assms by (auto simp: PublishStamped_def Validate_def split: option.split)

lemma Publish_rejects_witness:
  "\<exists>msg. PublishStamped sample_tables (Some (NewPublisher (Some (\<lambda>w t k p. (w @ [p], None))) ''svc''))
     ''audit'' (Some sample_envelope) [] no_metrics = (Some (BErr msg), [], no_metrics)"
  by (rule Publish_rejects) (simp add: sample_envelope_def zero_envelope_def)

end
