(* ===== verification/Consume.thy ===== *)
theory Consume
  imports Publisher
begin

text \<open>
  \<open>broker/consume.go\<close>: dispatching a delivered payload, and the in-memory idempotency store.

  The interface \<open>IdempotencyStore\<close> is the record \<open>id_store\<close> over the store's state \<open>'s\<close>; the
  handler works on a state \<open>'h\<close> of its own and may change the envelope it is given. What a
  store promises is the locale \<open>idempotency_store\<close>: \<open>ids\<close> is the set of event ids it holds,
  \<open>Seen\<close> answers from it, \<open>MarkProcessed\<close> adds nothing but its id and, when it succeeds, does
  add it. (An id may be dropped: eviction.)
\<close>

record ('s, 'e) id_store =
  Seen :: "'s \<Rightarrow> string \<Rightarrow> 's \<times> ('e + bool)"
  MarkProcessed :: "'s \<Rightarrow> string \<Rightarrow> 's \<times> 'e option"

type_synonym ('h, 'e) handler = "'h \<Rightarrow> envelope \<Rightarrow> 'h \<times> envelope \<times> 'e option"

definition outcomeError :: string where "outcomeError = OutcomeError"
definition outcomeDuplicate :: string where "outcomeDuplicate = ''duplicate''"
definition outcomeInvalid :: string where "outcomeInvalid = ''invalid''"

definition incConsume :: "'a unicode_tables_scheme \<Rightarrow> string \<Rightarrow> 'f metrics \<Rightarrow> 'f metrics" where
  "incConsume U out m = IncCounter U MetricBrokerConsumeTotal [(LabelOutcome, out)] m"

datatype 'e dispatch_error =
    DErr string
  | DStore string string 'e
  | DHandler 'e

definition Dispatch ::
  "'a unicode_tables_scheme \<Rightarrow> string \<Rightarrow> ('s, 'e) id_store option \<Rightarrow> ('h, 'e) handler option \<Rightarrow>
   's \<Rightarrow> 'h \<Rightarrow> 'f metrics \<Rightarrow> 'e dispatch_error option \<times> 's \<times> 'h \<times> 'f metrics" where
  "Dispatch U payload store handler s h m = (case handler of
      None \<Rightarrow> (Some (DErr ''broker: nil handler''), s, h, m)
    | Some handle \<Rightarrow> (case unmarshal_envelope payload of
        None \<Rightarrow> (Some (DErr ''broker: decode envelope''), s, h, incConsume U outcomeInvalid m)
      | Some ev \<Rightarrow> (case Validate ev of
          Some msg \<Rightarrow> (Some (DErr msg), s, h, incConsume U outcomeInvalid m)
        | None \<Rightarrow>
            (case (case store of
                None \<Rightarrow> (s, Inr False)
              | Some st \<Rightarrow> Seen st s (eEventID ev)) of
               (s, Inl e) \<Rightarrow>
                 (Some (DStore ''broker: idempotency check for'' (eEventID ev) e), s, h,
                  incConsume U outcomeError m)
             | (s, Inr True) \<Rightarrow> (None, s, h, incConsume U outcomeDuplicate m)
             | (s, Inr False) \<Rightarrow>
                 (case handle h ev of
                    (h, ev, Some e) \<Rightarrow> (Some (DHandler e), s, h, incConsume U outcomeError m)
                  | (h, ev, None) \<Rightarrow>
                      (case (case store of
                          None \<Rightarrow> (s, None)
                        | Some st \<Rightarrow> MarkProcessed st s (eEventID ev)) of
                         (s, Some e) \<Rightarrow>
                           (Some (DStore ''broker: mark processed'' (eEventID ev) e), s, h,
                            incConsume U outcomeError m)
                       | (s, None) \<Rightarrow> (None, s, h, incConsume U OutcomeSuccess m)))))))"

subsection \<open>The in-memory store\<close>

record mem_store =
  msSeen :: "string set"
  msOrder :: "string list"
  msCapacity :: int

definition DefaultIdempotencyCapacity :: int where
  "DefaultIdempotencyCapacity = 65536"

definition NewMemoryIdempotencyStoreWithCapacity :: "int \<Rightarrow> mem_store" where
  "NewMemoryIdempotencyStoreWithCapacity capacity =
     \<lparr>msSeen = {}, msOrder = [],
      msCapacity = (if capacity \<le> 0 then DefaultIdempotencyCapacity else capacity)\<rparr>"

definition NewMemoryIdempotencyStore :: mem_store where
  "NewMemoryIdempotencyStore = NewMemoryIdempotencyStoreWithCapacity DefaultIdempotencyCapacity"

definition mem_Seen :: "mem_store \<Rightarrow> string \<Rightarrow> mem_store \<times> ('e + bool)" where
  "mem_Seen s eventID = (s, Inr (eventID \<in> msSeen s))"

text \<open>The eviction loop; \<open>None\<close> is the panic of reading the oldest id of an empty list.\<close>

fun evict_loop :: "int \<Rightarrow> string set \<Rightarrow> string list \<Rightarrow> (string set \<times> string list) option" where
  "evict_loop capacity seen [] = (if capacity \<le> 0 then None else Some (seen, []))"
| "evict_loop capacity seen (oldest # rest) =
     (if capacity \<le> int (length (oldest # rest)) then evict_loop capacity (seen - {oldest}) rest
      else Some (seen, oldest # rest))"

definition mem_Mark :: "mem_store \<Rightarrow> string \<Rightarrow> mem_store option" where
  "mem_Mark s eventID =
     (if eventID \<in> msSeen s then Some s
      else (case evict_loop (msCapacity s) (msSeen s) (msOrder s) of
          None \<Rightarrow> None
        | Some (seen, order) \<Rightarrow>
            Some (s\<lparr>msSeen := insert eventID seen, msOrder := order @ [eventID]\<rparr>)))"

text \<open>
  As a store: marking never returns an error, and \<open>mem_Mark_total\<close> shows it does not panic on
  a store the constructors made.
\<close>

definition mem_Mark_state :: "mem_store \<Rightarrow> string \<Rightarrow> mem_store" where
  "mem_Mark_state s eventID = (case mem_Mark s eventID of Some s' \<Rightarrow> s' | None \<Rightarrow> s)"

definition mem_MarkProcessed :: "mem_store \<Rightarrow> string \<Rightarrow> mem_store \<times> 'e option" where
  "mem_MarkProcessed s eventID = (mem_Mark_state s eventID, None)"

definition memory_store :: "(mem_store, 'e) id_store" where
  "memory_store = \<lparr>Seen = mem_Seen, MarkProcessed = mem_MarkProcessed\<rparr>"

definition mem_ok :: "mem_store \<Rightarrow> bool" where
  "mem_ok s \<longleftrightarrow> 0 < msCapacity s \<and> distinct (msOrder s) \<and> set (msOrder s) = msSeen s \<and>
     int (length (msOrder s)) \<le> msCapacity s"

lemma mem_ok_new [simp]: "mem_ok (NewMemoryIdempotencyStoreWithCapacity c)"
  by (simp add: mem_ok_def NewMemoryIdempotencyStoreWithCapacity_def DefaultIdempotencyCapacity_def)

text \<open>The loop drops just enough of the oldest ids to leave room for one.\<close>

lemma evict_loop_room: "int (length order) < capacity \<Longrightarrow> evict_loop capacity seen order = Some (seen, order)"
  by (cases order) simp_all

lemma evict_loop_eq:
  assumes "0 < capacity" and "int (length order) \<le> capacity"
  shows "evict_loop capacity seen order =
    (if int (length order) = capacity then Some (seen - {hd order}, tl order) else Some (seen, order))"
proof (cases "int (length order) = capacity")
  case True
  with assms(1) obtain a rest where o: "order = a # rest" by (cases order) auto
  with True have "evict_loop capacity (seen - {a}) rest = Some (seen - {a}, rest)"
    by (intro evict_loop_room) simp
  with o True show ?thesis by simp
next
  case False
  with assms(2) show ?thesis by (simp add: evict_loop_room)
qed

lemma mem_Mark_eq:
  assumes "mem_ok s"
  shows "mem_Mark s x =
    (if x \<in> msSeen s then Some s
     else if int (length (msOrder s)) = msCapacity s
     then Some (s\<lparr>msSeen := insert x (msSeen s - {hd (msOrder s)}), msOrder := tl (msOrder s) @ [x]\<rparr>)
     else Some (s\<lparr>msSeen := insert x (msSeen s), msOrder := msOrder s @ [x]\<rparr>))"
proof -
  have "0 < msCapacity s" "int (length (msOrder s)) \<le> msCapacity s" using assms by (simp_all add: mem_ok_def)
  note e = evict_loop_eq [OF this, of "msSeen s"]
  show ?thesis
    by (cases "x \<in> msSeen s"; cases "int (length (msOrder s)) = msCapacity s") (simp_all add: mem_Mark_def e)
qed

lemma mem_Mark_total: "mem_ok s \<Longrightarrow> mem_Mark s x \<noteq> None"
  by (simp add: mem_Mark_eq)

lemma mem_ok_Mark:
  assumes "mem_ok s" and "mem_Mark s x = Some s'"
  shows "mem_ok s' \<and> x \<in> msSeen s' \<and> msSeen s' \<subseteq> insert x (msSeen s) \<and> msCapacity s' = msCapacity s"
proof (cases "x \<in> msSeen s")
  case True
  with assms show ?thesis by (simp add: mem_Mark_eq) blast
next
  case new: False
  from assms(1) have ok: "0 < msCapacity s" "distinct (msOrder s)" "set (msOrder s) = msSeen s"
    "int (length (msOrder s)) \<le> msCapacity s" by (simp_all add: mem_ok_def)
  show ?thesis
  proof (cases "int (length (msOrder s)) = msCapacity s")
    case True
    with ok(1) obtain a rest where o: "msOrder s = a # rest" by (cases "msOrder s") auto
    have s': "s' = s\<lparr>msSeen := insert x (msSeen s - {a}), msOrder := rest @ [x]\<rparr>"
      using assms new True by (simp add: mem_Mark_eq o)
    have "set rest = msSeen s - {a}" "a \<notin> set rest" "distinct rest" "x \<notin> set rest"
      using ok(2,3) new by (auto simp: o)
    with True ok show ?thesis unfolding s' by (auto simp: mem_ok_def o)
  next
    case False
    then have "s' = s\<lparr>msSeen := insert x (msSeen s), msOrder := msOrder s @ [x]\<rparr>"
      using assms new by (simp add: mem_Mark_eq)
    with False ok new show ?thesis by (auto simp: mem_ok_def)
  qed
qed

subsection \<open>The contract of a store\<close>

text \<open>The event id of a payload that decodes and validates.\<close>

definition payload_id :: "string \<Rightarrow> string option" where
  "payload_id payload = (case unmarshal_envelope payload of
      None \<Rightarrow> None
    | Some ev \<Rightarrow> if Validate ev = None then Some (eEventID ev) else None)"

text \<open>A handler with a record of the event ids it was given and returned nil for.\<close>

definition logged :: "('h, 'e) handler \<Rightarrow> ('h \<times> string set, 'e) handler" where
  "logged handle hD ev = (case hD of (h, D) \<Rightarrow> (case handle h ev of (h', ev', r) \<Rightarrow>
     ((h', if r = None then insert (eEventID ev) D else D), ev', r)))"

definition keeps_id :: "('h, 'e) handler \<Rightarrow> bool" where
  "keeps_id handle \<longleftrightarrow> (\<forall>h ev. eEventID (fst (snd (handle h ev))) = eEventID ev)"

lemma keeps_idD: "keeps_id handle \<Longrightarrow> handle h ev = (h', ev', r) \<Longrightarrow> eEventID ev' = eEventID ev"
  by (metis fst_conv keeps_id_def snd_conv)

locale idempotency_store =
  fixes st :: "('s, 'e) id_store"
    and ids :: "'s \<Rightarrow> string set"
    and ok :: "'s \<Rightarrow> bool"
  assumes seen_keeps: "ok s \<Longrightarrow> ok (fst (Seen st s x)) \<and> ids (fst (Seen st s x)) \<subseteq> ids s"
    and seen_true: "ok s \<Longrightarrow> snd (Seen st s x) = Inr True \<Longrightarrow> x \<in> ids s"
    and mark_keeps: "ok s \<Longrightarrow> ok (fst (MarkProcessed st s x)) \<and>
      ids (fst (MarkProcessed st s x)) \<subseteq> insert x (ids s)"
    and mark_adds: "ok s \<Longrightarrow> snd (MarkProcessed st s x) = None \<Longrightarrow>
      x \<in> ids (fst (MarkProcessed st s x))"
begin

text \<open>
  One dispatch with the store: every id in the store is one the handler returned nil for, and
  a nil result means the event is one of them.
\<close>

lemma dispatch_step:
  assumes "ok s" and "ids s \<subseteq> D" and "keeps_id handle"
    and "Dispatch U payload (Some st) (Some (logged handle)) s (h, D) m = (r, s', (h', D'), m')"
  shows "ok s' \<and> ids s' \<subseteq> D' \<and> D \<subseteq> D' \<and> (r = None \<longrightarrow> (\<exists>x. payload_id payload = Some x \<and> x \<in> D'))"
proof (cases "unmarshal_envelope payload")
  case None
  with assms show ?thesis by (auto simp: Dispatch_def)
next
  case (Some ev)
  show ?thesis
  proof (cases "Validate ev")
    case (Some msg)
    with \<open>unmarshal_envelope payload = Some ev\<close> assms show ?thesis by (auto simp: Dispatch_def)
  next
    case None
    let ?x = "eEventID ev"
    have x: "payload_id payload = Some ?x" using Some None by (simp add: payload_id_def)
    obtain s1 q where q: "Seen st s ?x = (s1, q)" by fastforce
    have s1: "ok s1" "ids s1 \<subseteq> D" using seen_keeps [OF assms(1), of ?x] assms(2) q by auto
    consider (err) e where "q = Inl e" | (dup) "q = Inr True" | (new) "q = Inr False" by (cases q) auto
    then show ?thesis
    proof cases
      case err
      with Some None q s1 assms(4) show ?thesis by (auto simp: Dispatch_def)
    next
      case dup
      then have "?x \<in> D" using seen_true [OF assms(1), of ?x] assms(2) q by auto
      with dup Some None q s1 x assms(4) show ?thesis by (auto simp: Dispatch_def)
    next
      case new
      obtain h1 ev1 e where handle: "handle h ev = (h1, ev1, e)" by (cases "handle h ev") auto
      have id: "eEventID ev1 = ?x" by (rule keeps_idD [OF assms(3) handle])
      show ?thesis
      proof (cases e)
        case (Some err)
        with new \<open>unmarshal_envelope payload = Some ev\<close> None q s1 handle assms(4) show ?thesis
          by (auto simp: Dispatch_def logged_def)
      next
        case e: None
        obtain s2 e2 where mk: "MarkProcessed st s1 ?x = (s2, e2)" by fastforce
        have s2: "ok s2" "ids s2 \<subseteq> insert ?x D"
          using mark_keeps [OF s1(1), of ?x] s1(2) mk by auto
        from new Some None q handle e id mk s2 x assms(4) show ?thesis
          by (cases e2) (auto simp: Dispatch_def logged_def)
      qed
    qed
  qed
qed

end

lemma mem_Mark_state_ok:
  assumes "mem_ok s"
  shows "mem_ok (mem_Mark_state s x) \<and> x \<in> msSeen (mem_Mark_state s x) \<and>
    msSeen (mem_Mark_state s x) \<subseteq> insert x (msSeen s)"
proof -
  obtain s' where "mem_Mark s x = Some s'" using mem_Mark_total [OF assms] by blast
  with mem_ok_Mark [OF assms this] show ?thesis by (simp add: mem_Mark_state_def)
qed

interpretation memory: idempotency_store memory_store msSeen mem_ok
  by unfold_locales (auto simp: memory_store_def mem_Seen_def mem_MarkProcessed_def mem_Mark_state_ok dest: mem_Mark_state_ok)

subsection \<open>The store's window\<close>

definition mark_all :: "string list \<Rightarrow> mem_store \<Rightarrow> mem_store" where
  "mark_all xs s = fold (\<lambda>x s. mem_Mark_state s x) xs s"

lemma mark_all_ok: "mem_ok s \<Longrightarrow> mem_ok (mark_all xs s)"
  by (induction xs arbitrary: s) (simp_all add: mark_all_def mem_Mark_state_ok)

lemma mark_all_snoc: "mark_all (xs @ [x]) s = mem_Mark_state (mark_all xs s) x"
  by (simp add: mark_all_def)

lemma mem_Mark_capacity: "mem_ok s \<Longrightarrow> msCapacity (mem_Mark_state s x) = msCapacity s"
  using mem_Mark_total [of s x] mem_ok_Mark [of s x] by (auto simp: mem_Mark_state_def)

lemma mark_all_capacity: "mem_ok s \<Longrightarrow> msCapacity (mark_all xs s) = msCapacity s"
  by (induction xs rule: rev_induct) (simp_all add: mark_all_snoc mark_all_ok mem_Mark_capacity, simp add: mark_all_def)

lemma order_Mark:
  "mem_ok s \<Longrightarrow> msOrder (mem_Mark_state s x) =
     (if x \<in> msSeen s then msOrder s
      else if int (length (msOrder s)) = msCapacity s then tl (msOrder s) @ [x]
      else msOrder s @ [x])"
  by (simp add: mem_Mark_state_def mem_Mark_eq)

text \<open>After a fresh id is marked, the ids behind it in the queue are among those marked since.\<close>

lemma behind_marked:
  assumes "mem_ok s" and "x \<notin> msSeen s" and "int (card (set ys)) < msCapacity s"
  shows "\<exists>front later. msOrder (mark_all ys (mem_Mark_state s x)) = front @ x # later \<and> set later \<subseteq> set ys"
  using assms(3)
proof (induction ys rule: rev_induct)
  case Nil
  from assms(1,2) show ?case by (auto simp: mark_all_def order_Mark)
next
  case (snoc y ys)
  let ?s1 = "mem_Mark_state s x" and ?t = "mark_all ys (mem_Mark_state s x)"
  have "card (set ys) \<le> card (set (ys @ [y]))" by (intro card_mono) auto
  with snoc.prems have "int (card (set ys)) < msCapacity s" by linarith
  with snoc.IH obtain front later where o: "msOrder ?t = front @ x # later" "set later \<subseteq> set ys" by blast
  have ok: "mem_ok ?t" using assms(1) by (simp add: mark_all_ok mem_Mark_state_ok)
  have cap: "msCapacity ?t = msCapacity s"
    using assms(1) by (simp add: mark_all_capacity mem_Mark_state_ok mem_Mark_capacity)
  show ?case
  proof (cases "y \<in> msSeen ?t")
    case True
    with o show ?thesis by (auto simp: mark_all_snoc order_Mark [OF ok])
  next
    case new: False
    show ?thesis
    proof (cases "int (length (msOrder ?t)) = msCapacity ?t")
      case False
      then have "msOrder (mark_all (ys @ [y]) ?s1) = front @ x # (later @ [y])"
        using new o(1) by (simp add: mark_all_snoc order_Mark [OF ok])
      moreover have "set (later @ [y]) \<subseteq> set (ys @ [y])" using o(2) by auto
      ultimately show ?thesis by blast
    next
      case True
      have "front \<noteq> []"
      proof
        assume "front = []"
        then have len: "int (length later) = msCapacity s - 1" using True o(1) cap by simp
        have "distinct later" "set (msOrder ?t) = msSeen ?t" using ok o(1) by (auto simp: mem_ok_def)
        then have "card (set later) = length later" "y \<notin> set later"
          using new o(1) by (auto simp: distinct_card)
        then have "card (insert y (set later)) = Suc (length later)" by simp
        moreover have "card (insert y (set later)) \<le> card (set (ys @ [y]))"
          using o(2) by (intro card_mono) auto
        ultimately show False using len snoc.prems by linarith
      qed
      then obtain a front' where f: "front = a # front'" by (cases front) auto
      have "msOrder (mark_all (ys @ [y]) ?s1) = front' @ x # (later @ [y])"
        using new o(1) True f by (simp add: mark_all_snoc order_Mark [OF ok])
      moreover have "set (later @ [y]) \<subseteq> set (ys @ [y])" using o(2) by auto
      ultimately show ?thesis by blast
    qed
  qed
qed

lemma recently_marked_seen:
  assumes "mem_ok s" and "x \<notin> msSeen s" and "int (card (set ys)) < msCapacity s"
  shows "x \<in> msSeen (mark_all ys (mem_Mark_state s x))"
proof -
  let ?t = "mark_all ys (mem_Mark_state s x)"
  have "mem_ok ?t" using assms(1) by (simp add: mark_all_ok mem_Mark_state_ok)
  then have "set (msOrder ?t) = msSeen ?t" by (simp add: mem_ok_def)
  with behind_marked [OF assms] show ?thesis by auto
qed

subsection \<open>The store as a window of ids\<close>

text \<open>
  What the in-memory store promises, without its two fields: the ids last marked, in the
  order of their first mark, at most \<open>n\<close> of them.
\<close>

definition window_mark :: "nat \<Rightarrow> string \<Rightarrow> string list \<Rightarrow> string list" where
  "window_mark n x w = (if x \<in> set w then w else drop (length w + 1 - n) (w @ [x]))"

lemma Mark_window:
  assumes "mem_ok s"
  shows "msOrder (mem_Mark_state s x) = window_mark (nat (msCapacity s)) x (msOrder s)"
proof -
  have cap: "0 < msCapacity s" "int (length (msOrder s)) \<le> msCapacity s" and seen: "set (msOrder s) = msSeen s"
    using assms by (simp_all add: mem_ok_def)
  show ?thesis
  proof (cases "int (length (msOrder s)) = msCapacity s")
    case True
    then have "length (msOrder s) = nat (msCapacity s)" "msOrder s \<noteq> []" using cap by auto
    then show ?thesis
      using order_Mark [OF assms, of x] seen True by (cases "msOrder s") (auto simp: window_mark_def)
  next
    case False
    then have "length (msOrder s) < nat (msCapacity s)" using cap by linarith
    then show ?thesis using order_Mark [OF assms, of x] seen False by (simp add: window_mark_def)
  qed
qed

lemma mark_all_window:
  "mem_ok s \<Longrightarrow> msOrder (mark_all xs s) = fold (window_mark (nat (msCapacity s))) xs (msOrder s)"
proof (induction xs rule: rev_induct)
  case (snoc x xs)
  then show ?case
    by (simp add: mark_all_snoc Mark_window mark_all_ok mark_all_capacity)
qed (simp add: mark_all_def)

text \<open>The eviction loop on any store: it stops, or it panics on the first empty read.\<close>

lemma evict_loop_total:
  "evict_loop capacity seen order =
     (if capacity \<le> 0 then None
      else let n = length order + 1 - nat capacity in Some (seen - set (take n order), drop n order))"
proof (induction order arbitrary: seen)
  case Nil
  then show ?case by (simp add: Let_def)
next
  case (Cons a order)
  show ?case
  proof (cases "capacity \<le> int (length (a # order))")
    case True
    have "evict_loop capacity seen (a # order) = evict_loop capacity (seen - {a}) order" using True by simp
    moreover have "length (a # order) + 1 - nat capacity = Suc (length order + 1 - nat capacity)" if "0 < capacity"
      using True that by simp
    ultimately show ?thesis using Cons.IH [of "seen - {a}"] by (auto simp: Let_def)
  next
    case False
    then have "length (a # order) + 1 - nat capacity = 0" "0 < capacity" by auto
    with False show ?thesis by simp
  qed
qed

subsection \<open>A sequence of deliveries\<close>

text \<open>Each payload with whether its dispatch returned nil.\<close>

fun deliveries ::
  "'a unicode_tables_scheme \<Rightarrow> ('s, 'e) id_store option \<Rightarrow> ('h, 'e) handler option \<Rightarrow> string list \<Rightarrow>
   's \<Rightarrow> 'h \<Rightarrow> 'f metrics \<Rightarrow> (string \<times> bool) list \<times> 's \<times> 'h \<times> 'f metrics" where
  "deliveries U store handler [] s h m = ([], s, h, m)"
| "deliveries U store handler (p # ps) s h m =
     (case Dispatch U p store handler s h m of (r, s, h, m) \<Rightarrow>
        (case deliveries U store handler ps s h m of (acks, rest) \<Rightarrow> ((p, r = None) # acks, rest)))"

context idempotency_store
begin

lemma deliveries_handled:
  assumes "ok s" and "ids s \<subseteq> D" and "keeps_id handle"
    and "deliveries U (Some st) (Some (logged handle)) ps s (h, D) m = (acks, s', (h', D'), m')"
  shows "ids s' \<subseteq> D' \<and> D \<subseteq> D' \<and> (\<forall>(p, acked) \<in> set acks. acked \<longrightarrow> (\<exists>x. payload_id p = Some x \<and> x \<in> D'))"
  using assms(1,2,4)
proof (induction ps arbitrary: s h D m acks)
  case (Cons p ps)
  obtain r s1 h1 D1 m1 where d: "Dispatch U p (Some st) (Some (logged handle)) s (h, D) m = (r, s1, (h1, D1), m1)"
    by (metis prod.exhaust)
  obtain acks' where r: "deliveries U (Some st) (Some (logged handle)) ps s1 (h1, D1) m1 = (acks', s', (h', D'), m')"
    and a: "acks = (p, r = None) # acks'"
    using Cons.prems(3) d by (auto split: prod.splits)
  note step = dispatch_step [OF Cons.prems(1,2) assms(3) d]
  from Cons.IH [OF _ _ r] step have "ids s' \<subseteq> D' \<and> D1 \<subseteq> D' \<and>
      (\<forall>(p, acked) \<in> set acks'. acked \<longrightarrow> (\<exists>x. payload_id p = Some x \<and> x \<in> D'))" by blast
  with step show ?case unfolding a by auto
qed simp

end

subsection \<open>Properties\<close>

text \<open>
  C28. The in-memory store is bounded, exact and never panics: whatever ids are marked in
  whatever order, marking one more succeeds, the store holds only ids that were marked and at
  most its capacity of them (65536 when the constructor was given none), and an id marked for
  the first time is still known after marking any further ids as long as these are fewer than
  the capacity.
\<close>

theorem memory_store_window:
  "let s = mark_all xs (NewMemoryIdempotencyStoreWithCapacity c);
       cap = (if c \<le> 0 then DefaultIdempotencyCapacity else c)
   in mem_Mark s x \<noteq> None \<and> int (card (msSeen s)) \<le> cap \<and> msSeen s \<subseteq> set xs
    \<and> (x \<notin> msSeen s \<and> int (card (set ys)) < cap \<longrightarrow>
        snd (mem_Seen (mark_all ys (mem_Mark_state s x)) x) = (Inr True :: string + bool))"
proof -
  let ?n = "NewMemoryIdempotencyStoreWithCapacity c"
  define s where "s = mark_all xs ?n"
  define cap where "cap = (if c \<le> 0 then DefaultIdempotencyCapacity else c)"
  have ok: "mem_ok s" by (simp add: s_def mark_all_ok)
  have cap: "msCapacity s = cap"
    by (simp add: s_def cap_def mark_all_capacity) (simp add: NewMemoryIdempotencyStoreWithCapacity_def)
  have "msSeen (mark_all zs ?n) \<subseteq> set zs" for zs
  proof (induction zs rule: rev_induct)
    case Nil
    then show ?case by (simp add: mark_all_def NewMemoryIdempotencyStoreWithCapacity_def)
  next
    case (snoc z zs)
    with mem_Mark_state_ok [OF mark_all_ok [OF mem_ok_new [of c], of zs], of z] show ?case
      by (auto simp: mark_all_snoc)
  qed
  moreover have "int (card (msSeen s)) \<le> cap"
    using ok cap by (auto simp: mem_ok_def distinct_card [symmetric])
  moreover have "snd (mem_Seen (mark_all ys (mem_Mark_state s x)) x) = (Inr True :: string + bool)"
    if "x \<notin> msSeen s" "int (card (set ys)) < cap"
    using recently_marked_seen [OF ok that(1)] that(2) cap by (simp add: mem_Seen_def)
  ultimately show ?thesis
    using mem_Mark_total [OF ok] unfolding s_def [symmetric] cap_def [symmetric] Let_def
    by (simp add: s_def)
qed

lemma memory_store_window_witness:
  "snd (mem_Seen (mark_all [''b'', ''b''] (mem_Mark_state
     (mark_all [''x''] (NewMemoryIdempotencyStoreWithCapacity 2)) ''a'')) ''a'') = (Inr True :: string + bool)"
  using memory_store_window [where xs = "[''x'']" and c = 2 and x = "''a''" and ys = "[''b'', ''b'']"]
  by (simp add: mark_all_def mem_Mark_state_def mem_Mark_def NewMemoryIdempotencyStoreWithCapacity_def)

text \<open>
  C22. The in-memory store implements the window. Started by a constructor, after marking any
  ids in any order it answers \<open>Seen\<close> for exactly the ids of the abstract window of its
  capacity that the same marks produce, and its two fields, the set and the order, agree.
\<close>

theorem memory_store_refines_window:
  "let cap = (if c \<le> 0 then DefaultIdempotencyCapacity else c);
       s = mark_all xs (NewMemoryIdempotencyStoreWithCapacity c);
       w = fold (window_mark (nat cap)) xs []
   in msOrder s = w \<and> msSeen s = set w \<and> distinct w \<and>
      mem_Seen s x = (s, Inr (x \<in> set w) :: string + bool) \<and>
      msOrder (mem_Mark_state s x) = window_mark (nat cap) x w"
proof -
  let ?n = "NewMemoryIdempotencyStoreWithCapacity c" and ?s = "mark_all xs (NewMemoryIdempotencyStoreWithCapacity c)"
  define cap where "cap = (if c \<le> 0 then DefaultIdempotencyCapacity else c)"
  have new: "msOrder ?n = []" "msCapacity ?n = cap"
    by (simp_all add: NewMemoryIdempotencyStoreWithCapacity_def cap_def)
  have ok: "mem_ok ?s" by (simp add: mark_all_ok)
  have w: "msOrder ?s = fold (window_mark (nat cap)) xs []" using mark_all_window [OF mem_ok_new [of c], of xs] new by simp
  have "set (msOrder ?s) = msSeen ?s" "distinct (msOrder ?s)" using ok by (simp_all add: mem_ok_def)
  moreover have "msCapacity ?s = cap" using new by (simp add: mark_all_capacity)
  ultimately show ?thesis
    using w Mark_window [OF ok, of x] unfolding cap_def [symmetric] Let_def by (auto simp: mem_Seen_def)
qed

text \<open>
  C29. \<open>MarkProcessed\<close> returns. On any store whatever its fields, marking a known id changes
  nothing; marking a new one ends after dropping exactly the ids that exceed the capacity,
  the oldest ones, and panics only where the capacity is not positive, which no constructor
  produces (the zero value of the struct does).
\<close>

theorem MarkProcessed_terminates:
  "mem_Mark s x = (if x \<in> msSeen s then Some s
     else if msCapacity s \<le> 0 then None
     else let n = length (msOrder s) + 1 - nat (msCapacity s)
       in Some (s\<lparr>msSeen := insert x (msSeen s - set (take n (msOrder s))), msOrder := drop n (msOrder s) @ [x]\<rparr>))
   \<and> 0 < msCapacity (NewMemoryIdempotencyStoreWithCapacity c)"
proof -
  have "mem_Mark s x = (if x \<in> msSeen s then Some s
     else if msCapacity s \<le> 0 then None
     else let n = length (msOrder s) + 1 - nat (msCapacity s)
       in Some (s\<lparr>msSeen := insert x (msSeen s - set (take n (msOrder s))), msOrder := drop n (msOrder s) @ [x]\<rparr>))"
    unfolding mem_Mark_def evict_loop_total by (simp add: Let_def)
  then show ?thesis
    by (simp add: NewMemoryIdempotencyStoreWithCapacity_def DefaultIdempotencyCapacity_def)
qed

text \<open>
  An acknowledged event was handled. Over any sequence of deliveries to a consumer with
  the in-memory store, redeliveries, malformed payloads and failing handlers included, every
  payload whose dispatch returned nil decodes to a valid event whose id the handler returned
  nil for, at that delivery or an earlier one (for a handler that leaves the event's id as it
  is).
\<close>

theorem acked_was_handled:
  assumes "keeps_id handle"
    and "deliveries U (Some memory_store) (Some (logged handle)) ps
      (NewMemoryIdempotencyStoreWithCapacity c) (h, {}) m = (acks, s', (h', D'), m')"
    and "(p, True) \<in> set acks"
  shows "\<exists>x. payload_id p = Some x \<and> x \<in> D'"
proof -
  have "msSeen (NewMemoryIdempotencyStoreWithCapacity c) \<subseteq> {}"
    by (simp add: NewMemoryIdempotencyStoreWithCapacity_def)
  from memory.deliveries_handled [OF mem_ok_new this assms(1,2)]
  have "\<forall>(p, acked) \<in> set acks. acked \<longrightarrow> (\<exists>x. payload_id p = Some x \<and> x \<in> D')" by (elim conjE)
  from bspec [OF this assms(3)] show ?thesis by simp
qed

definition ok_handler :: "(nat, string) handler" where
  "ok_handler n ev = (Suc n, ev, None)"

definition sample_payload :: string where
  "sample_payload = the (marshal_envelope (sample_envelope\<lparr>eEventID := ''01E''\<rparr>))"

lemma sample_payload_event:
  "unmarshal_envelope sample_payload = Some (sample_envelope\<lparr>eEventID := ''01E'',
     eAttributes := sort_key fst (eAttributes sample_envelope)\<rparr>)"
  "Validate (sample_envelope\<lparr>eEventID := ''01E'', eAttributes := sort_key fst (eAttributes sample_envelope)\<rparr>) = None"
proof -
  show "unmarshal_envelope sample_payload = Some (sample_envelope\<lparr>eEventID := ''01E'',
     eAttributes := sort_key fst (eAttributes sample_envelope)\<rparr>)"
    using marshal_unmarshal [OF envelope_wf_sample] by (auto simp: sample_payload_def decoded_sample)
  show "Validate (sample_envelope\<lparr>eEventID := ''01E'', eAttributes := sort_key fst (eAttributes sample_envelope)\<rparr>) = None"
    by (simp add: Validate_def sample_envelope_def IsZero_def sample_time_def)
qed

lemma acked_was_handled_witness:
  "\<exists>h' D' s' m'. deliveries sample_tables (Some memory_store) (Some (logged ok_handler))
      [sample_payload, sample_payload] (NewMemoryIdempotencyStoreWithCapacity 4) (0, {}) no_metrics =
      ([(sample_payload, True), (sample_payload, True)], s', (h', D'), m') \<and> h' = 1 \<and>
    (\<exists>x. payload_id sample_payload = Some x \<and> x \<in> D')"
proof -
  have k: "keeps_id ok_handler" by (simp add: keeps_id_def ok_handler_def)
  have "\<exists>s' m'. deliveries sample_tables (Some memory_store) (Some (logged ok_handler))
      [sample_payload, sample_payload] (NewMemoryIdempotencyStoreWithCapacity 4) (0, {}) no_metrics =
      ([(sample_payload, True), (sample_payload, True)], s', (1, {''01E''}), m')"
    by (simp add: Dispatch_def sample_payload_event memory_store_def mem_Seen_def logged_def ok_handler_def
        mem_MarkProcessed_def mem_Mark_state_def mem_Mark_def NewMemoryIdempotencyStoreWithCapacity_def)
  then obtain s' m' where d: "deliveries sample_tables (Some memory_store) (Some (logged ok_handler))
      [sample_payload, sample_payload] (NewMemoryIdempotencyStoreWithCapacity 4) (0, {}) no_metrics =
      ([(sample_payload, True), (sample_payload, True)], s', (1, {''01E''}), m')" by blast
  from acked_was_handled [OF k d, of sample_payload] d show ?thesis by auto
qed

text \<open>
  From publisher to handler: the payload a publisher hands to the transport for a valid
  envelope, dispatched by a consumer whose store has not seen it, reaches the handler as the
  event that was published, decoded; when the handler and the store succeed the dispatch returns
  nil, the id is marked, and a success is counted.
\<close>

theorem published_event_is_handled:
  assumes "envelope_wf ev" and "Validate ev = None" and "marshal_envelope ev = Some payload"
    and "Seen st s (eEventID ev) = (s1, Inr False)"
    and "handle h (as_decoded ev) = (h1, ev1, None)"
    and "MarkProcessed st s1 (eEventID ev1) = (s2, None)"
  shows "Dispatch U payload (Some st) (Some handle) s h m =
    (None, s2, h1, incConsume U OutcomeSuccess m)"
proof -
  let ?ev = "as_decoded ev"
  have "unmarshal_envelope payload = Some ?ev" using marshal_unmarshal [OF assms(1)] assms(3) by auto
  moreover have "Validate ?ev = None" using assms(2) by simp
  ultimately show ?thesis using assms(4-6) by (simp add: Dispatch_def)
qed

lemma published_event_is_handled_witness:
  "\<exists>s2. Dispatch sample_tables sample_payload (Some memory_store) (Some ok_handler)
     (NewMemoryIdempotencyStoreWithCapacity 4) 0 no_metrics =
   (None, s2, 1, incConsume sample_tables OutcomeSuccess no_metrics)"
proof -
  have v: "Validate (sample_envelope\<lparr>eEventID := ''01E''\<rparr>) = None"
    by (simp add: Validate_def sample_envelope_def IsZero_def sample_time_def)
  have p: "marshal_envelope (sample_envelope\<lparr>eEventID := ''01E''\<rparr>) = Some sample_payload"
    using marshal_unmarshal [OF envelope_wf_sample] by (auto simp: sample_payload_def)
  show ?thesis
    by (rule exI, rule published_event_is_handled [OF envelope_wf_sample v p])
       (simp_all add: memory_store_def mem_Seen_def NewMemoryIdempotencyStoreWithCapacity_def
         ok_handler_def mem_MarkProcessed_def)
qed

text \<open>
  C39. The dedup mark goes to the id the handler leaves in the event, not to the id that was
  checked. A handler gets a pointer to the envelope; one that returns nil with another id in
  it makes the store record that id, and an event that really has it, first delivered
  afterwards, is acknowledged as a duplicate without its handler ever running.
\<close>

theorem mark_follows_handler:
  assumes "unmarshal_envelope p1 = Some ev1" and "Validate ev1 = None"
    and "unmarshal_envelope p2 = Some ev2" and "Validate ev2 = None"
    and "mem_ok s" and "eEventID ev1 \<notin> msSeen s" and "eEventID ev2 \<notin> msSeen s"
    and "eEventID ev1 \<noteq> eEventID ev2"
    and "handle h ev1 = (h1, ev1\<lparr>eEventID := eEventID ev2\<rparr>, None)"
  shows "\<exists>s' m'. deliveries U (Some memory_store) (Some (logged handle)) [p1, p2] s (h, D) m =
      ([(p1, True), (p2, True)], s', (h1, insert (eEventID ev1) D), m')"
proof -
  have "eEventID ev2 \<in> msSeen (mem_Mark_state s (eEventID ev2))"
    using mem_Mark_state_ok [OF assms(5)] by blast
  then show ?thesis
    using assms
    by (simp add: Dispatch_def memory_store_def mem_Seen_def logged_def mem_MarkProcessed_def)
qed

definition renaming_handler :: "(nat, string) handler" where
  "renaming_handler n ev = (Suc n, ev\<lparr>eEventID := ''02F''\<rparr>, None)"

definition sample_payload2 :: string where
  "sample_payload2 = the (marshal_envelope (sample_envelope\<lparr>eEventID := ''02F''\<rparr>))"

lemma envelope_wf_sample2: "envelope_wf (sample_envelope\<lparr>eEventID := ''02F''\<rparr>)"
proof -
  have "valid_utf8 ''02F''" by code_simp
  with envelope_wf_sample show ?thesis by (auto simp: envelope_wf_def)
qed

lemma mark_follows_handler_witness:
  "\<exists>s' m'. deliveries sample_tables (Some memory_store) (Some (logged renaming_handler))
      [sample_payload, sample_payload2] (NewMemoryIdempotencyStoreWithCapacity 4) (0, {}) no_metrics =
    ([(sample_payload, True), (sample_payload2, True)], s', (1, {''01E''}), m')"
proof -
  let ?e1 = "sample_envelope\<lparr>eEventID := ''01E'', eAttributes := sort_key fst (eAttributes sample_envelope)\<rparr>"
  let ?e2 = "sample_envelope\<lparr>eEventID := ''02F'', eAttributes := sort_key fst (eAttributes sample_envelope)\<rparr>"
  have u2: "unmarshal_envelope sample_payload2 = Some ?e2"
    using marshal_unmarshal [OF envelope_wf_sample2] by (auto simp: sample_payload2_def decoded_sample)
  have v2: "Validate ?e2 = None"
    by (simp add: Validate_def sample_envelope_def IsZero_def sample_time_def)
  from mark_follows_handler [OF sample_payload_event u2 v2 mem_ok_new, of 4 renaming_handler 0 1
      sample_tables "{}" no_metrics]
  show ?thesis
    by (simp add: NewMemoryIdempotencyStoreWithCapacity_def renaming_handler_def)
qed

end
