(* ===== verification/Nats_Broker.thy ===== *)
theory Nats_Broker
  imports Consume
begin

text \<open>
  \<open>broker/natsbroker\<close>: the NATS JetStream transport and consumer.

  The NATS client is not part of the repository. What the code passes to it is data here (the
  stream, consumer and connection options, the publish call with its context), and the
  client's operations are fields of the record \<open>nats_api\<close> over its state \<open>'w\<close>, connections
  \<open>'c\<close>, certificates \<open>'k\<close> and errors \<open>'e\<close>. A nil pointer is \<open>None\<close>. Durations are in
  nanoseconds.
\<close>

abbreviation seconds :: "int \<Rightarrow> int" where
  "seconds n \<equiv> n * 1000000000"

definition publishTimeout :: int where
  "publishTimeout = seconds 5"

definition VersionTLS12 :: nat where
  "VersionTLS12 = 0x0303"

definition defaultAckWait :: int where
  "defaultAckWait = seconds 30"

record nats_config =
  ncURL :: string
  ncTLSCert :: string
  ncTLSKey :: string
  ncTLSCA :: string
  ncName :: string

record 'k tls_config =
  tlsMinVersion :: nat
  tlsCertificates :: "'k list"
  tlsRootCAs :: "string option"

datatype 'k nats_option =
    NatsName string
  | MaxReconnects int
  | ReconnectWait int
  | Secure "'k tls_config"

text \<open>The context of a call: the caller's, detached from cancellation, or with a deadline.\<close>

datatype 'ctx call_ctx =
    CallerCtx 'ctx
  | WithoutCancel "'ctx call_ctx"
  | WithTimeout "'ctx call_ctx" int

datatype publish_opt = WithMsgID string

datatype storage = FileStorage | MemoryStorage
datatype retention = LimitsPolicy | InterestPolicy | WorkQueuePolicy
datatype discard = DiscardOld | DiscardNew
datatype ack_policy = AckExplicitPolicy | AckAllPolicy | AckNonePolicy

record jet_stream_config =
  jsName :: string
  jsSubjects :: "string list"
  jsStorage :: storage
  jsRetention :: retention
  jsMaxAge :: int
  jsMaxBytes :: int
  jsDiscard :: discard
  jsDuplicates :: int

record jet_consumer_config =
  jcDurable :: string
  jcFilterSubject :: string
  jcAckPolicy :: ack_policy
  jcAckWait :: int
  jcMaxDeliver :: int

record ('ctx, 'w, 'c, 'j, 'jc, 'cc, 'cb, 'k, 'e) nats_api =
  X509KeyPair :: "string \<Rightarrow> string \<Rightarrow> 'e + 'k"
  AppendCertsFromPEM :: "string \<Rightarrow> bool"
  nats_Connect :: "'w \<Rightarrow> string \<Rightarrow> 'k nats_option list \<Rightarrow> 'w \<times> ('e + 'c)"
  jetstream_New :: "'w \<Rightarrow> 'c \<Rightarrow> 'e + 'j"
  nc_Close :: "'w \<Rightarrow> 'c \<Rightarrow> 'w"
  nc_Drain :: "'w \<Rightarrow> 'c \<Rightarrow> 'w"
  nc_IsConnected :: "'w \<Rightarrow> 'c \<Rightarrow> bool"
  js_Publish :: "'w \<Rightarrow> 'j \<Rightarrow> 'ctx call_ctx \<Rightarrow> string \<Rightarrow> string \<Rightarrow> publish_opt list \<Rightarrow> 'w \<times> 'e option"
  js_CreateOrUpdateStream :: "'w \<Rightarrow> 'j \<Rightarrow> jet_stream_config \<Rightarrow> 'w \<times> 'e option"
  js_CreateOrUpdateConsumer :: "'w \<Rightarrow> 'j \<Rightarrow> string \<Rightarrow> jet_consumer_config \<Rightarrow> 'w \<times> ('e + 'jc)"
  cons_Consume :: "'w \<Rightarrow> 'jc \<Rightarrow> 'cb \<Rightarrow> 'w \<times> ('e + 'cc)"
  cc_Stop :: "'w \<Rightarrow> 'cc \<Rightarrow> 'w"

datatype 'e nats_error =
    NErr string
  | NWrap string "string list" 'e

subsection \<open>Connecting\<close>

record ('c, 'j) conn =
  connNC :: "'c option"
  connJS :: "'j option"

definition tlsConfig ::
  "('ctx, 'w, 'c, 'j, 'jc, 'cc, 'cb, 'k, 'e) nats_api \<Rightarrow> nats_config \<Rightarrow> 'e nats_error + 'k tls_config" where
  "tlsConfig N cfg =
     (let t = \<lparr>tlsMinVersion = VersionTLS12, tlsCertificates = [], tlsRootCAs = None\<rparr>;
          withCert =
            (if ncTLSCert cfg \<noteq> [] \<and> ncTLSKey cfg \<noteq> [] then
               (case X509KeyPair N (ncTLSCert cfg) (ncTLSKey cfg) of
                  Inl e \<Rightarrow> Inl (NWrap ''natsbroker: client cert'' [] e)
                | Inr cert \<Rightarrow> Inr (t\<lparr>tlsCertificates := [cert]\<rparr>))
             else Inr t)
      in (case withCert of
            Inl e \<Rightarrow> Inl e
          | Inr t \<Rightarrow>
              if ncTLSCA cfg \<noteq> [] then
                (if \<not> AppendCertsFromPEM N (ncTLSCA cfg) then Inl (NErr ''natsbroker: invalid TLS CA PEM'')
                 else Inr (t\<lparr>tlsRootCAs := Some (ncTLSCA cfg)\<rparr>))
              else Inr t))"

definition Connect ::
  "('ctx, 'w, 'c, 'j, 'jc, 'cc, 'cb, 'k, 'e) nats_api \<Rightarrow> nats_config \<Rightarrow> 'w \<Rightarrow>
   'w \<times> ('e nats_error + ('c, 'j) conn)" where
  "Connect N cfg w =
     (if ncURL cfg = [] then (w, Inl (NErr ''natsbroker: empty broker url''))
      else
        let opts = [NatsName (ncName cfg), MaxReconnects (- 1), ReconnectWait (seconds 2)];
            withTLS =
              (if ncTLSCert cfg \<noteq> [] \<or> ncTLSCA cfg \<noteq> [] then
                 (case tlsConfig N cfg of Inl e \<Rightarrow> Inl e | Inr t \<Rightarrow> Inr (opts @ [Secure t]))
               else Inr opts)
        in (case withTLS of
              Inl e \<Rightarrow> (w, Inl e)
            | Inr opts \<Rightarrow>
                (case nats_Connect N w (ncURL cfg) opts of
                   (w, Inl e) \<Rightarrow> (w, Inl (NWrap ''natsbroker: connect'' [ncURL cfg] e))
                 | (w, Inr nc) \<Rightarrow>
                     (case jetstream_New N w nc of
                        Inl e \<Rightarrow> (nc_Close N w nc, Inl (NWrap ''natsbroker: jetstream'' [] e))
                      | Inr js \<Rightarrow> (w, Inr \<lparr>connNC = Some nc, connJS = Some js\<rparr>)))))"

text \<open>\<open>JetStream\<close> and \<open>NewTransport\<close> read a field of the connection: on a nil one they panic.\<close>

definition JetStream :: "('c, 'j) conn option \<Rightarrow> 'j option option" where
  "JetStream c = map_option connJS c"

definition Ping ::
  "('ctx, 'w, 'c, 'j, 'jc, 'cc, 'cb, 'k, 'e) nats_api \<Rightarrow> ('c, 'j) conn option \<Rightarrow> 'w \<Rightarrow> 'e nats_error option" where
  "Ping N c w = (case Option.bind c connNC of
      None \<Rightarrow> Some (NErr ''natsbroker: nil connection'')
    | Some nc \<Rightarrow> if \<not> nc_IsConnected N w nc then Some (NErr ''natsbroker: not connected'') else None)"

definition Close ::
  "('ctx, 'w, 'c, 'j, 'jc, 'cc, 'cb, 'k, 'e) nats_api \<Rightarrow> ('c, 'j) conn option \<Rightarrow> 'w \<Rightarrow> 'w" where
  "Close N c w = (case Option.bind c connNC of None \<Rightarrow> w | Some nc \<Rightarrow> nc_Drain N w nc)"

subsection \<open>Streams\<close>

record stream_config =
  scName :: string
  scSubjects :: "string list"
  scMaxAge :: int
  scMaxBytes :: int
  scDuplicates :: int

definition maxBytes :: "int \<Rightarrow> int" where
  "maxBytes v = (if v \<le> 0 then - 1 else v)"

definition EnsureStream ::
  "('ctx, 'w, 'c, 'j, 'jc, 'cc, 'cb, 'k, 'e) nats_api \<Rightarrow> ('c, 'j) conn option \<Rightarrow> stream_config \<Rightarrow> 'w \<Rightarrow>
   'w \<times> 'e nats_error option" where
  "EnsureStream N c sc w = (case Option.bind c connJS of
      None \<Rightarrow> (w, Some (NErr ''natsbroker: nil connection''))
    | Some js \<Rightarrow>
        let cfg = \<lparr>jsName = scName sc, jsSubjects = scSubjects sc, jsStorage = FileStorage,
              jsRetention = LimitsPolicy, jsMaxAge = scMaxAge sc, jsMaxBytes = maxBytes (scMaxBytes sc),
              jsDiscard = DiscardOld, jsDuplicates = scDuplicates sc\<rparr>
        in (case js_CreateOrUpdateStream N w js cfg of
              (w, Some e) \<Rightarrow> (w, Some (NWrap ''natsbroker: ensure stream'' [scName sc] e))
            | (w, None) \<Rightarrow> (w, None)))"

subsection \<open>The transport\<close>

record 'j nats_transport =
  tJS :: "'j option"

definition NewTransport :: "('c, 'j) conn option \<Rightarrow> 'j nats_transport option" where
  "NewTransport c = (case c of None \<Rightarrow> None | Some c \<Rightarrow> Some \<lparr>tJS = connJS c\<rparr>)"

definition Transport_Publish ::
  "('ctx, 'w, 'c, 'j, 'jc, 'cc, 'cb, 'k, 'e) nats_api \<Rightarrow> 'j nats_transport option \<Rightarrow> 'ctx \<Rightarrow> 'w \<Rightarrow>
   string \<Rightarrow> string \<Rightarrow> string \<Rightarrow> 'w \<times> 'e nats_error option" where
  "Transport_Publish N t ctx w topic key payload = (case Option.bind t tJS of
      None \<Rightarrow> (w, Some (NErr ''natsbroker: transport has no jetstream''))
    | Some js \<Rightarrow>
        let pctx = WithTimeout (WithoutCancel (CallerCtx ctx)) publishTimeout;
            opts = [];
            opts = (if key \<noteq> [] then opts @ [WithMsgID key] else opts)
        in (case js_Publish N w js pctx topic payload opts of
              (w, Some e) \<Rightarrow> (w, Some (NWrap ''natsbroker: publish'' [topic] e))
            | (w, None) \<Rightarrow> (w, None)))"

subsection \<open>The consumer\<close>

record consumer_config =
  ccStream :: string
  ccDurable :: string
  ccFilterSubject :: string
  ccAckWait :: int
  ccMaxDeliver :: int

text \<open>The logger is whether there is one: a nil logger is replaced by one that writes nothing.\<close>

record ('jc, 'cc, 's, 'h, 'e) consumer =
  cnCons :: "'jc option"
  cnStore :: "('s, 'e) id_store option"
  cnHandler :: "('h, 'e) handler"
  cnLog :: bool
  cnCC :: "'cc option"

definition NewConsumer ::
  "('ctx, 'w, 'c, 'j, 'jc, 'cc, 'cb, 'k, 'x) nats_api \<Rightarrow> ('c, 'j) conn option \<Rightarrow> consumer_config \<Rightarrow>
   ('s, 'e) id_store option \<Rightarrow> ('h, 'e) handler option \<Rightarrow> bool \<Rightarrow> 'w \<Rightarrow>
   'w \<times> ('x nats_error + ('jc, 'cc, 's, 'h, 'e) consumer)" where
  "NewConsumer N c cc store handler log w = (case handler of
      None \<Rightarrow> (w, Inl (NErr ''natsbroker: nil handler''))
    | Some handle \<Rightarrow> (case Option.bind c connJS of
        None \<Rightarrow> (w, Inl (NErr ''natsbroker: nil connection''))
      | Some js \<Rightarrow>
          let ackWait = ccAckWait cc;
              ackWait = (if ackWait \<le> 0 then defaultAckWait else ackWait)
          in (case js_CreateOrUpdateConsumer N w js (ccStream cc)
                \<lparr>jcDurable = ccDurable cc, jcFilterSubject = ccFilterSubject cc,
                 jcAckPolicy = AckExplicitPolicy, jcAckWait = ackWait, jcMaxDeliver = ccMaxDeliver cc\<rparr> of
                (w, Inl e) \<Rightarrow>
                  (w, Inl (NWrap ''natsbroker: ensure consumer'' [ccDurable cc, ccStream cc] e))
              | (w, Inr cons) \<Rightarrow>
                  (w, Inr \<lparr>cnCons = Some cons, cnStore = store, cnHandler = handle, cnLog = log, cnCC = None\<rparr>))))"

text \<open>
  The callback \<open>Start\<close> registers, on one message. \<open>mAckErr\<close> is what \<open>msg.Ack()\<close> returns. The
  result is the answer given, the warnings logged (message, subject) and the states.
\<close>

datatype msg_answer = Ack | Nak

record 'x message =
  mSubject :: string
  mData :: string
  mAckErr :: "'x option"

definition on_message ::
  "'a unicode_tables_scheme \<Rightarrow> ('jc, 'cc, 's, 'h, 'e) consumer \<Rightarrow> 'x message \<Rightarrow> 's \<Rightarrow> 'h \<Rightarrow> 'f metrics \<Rightarrow>
   msg_answer \<times> (string \<times> string) list \<times> 's \<times> 'h \<times> 'f metrics" where
  "on_message U c msg s h m =
     (let warn = (\<lambda>text. if cnLog c then [(text, mSubject msg)] else [])
      in (case Dispatch U (mData msg) (cnStore c) (Some (cnHandler c)) s h m of
            (Some derr, s, h, m) \<Rightarrow>
              (Nak, warn ''broker dispatch failed; nak for redelivery'', s, h, m)
          | (None, s, h, m) \<Rightarrow>
              (Ack, (if mAckErr msg \<noteq> None then warn ''broker ack failed; event will be redelivered'' else []),
               s, h, m)))"

text \<open>Starting hands the callback to the client and keeps the handle \<open>Stop\<close> needs.\<close>

definition Start ::
  "('ctx, 'w, 'c, 'j, 'jc, 'cc, 'x message \<Rightarrow> 's \<Rightarrow> 'h \<Rightarrow> 'f metrics \<Rightarrow>
     msg_answer \<times> (string \<times> string) list \<times> 's \<times> 'h \<times> 'f metrics, 'k, 'y) nats_api \<Rightarrow>
   'a unicode_tables_scheme \<Rightarrow> ('jc, 'cc, 's, 'h, 'e) consumer option \<Rightarrow> 'w \<Rightarrow>
   'w \<times> 'y nats_error option \<times> ('jc, 'cc, 's, 'h, 'e) consumer option" where
  "Start N U c w = (case Option.bind c cnCons of
      None \<Rightarrow> (w, Some (NErr ''natsbroker: nil consumer''), c)
    | Some cons \<Rightarrow> (case cons_Consume N w cons (on_message U (the c)) of
        (w, Inl e) \<Rightarrow> (w, Some (NWrap ''natsbroker: consume'' [] e), c)
      | (w, Inr cc) \<Rightarrow> (w, None, map_option (\<lambda>c. c\<lparr>cnCC := Some cc\<rparr>) c)))"

definition Stop ::
  "('ctx, 'w, 'c, 'j, 'jc, 'cc, 'cb, 'k, 'y) nats_api \<Rightarrow> ('jc, 'cc, 's, 'h, 'e) consumer option \<Rightarrow> 'w \<Rightarrow> 'w" where
  "Stop N c w = (case Option.bind c cnCC of None \<Rightarrow> w | Some cc \<Rightarrow> cc_Stop N w cc)"

subsection \<open>Properties\<close>

text \<open>
  The server can deduplicate by event. An event published over the NATS transport results
  in exactly one call of the client, with the event id as the message id, on a context that
  is cut off from the caller's cancellation and bounded by five seconds, and a payload that
  decodes to the event.
\<close>

theorem nats_publish_event:
  assumes "envelope_wf ev" and "Validate ev = None" and "connJS c = Some js"
  shows "\<exists>payload ev'. unmarshal_envelope payload = Some ev' \<and> eEventID ev' = eEventID ev \<and>
    (case js_Publish N w js (WithTimeout (WithoutCancel (CallerCtx ctx)) 5000000000) topic payload
        [WithMsgID (eEventID ev')] of (w', err) \<Rightarrow>
      fst (snd (PublishStamped U (Some (NewPublisher (Some (Transport_Publish N (NewTransport (Some c)) ctx)) service))
        topic (Some ev) w m)) = w' \<and>
      (fst (PublishStamped U (Some (NewPublisher (Some (Transport_Publish N (NewTransport (Some c)) ctx)) service))
        topic (Some ev) w m) = None \<longleftrightarrow> err = None))"
proof -
  let ?tr = "Transport_Publish N (NewTransport (Some c)) ctx"
  obtain payload where p: "marshal_envelope ev = Some payload"
    "unmarshal_envelope payload = Some (as_decoded ev)"
    using marshal_unmarshal [OF assms(1)] by blast
  obtain w' err where t: "?tr w topic (eEventID ev) payload = (w', err)" by fastforce
  have "pubTransport (NewPublisher (Some ?tr) service) = Some ?tr" by (simp add: NewPublisher_def)
  note ok = PublishStamped_ok [OF this assms(2) p(1) t, of U m]
  have "eEventID ev \<noteq> []" using assms(2) by (simp add: Validate_None_iff)
  with t have "case js_Publish N w js (WithTimeout (WithoutCancel (CallerCtx ctx)) 5000000000) topic payload
      [WithMsgID (eEventID ev)] of (w2, err2) \<Rightarrow> w2 = w' \<and> (err = None \<longleftrightarrow> err2 = None)"
    by (auto simp: Transport_Publish_def NewTransport_def assms(3) publishTimeout_def Let_def
        split: prod.splits option.splits)
  then show ?thesis
    using p(2) ok
    by (intro exI [of _ payload] exI [of _ "as_decoded ev"]) auto
qed

text \<open>A client that records what it is asked to do.\<close>

definition sample_nats :: "(unit, string list, unit, unit, unit, unit, unit, unit, string) nats_api" where
  "sample_nats = \<lparr>X509KeyPair = (\<lambda>c k. Inr ()), AppendCertsFromPEM = (\<lambda>p. True),
     nats_Connect = (\<lambda>w u opts. (w @ [u], Inr ())), jetstream_New = (\<lambda>w c. Inr ()), nc_Close = (\<lambda>w c. w),
     nc_Drain = (\<lambda>w c. w), nc_IsConnected = (\<lambda>w c. True),
     js_Publish = (\<lambda>w js ctx topic payload opts. (w @ map (\<lambda>q. case q of WithMsgID k \<Rightarrow> k) opts, None)),
     js_CreateOrUpdateStream = (\<lambda>w js cfg. (w, None)),
     js_CreateOrUpdateConsumer = (\<lambda>w js stream cfg. (w, Inr ())),
     cons_Consume = (\<lambda>w c cb. (w, Inr ())), cc_Stop = (\<lambda>w c. w)\<rparr>"

lemma nats_publish_event_witness:
  "fst (snd (PublishStamped sample_tables
     (Some (NewPublisher (Some (Transport_Publish sample_nats
        (NewTransport (Some \<lparr>connNC = Some (), connJS = Some ()\<rparr>)) ())) ''svc'')) ''audit''
     (Some (sample_envelope\<lparr>eEventID := ''01E''\<rparr>)) [] no_metrics)) = [''01E'']"
proof -
  let ?c = "\<lparr>connNC = Some (), connJS = Some ()\<rparr>"
  have v: "Validate (sample_envelope\<lparr>eEventID := ''01E''\<rparr>) = None"
    by (simp add: Validate_def sample_envelope_def IsZero_def sample_time_def)
  have js: "connJS ?c = Some ()" by simp
  from nats_publish_event [where N = sample_nats and w = "[]" and topic = "''audit''" and ctx = "()"
      and U = sample_tables and service = "''svc''" and m = no_metrics, OF envelope_wf_sample v js]
  show ?thesis by (auto simp: sample_nats_def)
qed

lemma tlsConfig_ok:
  assumes "tlsConfig N cfg = Inr t"
  shows "tlsMinVersion t = VersionTLS12 \<and>
    tlsRootCAs t = (if ncTLSCA cfg = [] then None else Some (ncTLSCA cfg)) \<and>
    (if ncTLSCert cfg \<noteq> [] \<and> ncTLSKey cfg \<noteq> []
     then \<exists>k. X509KeyPair N (ncTLSCert cfg) (ncTLSKey cfg) = Inr k \<and> tlsCertificates t = [k]
     else tlsCertificates t = [])"
  using assms by (auto simp: tlsConfig_def Let_def split: if_splits sum.splits)

lemma Connect_opened:
  assumes "Connect N cfg w = (w', Inr c)"
  shows "ncURL cfg \<noteq> [] \<and> (\<exists>nc js tls.
      nats_Connect N w (ncURL cfg)
        ([NatsName (ncName cfg), MaxReconnects (- 1), ReconnectWait (seconds 2)] @ tls) = (w', Inr nc) \<and>
      jetstream_New N w' nc = Inr js \<and> c = \<lparr>connNC = Some nc, connJS = Some js\<rparr> \<and>
      (if ncTLSCert cfg = [] \<and> ncTLSCA cfg = [] then tls = []
       else \<exists>t. tls = [Secure t] \<and> tlsMinVersion t = VersionTLS12 \<and>
         tlsRootCAs t = (if ncTLSCA cfg = [] then None else Some (ncTLSCA cfg)) \<and>
         (if ncTLSCert cfg \<noteq> [] \<and> ncTLSKey cfg \<noteq> []
          then \<exists>k. X509KeyPair N (ncTLSCert cfg) (ncTLSKey cfg) = Inr k \<and> tlsCertificates t = [k]
          else tlsCertificates t = [])))"
proof -
  let ?opts = "[NatsName (ncName cfg), MaxReconnects (- 1), ReconnectWait (seconds 2)]"
  define tls where "tls = (if ncTLSCert cfg = [] \<and> ncTLSCA cfg = [] then Inr []
    else case tlsConfig N cfg of Inl e \<Rightarrow> Inl e | Inr t \<Rightarrow> Inr [Secure t])"
  have url: "ncURL cfg \<noteq> []" using assms by (auto simp: Connect_def)
  obtain ts where ts: "tls = Inr ts"
    using assms url by (auto simp: Connect_def tls_def Let_def split: if_splits sum.splits)
  have "Connect N cfg w = (case nats_Connect N w (ncURL cfg) (?opts @ ts) of
      (w, Inl e) \<Rightarrow> (w, Inl (NWrap ''natsbroker: connect'' [ncURL cfg] e))
    | (w, Inr nc) \<Rightarrow> (case jetstream_New N w nc of
        Inl e \<Rightarrow> (nc_Close N w nc, Inl (NWrap ''natsbroker: jetstream'' [] e))
      | Inr js \<Rightarrow> (w, Inr \<lparr>connNC = Some nc, connJS = Some js\<rparr>)))"
    using ts url by (auto simp: Connect_def tls_def Let_def split: if_splits sum.splits)
  with assms obtain nc js where "nats_Connect N w (ncURL cfg) (?opts @ ts) = (w', Inr nc)"
    "jetstream_New N w' nc = Inr js" "c = \<lparr>connNC = Some nc, connJS = Some js\<rparr>"
    by (auto split: prod.splits sum.splits)
  then show ?thesis
    using url ts tlsConfig_ok [of N cfg]
    by (intro conjI exI [of _ nc] exI [of _ js] exI [of _ ts]) (auto simp: tls_def split: if_splits sum.splits)
qed

text \<open>
  C24. What secures a connection. A connection that is returned was opened with the configured
  URL and options that reconnect for ever. A certificate or a CA, and nothing else, makes it
  ask for TLS 1.2 or later, with the configured roots, and with the client certificate exactly
  when certificate and key are both there; otherwise there is no TLS option. So a key without
  a certificate changes nothing at all, not even whether TLS is asked for, and beside a CA a
  certificate without its key is ignored. A pair or a CA that is used and does not parse, and
  an empty URL, are errors before any connection is attempted.
\<close>

theorem Connect_secure:
  assumes "Connect N cfg w = (w', r)"
  shows "(\<forall>c. r = Inr c \<longrightarrow> ncURL cfg \<noteq> [] \<and> (\<exists>nc js tls.
      nats_Connect N w (ncURL cfg)
        ([NatsName (ncName cfg), MaxReconnects (- 1), ReconnectWait (seconds 2)] @ tls) = (w', Inr nc) \<and>
      jetstream_New N w' nc = Inr js \<and> c = \<lparr>connNC = Some nc, connJS = Some js\<rparr> \<and>
      (if ncTLSCert cfg = [] \<and> ncTLSCA cfg = [] then tls = []
       else \<exists>t. tls = [Secure t] \<and> tlsMinVersion t = VersionTLS12 \<and>
         tlsRootCAs t = (if ncTLSCA cfg = [] then None else Some (ncTLSCA cfg)) \<and>
         (if ncTLSCert cfg \<noteq> [] \<and> ncTLSKey cfg \<noteq> []
          then \<exists>k. X509KeyPair N (ncTLSCert cfg) (ncTLSKey cfg) = Inr k \<and> tlsCertificates t = [k]
          else tlsCertificates t = []))))
    \<and> (ncTLSCert cfg = [] \<longrightarrow> (\<forall>key. Connect N (cfg\<lparr>ncTLSKey := key\<rparr>) w = (w', r)))
    \<and> (ncTLSKey cfg = [] \<and> ncTLSCA cfg \<noteq> [] \<longrightarrow> (\<forall>cert. Connect N (cfg\<lparr>ncTLSCert := cert\<rparr>) w = (w', r)))
    \<and> (\<forall>e. ncURL cfg \<noteq> [] \<and> ncTLSCert cfg \<noteq> [] \<and> ncTLSKey cfg \<noteq> [] \<and>
        X509KeyPair N (ncTLSCert cfg) (ncTLSKey cfg) = Inl e \<longrightarrow>
        w' = w \<and> r = Inl (NWrap ''natsbroker: client cert'' [] e))
    \<and> (ncURL cfg \<noteq> [] \<and> ncTLSCA cfg \<noteq> [] \<and> \<not> AppendCertsFromPEM N (ncTLSCA cfg) \<longrightarrow>
        w' = w \<and> (\<exists>e. r = Inl e))
    \<and> (ncURL cfg = [] \<longrightarrow> w' = w \<and> r = Inl (NErr ''natsbroker: empty broker url''))"
proof -
  have pair: "tlsConfig N cfg = Inl (NWrap ''natsbroker: client cert'' [] e)"
    if "ncTLSCert cfg \<noteq> []" "ncTLSKey cfg \<noteq> []" "X509KeyPair N (ncTLSCert cfg) (ncTLSKey cfg) = Inl e" for e
    using that by (simp add: tlsConfig_def)
  have ca: "\<exists>e. tlsConfig N cfg = Inl e" if "ncTLSCA cfg \<noteq> []" "\<not> AppendCertsFromPEM N (ncTLSCA cfg)"
    using that by (cases "tlsConfig N cfg") (auto simp: tlsConfig_def Let_def split: sum.splits if_splits)
  have early: "w' = w \<and> r = Inl e"
    if "ncURL cfg \<noteq> []" "ncTLSCert cfg \<noteq> [] \<or> ncTLSCA cfg \<noteq> []" "tlsConfig N cfg = Inl e" for e
    using assms that by (auto simp: Connect_def)
  have key: "Connect N (cfg\<lparr>ncTLSKey := key\<rparr>) w = (w', r)" if "ncTLSCert cfg = []" for key
    unfolding assms [symmetric] using that by (simp add: Connect_def tlsConfig_def Let_def cong: if_cong)
  have cert: "Connect N (cfg\<lparr>ncTLSCert := cert\<rparr>) w = (w', r)" if "ncTLSKey cfg = []" "ncTLSCA cfg \<noteq> []" for cert
    unfolding assms [symmetric] using that by (simp add: Connect_def tlsConfig_def Let_def cong: if_cong)
  have url: "w' = w \<and> r = Inl (NErr ''natsbroker: empty broker url'')" if "ncURL cfg = []"
    using assms that by (simp add: Connect_def)
  have "Connect N cfg w = (w', Inr c)" if "r = Inr c" for c using assms that by simp
  note opened = Connect_opened [OF this]
  have bad_pair: "w' = w \<and> r = Inl (NWrap ''natsbroker: client cert'' [] e)"
    if "ncURL cfg \<noteq> []" "ncTLSCert cfg \<noteq> []" "ncTLSKey cfg \<noteq> []" "X509KeyPair N (ncTLSCert cfg) (ncTLSKey cfg) = Inl e" for e
    using early [OF that(1) _ pair [OF that(2-4)]] that(2) by simp
  have bad_ca: "w' = w \<and> (\<exists>e. r = Inl e)"
    if "ncURL cfg \<noteq> []" "ncTLSCA cfg \<noteq> []" "\<not> AppendCertsFromPEM N (ncTLSCA cfg)"
    using early [OF that(1)] ca [OF that(2,3)] that(2) by blast
  show ?thesis
    using opened key cert bad_pair bad_ca url by (intro conjI) blast+
qed

definition sample_nats_config :: nats_config where
  "sample_nats_config = \<lparr>ncURL = ''tls://b:4222'', ncTLSCert = ''C'', ncTLSKey = ''K'', ncTLSCA = ''A'', ncName = ''svc''\<rparr>"

text \<open>Full material, and a key alone.\<close>

lemma Connect_secure_witness:
  "(\<exists>opts t. nats_Connect sample_nats [] ''tls://b:4222'' (opts @ [Secure t]) = ([''tls://b:4222''], Inr ()) \<and>
     tlsRootCAs t = Some ''A'' \<and> tlsCertificates t = [()]) \<and>
   Connect sample_nats (sample_nats_config\<lparr>ncTLSCert := [], ncTLSCA := []\<rparr>) [] =
   Connect sample_nats (sample_nats_config\<lparr>ncTLSCert := [], ncTLSCA := [], ncTLSKey := []\<rparr>) []"
proof
  have c: "Connect sample_nats sample_nats_config [] =
      ([''tls://b:4222''], Inr \<lparr>connNC = Some (), connJS = Some ()\<rparr>)"
    by (simp add: Connect_def tlsConfig_def sample_nats_def sample_nats_config_def)
  obtain tls t where "nats_Connect sample_nats [] ''tls://b:4222''
      ([NatsName ''svc'', MaxReconnects (- 1), ReconnectWait (seconds 2)] @ tls) = ([''tls://b:4222''], Inr ())"
    "tls = [Secure t]" "tlsRootCAs t = Some ''A''" "tlsCertificates t = [()]"
    using Connect_secure [OF c] by (auto simp: sample_nats_config_def)
  then show "\<exists>opts t. nats_Connect sample_nats [] ''tls://b:4222'' (opts @ [Secure t]) = ([''tls://b:4222''], Inr ()) \<and>
     tlsRootCAs t = Some ''A'' \<and> tlsCertificates t = [()]"
    by blast
  let ?key = "sample_nats_config\<lparr>ncTLSCert := [], ncTLSCA := []\<rparr>"
  obtain w r where k: "Connect sample_nats ?key [] = (w, r)" by fastforce
  from Connect_secure [OF k] have "\<forall>key. Connect sample_nats (?key\<lparr>ncTLSKey := key\<rparr>) [] = (w, r)" by simp
  with k show "Connect sample_nats ?key [] = Connect sample_nats (sample_nats_config\<lparr>ncTLSCert := [], ncTLSCA := [], ncTLSKey := []\<rparr>) []"
    by simp
qed

end
