(* ===== verification/Delivery.thy ===== *)
theory Delivery
  imports Nats_Broker
begin

text \<open>
  Delivery from the stream to the instances of a consumer, as a step relation.

  The server keeps a message until it is acknowledged and delivers any message it keeps, in
  any order, any number of times, to any instance of the consumer. Each instance has an
  in-memory store of its own; the sink behind the handlers is shared. \<open>snd handled\<close> is the set
  of event ids the handler has returned nil for. A step is a publish, a delivery, whose
  acknowledgement may get lost, or a restart of an instance, which loses its store. What
  happens to one message is \<open>on_message\<close>, the callback of \<open>broker/natsbroker/consumer.go\<close>.
\<close>

record 'h delivery =
  published :: "string list"
  kept :: "string list"
  stores :: "nat \<Rightarrow> mem_store"
  handled :: "'h \<times> string set"

definition sink_consumer :: "('h, 'e) handler \<Rightarrow> (unit, unit, mem_store, 'h \<times> string set, 'e) consumer" where
  "sink_consumer handle = \<lparr>cnCons = Some (), cnStore = Some memory_store, cnHandler = logged handle,
     cnLog = True, cnCC = None\<rparr>"

definition after_message ::
  "nat \<Rightarrow> mem_store \<Rightarrow> 'h \<times> string set \<Rightarrow> 'h delivery \<Rightarrow> 'h delivery" where
  "after_message i s hs d = d\<lparr>stores := (stores d)(i := s), handled := hs\<rparr>"

definition acknowledged :: "string message \<Rightarrow> 'h delivery \<Rightarrow> 'h delivery" where
  "acknowledged msg d = (if mAckErr msg \<noteq> None then d else d\<lparr>kept := remove1 (mData msg) (kept d)\<rparr>)"

inductive delivery_step ::
  "'a unicode_tables_scheme \<Rightarrow> ('h, 'e) handler \<Rightarrow> int \<Rightarrow> 'h delivery \<Rightarrow> 'h delivery \<Rightarrow> bool"
  for U :: "'a unicode_tables_scheme" and handle :: "('h, 'e) handler" and capacity :: int where
  publish: "delivery_step U handle capacity d
     (d\<lparr>published := payload # published d, kept := payload # kept d\<rparr>)"
| acked: "mData msg \<in> set (kept d) \<Longrightarrow>
     on_message U (sink_consumer handle) msg (stores d i) (handled d) (m :: unit metrics) = (Ack, ws, s, hs, m') \<Longrightarrow>
     delivery_step U handle capacity d (acknowledged msg (after_message i s hs d))"
| naked: "mData (msg :: string message) \<in> set (kept d) \<Longrightarrow>
     on_message U (sink_consumer handle) msg (stores d i) (handled d) (m :: unit metrics) = (Nak, ws, s, hs, m') \<Longrightarrow>
     delivery_step U handle capacity d (after_message i s hs d)"
| restart: "delivery_step U handle capacity d
     (d\<lparr>stores := (stores d)(i := NewMemoryIdempotencyStoreWithCapacity capacity)\<rparr>)"

definition delivery_start :: "int \<Rightarrow> 'h \<Rightarrow> 'h delivery" where
  "delivery_start capacity h = \<lparr>published = [], kept = [],
     stores = (\<lambda>i. NewMemoryIdempotencyStoreWithCapacity capacity), handled = (h, {})\<rparr>"

inductive delivery_reachable ::
  "'a unicode_tables_scheme \<Rightarrow> ('h, 'e) handler \<Rightarrow> int \<Rightarrow> 'h \<Rightarrow> 'h delivery \<Rightarrow> bool"
  for U :: "'a unicode_tables_scheme" and handle :: "('h, 'e) handler" and capacity :: int and h :: 'h where
  start: "delivery_reachable U handle capacity h (delivery_start capacity h)"
| step: "delivery_reachable U handle capacity h d \<Longrightarrow> delivery_step U handle capacity d d' \<Longrightarrow>
     delivery_reachable U handle capacity h d'"

subsection \<open>The invariant\<close>

definition delivery_ok :: "'h delivery \<Rightarrow> bool" where
  "delivery_ok d \<longleftrightarrow> (\<forall>i. mem_ok (stores d i) \<and> msSeen (stores d i) \<subseteq> snd (handled d)) \<and>
     (\<forall>p \<in> set (published d). p \<in> set (kept d) \<or>
        (\<exists>x. payload_id p = Some x \<and> x \<in> snd (handled d)))"

lemma delivery_okD:
  "delivery_ok d \<Longrightarrow> mem_ok (stores d i)" "delivery_ok d \<Longrightarrow> msSeen (stores d i) \<subseteq> snd (handled d)"
  by (auto simp: delivery_ok_def)

lemma fresh_store_ok [simp]:
  "msSeen (NewMemoryIdempotencyStoreWithCapacity c) = {}"
  by (simp add: NewMemoryIdempotencyStoreWithCapacity_def)

lemma on_message_step:
  assumes "keeps_id handle" and "mem_ok s" and "msSeen s \<subseteq> snd hs"
    and "on_message U (sink_consumer handle) msg s hs m = (ans, ws, s', hs', m')"
  shows "mem_ok s' \<and> msSeen s' \<subseteq> snd hs' \<and> snd hs \<subseteq> snd hs' \<and>
    (ans = Ack \<longrightarrow> (\<exists>x. payload_id (mData msg) = Some x \<and> x \<in> snd hs'))"
proof -
  obtain h D h' D' where hs: "hs = (h, D)" "hs' = (h', D')" by (metis prod.exhaust)
  obtain r s1 h1 D1 m1 where d: "Dispatch U (mData msg) (Some memory_store) (Some (logged handle)) s (h, D) m =
      (r, s1, (h1, D1), m1)" by (metis prod.exhaust)
  have "s1 = s'" "h1 = h'" "D1 = D'" "ans = Ack \<longrightarrow> r = None"
    using assms(4) d hs by (auto simp: on_message_def sink_consumer_def Let_def split: option.splits)
  with memory.dispatch_step [OF assms(2) _ assms(1) d] assms(3) hs show ?thesis by simp
qed

lemma after_message_ok:
  assumes "delivery_ok d" and "mem_ok s" and "msSeen s \<subseteq> snd hs" and "snd (handled d) \<subseteq> snd hs"
  shows "delivery_ok (after_message i s hs d)"
  using assms by (auto simp: delivery_ok_def after_message_def; blast)

lemma acknowledged_ok:
  assumes "delivery_ok d" and "payload_id (mData msg) = Some x" and "x \<in> snd (handled d)"
  shows "delivery_ok (acknowledged msg d)"
proof -
  have "p \<in> set (remove1 (mData msg) (kept d)) \<or> p = mData msg" if "p \<in> set (kept d)" for p
    using that in_set_remove1 by metis
  with assms show ?thesis by (fastforce simp: delivery_ok_def acknowledged_def)
qed

lemma delivery_step_ok:
  assumes "keeps_id handle" and "delivery_ok d" and "delivery_step U handle capacity d d'"
  shows "delivery_ok d'"
  using assms(3)
proof (cases rule: delivery_step.cases)
  case (publish payload)
  with assms(2) show ?thesis by (auto simp: delivery_ok_def)
next
  case (acked msg i m ws s hs m')
  note s = on_message_step [OF assms(1) delivery_okD [OF assms(2)] acked(3)]
  then have "delivery_ok (after_message i s hs d)" using assms(2) by (intro after_message_ok) auto
  with s show ?thesis unfolding acked(1) by (auto intro!: acknowledged_ok simp: after_message_def)
next
  case (naked msg i m ws s hs m')
  from on_message_step [OF assms(1) delivery_okD [OF assms(2)] naked(3)] assms(2)
  show ?thesis unfolding naked(1) by (intro after_message_ok) auto
next
  case restart
  with assms(2) show ?thesis by (auto simp: delivery_ok_def)
qed

lemma delivery_reachable_ok:
  assumes "keeps_id handle" and "delivery_reachable U handle capacity h d"
  shows "delivery_ok d"
  using assms(2)
proof (induction rule: delivery_reachable.induct)
  case start
  show ?case by (simp add: delivery_ok_def delivery_start_def)
next
  case (step d d')
  then show ?case using delivery_step_ok [OF assms(1)] by blast
qed

lemma delivery_reachable_steps:
  "(delivery_step U handle capacity ^^ n) d d' \<Longrightarrow> delivery_reachable U handle capacity h d \<Longrightarrow>
   delivery_reachable U handle capacity h d'"
  by (induction n arbitrary: d') (auto intro: delivery_reachable.step)

subsection \<open>One delivery that succeeds\<close>

lemma deliver_one:
  assumes "keeps_id handle" and "delivery_ok d" and "p \<in> set (kept d)"
    and "unmarshal_envelope p = Some ev" and "Validate ev = None"
    and "handled d = (hs, D)" and "handle hs ev = (hs', ev', None)"
  shows "\<exists>d'. delivery_step U handle capacity d d' \<and> kept d' = remove1 p (kept d) \<and>
    published d' = published d \<and> eEventID ev \<in> snd (handled d') \<and>
    (eEventID ev \<in> msSeen (stores d i) \<longrightarrow> handled d' = handled d)"
proof -
  let ?msg = "\<lparr>mSubject = [], mData = p, mAckErr = None\<rparr> :: string message"
  let ?s = "stores d i"
  have ok: "msSeen ?s \<subseteq> D" using delivery_okD(2) [OF assms(2), of i] assms(6) by simp
  have id: "eEventID ev' = eEventID ev" by (rule keeps_idD [OF assms(1,7)])
  have p: "mData ?msg \<in> set (kept d)" using assms(3) by simp
  show ?thesis
  proof (cases "eEventID ev \<in> msSeen ?s")
    case True
    then obtain m' where "on_message U (sink_consumer handle) ?msg ?s (handled d) no_metrics =
        (Ack, [], ?s, (hs, D), m')"
      using assms(4-6) by (auto simp: on_message_def sink_consumer_def Dispatch_def memory_store_def mem_Seen_def)
    from delivery_step.acked [OF p this, of capacity] True ok assms(6)
    show ?thesis by (intro exI conjI) (assumption, auto simp: acknowledged_def after_message_def)
  next
    case False
    then obtain m' where "on_message U (sink_consumer handle) ?msg ?s (handled d) no_metrics =
        (Ack, [], mem_Mark_state ?s (eEventID ev), (hs', insert (eEventID ev) D), m')"
      using assms(4-7) id
      by (auto simp: on_message_def sink_consumer_def Dispatch_def memory_store_def mem_Seen_def logged_def
          mem_MarkProcessed_def)
    from delivery_step.acked [OF p this, of capacity] False
    show ?thesis by (intro exI conjI) (assumption, auto simp: acknowledged_def after_message_def)
  qed
qed

lemma drain:
  assumes "keeps_id handle" and "\<And>h ev. snd (snd (handle h ev)) = None"
    and "delivery_ok d" and "\<forall>p \<in> set (kept d). payload_id p \<noteq> None"
  shows "\<exists>d'. (delivery_step U handle capacity ^^ length (kept d)) d d' \<and> kept d' = [] \<and>
    published d' = published d"
  using assms(3,4)
proof (induction "length (kept d)" arbitrary: d)
  case 0
  then show ?case by auto
next
  case (Suc n)
  then obtain p rest where k: "kept d = p # rest" by (cases "kept d") auto
  with Suc.prems obtain ev where ev: "unmarshal_envelope p = Some ev" "Validate ev = None"
    by (auto simp: payload_id_def split: option.splits if_splits)
  obtain hs D where hs: "handled d = (hs, D)" by fastforce
  obtain hs' ev' where handle: "handle hs ev = (hs', ev', None)"
    using assms(2) [of hs ev] by (metis prod.exhaust snd_conv)
  have "p \<in> set (kept d)" using k by simp
  from deliver_one [OF assms(1) Suc.prems(1) this ev hs handle, of U capacity 0]
  obtain d1 where d1: "delivery_step U handle capacity d d1" "kept d1 = rest" "published d1 = published d"
    by (auto simp: k)
  have "delivery_ok d1" by (rule delivery_step_ok [OF assms(1) Suc.prems(1) d1(1)])
  moreover have "n = length (kept d1)" using Suc.hyps(2) k d1(2) by simp
  moreover have "\<forall>p \<in> set (kept d1). payload_id p \<noteq> None" using Suc.prems(2) k d1(2) by simp
  ultimately obtain d' where "(delivery_step U handle capacity ^^ n) d1 d'" "kept d' = []" "published d' = published d1"
    using Suc.hyps(1) by blast
  with d1 Suc.hyps(2) show ?case by (metis relpowp_Suc_I2)
qed

subsection \<open>Properties\<close>

text \<open>
  C2. An event is never lost between the stream and the handler. However publishes,
  deliveries to any instance, redeliveries, handler failures, lost acknowledgements and
  restarts interleave, every payload ever published is still kept by the server or is a
  valid event the handler has returned nil for; in particular a payload that is not a valid
  event is never acknowledged away. (For a handler that leaves the event's id as it is.)
\<close>

theorem delivery_never_loses:
  assumes "keeps_id handle" and "delivery_reachable U handle capacity h d" and "p \<in> set (published d)"
  shows "p \<in> set (kept d) \<or> (\<exists>x. payload_id p = Some x \<and> x \<in> snd (handled d))"
  using delivery_reachable_ok [OF assms(1,2)] assms(3) unfolding delivery_ok_def by blast

definition one_kept :: "nat delivery" where
  "one_kept = (delivery_start 4 0)\<lparr>published := [sample_payload], kept := [sample_payload]\<rparr>"

lemma one_kept_reachable: "delivery_reachable sample_tables ok_handler 4 0 one_kept"
proof -
  let ?d = "delivery_start 4 (0 :: nat)"
  have "delivery_step sample_tables ok_handler 4 ?d
      (?d\<lparr>published := sample_payload # published ?d, kept := sample_payload # kept ?d\<rparr>)"
    by (rule delivery_step.publish)
  from delivery_reachable.step [OF delivery_reachable.start this] show ?thesis
    by (simp add: one_kept_def) (simp add: delivery_start_def)
qed

lemma keeps_id_ok_handler: "keeps_id ok_handler"
  by (simp add: keeps_id_def ok_handler_def)

lemma one_kept_fields: "kept one_kept = [sample_payload]" "published one_kept = [sample_payload]"
  "handled one_kept = (0, {})"
  by (simp_all add: one_kept_def delivery_start_def)

lemma delivery_never_loses_witness:
  "\<exists>d. delivery_reachable sample_tables ok_handler 4 0 d \<and> published d = [sample_payload] \<and> kept d = [] \<and>
     (\<exists>x. payload_id sample_payload = Some x \<and> x \<in> snd (handled d))"
proof -
  note k = keeps_id_ok_handler
  have "sample_payload \<in> set (kept one_kept)" "handled one_kept = (0, {})" by (simp_all add: one_kept_fields)
  from deliver_one [OF k delivery_reachable_ok [OF k one_kept_reachable] this(1) sample_payload_event this(2),
      of 1 _ sample_tables 4 0]
  obtain d where d: "delivery_step sample_tables ok_handler 4 one_kept d" "kept d = []" "published d = [sample_payload]"
    by (auto simp: ok_handler_def one_kept_fields)
  have r: "delivery_reachable sample_tables ok_handler 4 0 d"
    by (rule delivery_reachable.step [OF one_kept_reachable d(1)])
  from delivery_never_loses [OF k r, of sample_payload] d r show ?thesis by auto
qed

text \<open>
  C23. The stream can always be emptied. From every reachable state in which the kept payloads
  are valid events, and with a handler that succeeds, as many deliveries as there are kept
  messages lead to a state that keeps nothing and in which every event ever published has
  been handled: no content of any instance's store blocks a message.
\<close>

theorem delivery_drains:
  assumes "keeps_id handle" and "\<And>h ev. snd (snd (handle h ev)) = None"
    and "delivery_reachable U handle capacity h d" and "\<forall>p \<in> set (kept d). payload_id p \<noteq> None"
  shows "\<exists>d'. (delivery_step U handle capacity ^^ length (kept d)) d d' \<and> kept d' = [] \<and>
    (\<forall>p \<in> set (published d). \<exists>x. payload_id p = Some x \<and> x \<in> snd (handled d'))"
proof -
  obtain d' where d': "(delivery_step U handle capacity ^^ length (kept d)) d d'" "kept d' = []"
      "published d' = published d"
    using drain [OF assms(1,2) delivery_reachable_ok [OF assms(1,3)] assms(4)] by blast
  have "delivery_ok d'"
    by (rule delivery_reachable_ok [OF assms(1) delivery_reachable_steps [OF d'(1) assms(3)]])
  with d' show ?thesis unfolding delivery_ok_def by (intro exI [of _ d']) auto
qed

lemma delivery_drains_witness:
  "\<exists>d'. (delivery_step sample_tables ok_handler 4 ^^ 1) one_kept d' \<and> kept d' = [] \<and>
     (\<exists>x. payload_id sample_payload = Some x \<and> x \<in> snd (handled d'))"
proof -
  have t: "snd (snd (ok_handler n e)) = None" for n e by (simp add: ok_handler_def)
  have "\<forall>p \<in> set (kept one_kept). payload_id p \<noteq> None"
    by (simp add: one_kept_fields payload_id_def sample_payload_event)
  from delivery_drains [OF keeps_id_ok_handler t one_kept_reachable this]
  show ?thesis by (simp add: one_kept_fields)
qed

end
