(* ===== verification/Fair_Delivery.thy ===== *)
theory Fair_Delivery
  imports Delivery
begin

text \<open>
  Infinite runs of the delivery machine, and what happens in the long run.

  A run is a sequence of states with the label of each step: what was published, which message
  was delivered to which instance (and whether its acknowledgement arrives), or which instance
  was restarted. \<open>deliver\<close> is the callback of \<open>broker/natsbroker/consumer.go\<close> applied to one
  message; every labelled step is a \<open>delivery_step\<close>, so the invariants of \<open>Delivery\<close> hold in
  every state of a run. Fairness is what the server documents for a consumer with explicit
  acknowledgement and no delivery limit (\<open>MaxDeliver\<close> zero): a message it goes on keeping is
  delivered again and again.
\<close>

datatype delivery_label =
    Published string
  | Delivered nat "string message"
  | Restarted nat

definition deliver ::
  "'a unicode_tables_scheme \<Rightarrow> ('h, 'e) handler \<Rightarrow> nat \<Rightarrow> string message \<Rightarrow> 'h delivery \<Rightarrow> 'h delivery" where
  "deliver U handle i msg d =
     (case on_message U (sink_consumer handle) msg (stores d i) (handled d) (no_metrics :: unit metrics) of
        (ans, ws, s, hs, m) \<Rightarrow>
          (case ans of
             Ack \<Rightarrow> acknowledged msg (after_message i s hs d)
           | Nak \<Rightarrow> after_message i s hs d))"

fun label_step ::
  "'a unicode_tables_scheme \<Rightarrow> ('h, 'e) handler \<Rightarrow> int \<Rightarrow> delivery_label \<Rightarrow> 'h delivery \<Rightarrow> 'h delivery" where
  "label_step U handle capacity (Published p) d = d\<lparr>published := p # published d, kept := p # kept d\<rparr>"
| "label_step U handle capacity (Delivered i msg) d = deliver U handle i msg d"
| "label_step U handle capacity (Restarted i) d =
     d\<lparr>stores := (stores d)(i := NewMemoryIdempotencyStoreWithCapacity capacity)\<rparr>"

fun label_enabled :: "delivery_label \<Rightarrow> 'h delivery \<Rightarrow> bool" where
  "label_enabled (Delivered i msg) d = (mData msg \<in> set (kept d))"
| "label_enabled _ d = True"

primrec run_of ::
  "'a unicode_tables_scheme \<Rightarrow> ('h, 'e) handler \<Rightarrow> int \<Rightarrow> 'h \<Rightarrow> (nat \<Rightarrow> delivery_label) \<Rightarrow> nat \<Rightarrow> 'h delivery" where
  "run_of U handle capacity h l 0 = delivery_start capacity h"
| "run_of U handle capacity h l (Suc n) = label_step U handle capacity (l n) (run_of U handle capacity h l n)"

definition possible ::
  "'a unicode_tables_scheme \<Rightarrow> ('h, 'e) handler \<Rightarrow> int \<Rightarrow> 'h \<Rightarrow> (nat \<Rightarrow> delivery_label) \<Rightarrow> bool" where
  "possible U handle capacity h l \<longleftrightarrow> (\<forall>n. label_enabled (l n) (run_of U handle capacity h l n))"

text \<open>A payload the server keeps for ever from some point on is delivered after every point.\<close>

definition redelivers :: "(nat \<Rightarrow> delivery_label) \<Rightarrow> (nat \<Rightarrow> 'h delivery) \<Rightarrow> string \<Rightarrow> bool" where
  "redelivers l r p \<longleftrightarrow> (\<forall>n. (\<forall>k \<ge> n. p \<in> set (kept (r k))) \<longrightarrow>
     (\<exists>k \<ge> n. \<exists>i msg. l k = Delivered i msg \<and> mData msg = p))"

subsection \<open>Runs are runs of the delivery machine\<close>

lemma deliver_step:
  assumes "mData msg \<in> set (kept d)"
  shows "delivery_step U handle capacity d (deliver U handle i msg d)"
proof -
  obtain ans ws s hs m where o: "on_message U (sink_consumer handle) msg (stores d i) (handled d)
      (no_metrics :: unit metrics) = (ans, ws, s, hs, m)" by (metis prod.exhaust)
  show ?thesis
  proof (cases ans)
    case Ack
    with delivery_step.acked [OF assms] o show ?thesis by (simp add: deliver_def)
  next
    case Nak
    with delivery_step.naked [OF assms] o show ?thesis by (simp add: deliver_def)
  qed
qed

lemma label_step_delivery_step:
  "label_enabled l d \<Longrightarrow> delivery_step U handle capacity d (label_step U handle capacity l d)"
  by (cases l) (auto intro: delivery_step.publish delivery_step.restart deliver_step)

lemma run_reachable:
  assumes "possible U handle capacity h l"
  shows "delivery_reachable U handle capacity h (run_of U handle capacity h l n)"
proof (induction n)
  case 0
  show ?case by (simp add: delivery_reachable.start)
next
  case (Suc n)
  have "label_enabled (l n) (run_of U handle capacity h l n)" using assms by (simp add: possible_def)
  from delivery_reachable.step [OF Suc label_step_delivery_step [OF this]] show ?case by simp
qed

lemma run_ok:
  "keeps_id handle \<Longrightarrow> possible U handle capacity h l \<Longrightarrow> delivery_ok (run_of U handle capacity h l n)"
  by (rule delivery_reachable_ok) (auto intro: run_reachable)

lemma delivery_ok_kept:
  "delivery_ok d \<Longrightarrow> p \<in> set (published d) \<Longrightarrow>
   p \<in> set (kept d) \<or> (\<exists>x. payload_id p = Some x \<and> x \<in> snd (handled d))"
  by (simp add: delivery_ok_def)

subsection \<open>What one step changes\<close>

lemma deliver_kept: "kept (deliver U handle i msg d) = kept d \<or> kept (deliver U handle i msg d) = remove1 (mData msg) (kept d)"
  by (auto simp: deliver_def acknowledged_def after_message_def split: prod.split msg_answer.split)

lemma deliver_unacknowledged: "mAckErr msg \<noteq> None \<Longrightarrow> kept (deliver U handle i msg d) = kept d"
  by (auto simp: deliver_def acknowledged_def after_message_def split: prod.split msg_answer.split)

lemma deliver_published: "published (deliver U handle i msg d) = published d"
  by (auto simp: deliver_def acknowledged_def after_message_def split: prod.split msg_answer.split)

lemma label_step_published: "set (published d) \<subseteq> set (published (label_step U handle capacity l d))"
  by (cases l) (auto simp: deliver_published)

lemma label_step_handled:
  assumes "keeps_id handle" and "delivery_ok d"
  shows "snd (handled d) \<subseteq> snd (handled (label_step U handle capacity l d))"
proof (cases l)
  case (Delivered i msg)
  obtain ans ws s hs m where o: "on_message U (sink_consumer handle) msg (stores d i) (handled d)
      (no_metrics :: unit metrics) = (ans, ws, s, hs, m)" by (metis prod.exhaust)
  have "snd (handled d) \<subseteq> snd hs" using on_message_step [OF assms(1) delivery_okD [OF assms(2)] o] by blast
  with o show ?thesis
    by (auto simp: Delivered deliver_def acknowledged_def after_message_def split: msg_answer.split)
qed auto

text \<open>Nothing but a publish of the payload adds a copy of it to the stream.\<close>

lemma count_remove1: "count_list (remove1 x xs) y = count_list xs y - (if x = y then 1 else 0)"
  by (induction xs) auto

lemma label_step_count:
  "l \<noteq> Published p \<Longrightarrow> count_list (kept (label_step U handle capacity l d)) p \<le> count_list (kept d) p"
proof (cases l)
  case (Delivered i msg)
  with deliver_kept [of U handle i msg d] show ?thesis by (auto simp: count_remove1)
qed auto

text \<open>A valid event whose handling succeeds is acknowledged, by every instance.\<close>

lemma deliver_succeeds:
  assumes "keeps_id handle" and "delivery_ok d" and "unmarshal_envelope (mData msg) = Some ev"
    and "Validate ev = None" and "snd (snd (handle (fst (handled d)) ev)) = None"
  shows "eEventID ev \<in> snd (handled (deliver U handle i msg d))
    \<and> (mAckErr msg = None \<longrightarrow> kept (deliver U handle i msg d) = remove1 (mData msg) (kept d))"
proof -
  obtain h D where hD: "handled d = (h, D)" by fastforce
  obtain h' ev' where handle: "handle h ev = (h', ev', None)" using assms(5) hD by (metis fst_conv prod.exhaust snd_conv)
  have id: "eEventID ev' = eEventID ev" by (rule keeps_idD [OF assms(1) handle])
  have seen: "msSeen (stores d i) \<subseteq> D" using delivery_okD(2) [OF assms(2), of i] hD by simp
  let ?s = "stores d i"
  have "\<exists>ws s hs m. on_message U (sink_consumer handle) msg ?s (handled d) (no_metrics :: unit metrics) =
      (Ack, ws, s, hs, m) \<and> eEventID ev \<in> snd hs"
    using assms(3,4) handle id seen
    by (cases "eEventID ev \<in> msSeen ?s")
       (auto simp: hD on_message_def sink_consumer_def Dispatch_def memory_store_def mem_Seen_def logged_def
        mem_MarkProcessed_def Let_def)
  then show ?thesis by (auto simp: deliver_def acknowledged_def after_message_def)
qed

subsection \<open>Properties\<close>

lemma run_handled_mono:
  assumes "keeps_id handle" and "possible U handle capacity h l" and "j \<le> k"
  shows "snd (handled (run_of U handle capacity h l j)) \<subseteq> snd (handled (run_of U handle capacity h l k))"
  using assms(3)
proof (induction k rule: dec_induct)
  case (step k)
  with label_step_handled [OF assms(1) run_ok [OF assms(1,2)]] show ?case by fastforce
qed simp

text \<open>Once the payload is no longer published, the copies of it on the stream only become fewer.\<close>

lemma run_count_mono:
  assumes "\<forall>k \<ge> M. l k \<noteq> Published p" and "M \<le> j" and "j \<le> k"
  shows "count_list (kept (run_of U handle capacity h l k)) p \<le> count_list (kept (run_of U handle capacity h l j)) p"
  using assms(3)
proof (induction k rule: dec_induct)
  case (step k)
  have "l k \<noteq> Published p" using assms(1,2) step.hyps by auto
  from label_step_count [OF this, of U handle capacity "run_of U handle capacity h l k"] step.IH
  show ?case by simp
qed simp

lemma in_kept_count: "p \<in> set xs \<longleftrightarrow> 0 < count_list xs p"
  by (induction xs) auto

text \<open>
  A payload that is not published again, whose handling succeeds from \<open>N\<close> on and whose
  acknowledgements arrive from \<open>N\<close> on, leaves the stream: every later delivery takes a copy.
\<close>

lemma leaves_stream:
  assumes "keeps_id handle" and "possible U handle capacity h l"
    and "unmarshal_envelope p = Some ev" and "Validate ev = None"
    and "redelivers l (run_of U handle capacity h l) p"
    and "\<forall>k \<ge> N. snd (snd (handle (fst (handled (run_of U handle capacity h l k))) ev)) = None"
    and "\<forall>k \<ge> N. l k \<noteq> Published p"
    and "\<forall>k \<ge> N. \<forall>i msg. l k = Delivered i msg \<and> mData msg = p \<longrightarrow> mAckErr msg = None"
  shows "\<exists>k \<ge> N. p \<notin> set (kept (run_of U handle capacity h l k))"
proof (rule ccontr)
  let ?r = "run_of U handle capacity h l"
  assume "\<not> (\<exists>k \<ge> N. p \<notin> set (kept (?r k)))"
  then have always: "\<forall>k \<ge> N. p \<in> set (kept (?r k))" by blast
  have "j \<ge> N \<Longrightarrow> c = count_list (kept (?r j)) p \<Longrightarrow> False" for c j
  proof (induction c arbitrary: j rule: less_induct)
    case (less c)
    have "\<forall>k \<ge> j. p \<in> set (kept (?r k))" using always less.prems(1) by simp
    then obtain k i msg where k: "k \<ge> j" "l k = Delivered i msg" "mData msg = p"
      using assms(5) unfolding redelivers_def by blast
    have N: "k \<ge> N" using k(1) less.prems(1) by simp
    have "mAckErr msg = None" using assms(8) N k by blast
    with deliver_succeeds [OF assms(1) run_ok [OF assms(1,2), of k], of msg ev U i] assms(3,4,6) k N
    have "kept (?r (Suc k)) = remove1 p (kept (?r k))" by simp
    moreover have "0 < count_list (kept (?r k)) p" using always N in_kept_count by metis
    ultimately have "count_list (kept (?r (Suc k))) p < count_list (kept (?r k)) p" by (simp add: count_remove1)
    also have "\<dots> \<le> c" using run_count_mono [OF assms(7) less.prems(1) k(1)] less.prems(2) by simp
    finally show False using less.IH [of _ "Suc k"] N by simp
  qed
  then show False by blast
qed

text \<open>
  C7. Every published event is handled in the end. In an infinite run of publishes, deliveries
  to any instance, lost acknowledgements, handler failures and restarts, in which the server
  goes on delivering a payload it keeps and the handler's failures on the event stop at some
  point, a valid event that was published is handled from some point on and for ever. If its
  payload is also not published for ever and its acknowledgements stop getting lost, the
  stream lets go of it for good.
\<close>

theorem event_eventually_handled:
  assumes "keeps_id handle" and "possible U handle capacity h l"
    and "p \<in> set (published (run_of U handle capacity h l n))"
    and "unmarshal_envelope p = Some ev" and "Validate ev = None"
    and "redelivers l (run_of U handle capacity h l) p"
    and "\<forall>k \<ge> N. snd (snd (handle (fst (handled (run_of U handle capacity h l k))) ev)) = None"
  shows "(\<exists>k. \<forall>j \<ge> k. eEventID ev \<in> snd (handled (run_of U handle capacity h l j)))
    \<and> ((\<exists>M. \<forall>k \<ge> M. l k \<noteq> Published p \<and>
          (\<forall>i msg. l k = Delivered i msg \<and> mData msg = p \<longrightarrow> mAckErr msg = None)) \<longrightarrow>
        (\<exists>k. \<forall>j \<ge> k. p \<notin> set (kept (run_of U handle capacity h l j))))"
proof
  let ?r = "run_of U handle capacity h l"
  have pub: "p \<in> set (published (?r k))" if "k \<ge> n" for k
    using that
  proof (induction k rule: dec_induct)
    case (step k)
    from step.IH label_step_published [of "?r k" U handle capacity "l k"] show ?case by auto
  qed (rule assms(3))
  have "\<exists>k. eEventID ev \<in> snd (handled (?r k))"
  proof (cases "\<forall>k \<ge> max n N. p \<in> set (kept (?r k))")
    case True
    then obtain k i msg where k: "k \<ge> max n N" "l k = Delivered i msg" "mData msg = p"
      using assms(6) unfolding redelivers_def by blast
    with deliver_succeeds [OF assms(1) run_ok [OF assms(1,2), of k], of msg ev U i] assms(4,5,7)
    have "eEventID ev \<in> snd (handled (?r (Suc k)))" by simp
    then show ?thesis ..
  next
    case False
    then obtain k where k: "k \<ge> n" "p \<notin> set (kept (?r k))" by auto
    from delivery_ok_kept [OF run_ok [OF assms(1,2)] pub [OF k(1)]] k(2) assms(4)
    show ?thesis by (auto simp: payload_id_def split: if_splits)
  qed
  then show "\<exists>k. \<forall>j \<ge> k. eEventID ev \<in> snd (handled (?r j))"
    using run_handled_mono [OF assms(1,2)] by blast
  show "(\<exists>M. \<forall>k \<ge> M. l k \<noteq> Published p \<and>
      (\<forall>i msg. l k = Delivered i msg \<and> mData msg = p \<longrightarrow> mAckErr msg = None)) \<longrightarrow>
    (\<exists>k. \<forall>j \<ge> k. p \<notin> set (kept (?r j)))"
  proof
    assume "\<exists>M. \<forall>k \<ge> M. l k \<noteq> Published p \<and>
      (\<forall>i msg. l k = Delivered i msg \<and> mData msg = p \<longrightarrow> mAckErr msg = None)"
    then obtain M where M: "\<forall>k \<ge> max M N. l k \<noteq> Published p"
      "\<forall>k \<ge> max M N. \<forall>i msg. l k = Delivered i msg \<and> mData msg = p \<longrightarrow> mAckErr msg = None" by auto
    have "\<forall>k \<ge> max M N. snd (snd (handle (fst (handled (?r k))) ev)) = None" using assms(7) by simp
    from leaves_stream [OF assms(1,2,4,5,6) this M] obtain k
      where k: "k \<ge> max M N" "p \<notin> set (kept (?r k))" by blast
    have "p \<notin> set (kept (?r j))" if "j \<ge> k" for j
      using run_count_mono [OF M(1) k(1) that, of U handle capacity h] k(2) by (simp add: in_kept_count)
    then show "\<exists>k. \<forall>j \<ge> k. p \<notin> set (kept (?r j))" by blast
  qed
qed

text \<open>A run: one publish, a delivery whose acknowledgement is lost, a restart, and deliveries.\<close>

definition sample_labels :: "nat \<Rightarrow> delivery_label" where
  "sample_labels n = (case n of 0 \<Rightarrow> Published sample_payload
    | Suc 0 \<Rightarrow> Delivered 0 \<lparr>mSubject = [], mData = sample_payload, mAckErr = Some ''timeout''\<rparr>
    | Suc (Suc 0) \<Rightarrow> Restarted 0
    | Suc (Suc (Suc 0)) \<Rightarrow> Delivered 1 \<lparr>mSubject = [], mData = sample_payload, mAckErr = None\<rparr>
    | _ \<Rightarrow> Restarted 1)"

abbreviation "sample_run \<equiv> run_of sample_tables ok_handler 4 (0 :: nat) sample_labels"

lemma sample_labels_simps:
  "sample_labels 0 = Published sample_payload"
  "sample_labels 1 = Delivered 0 \<lparr>mSubject = [], mData = sample_payload, mAckErr = Some ''timeout''\<rparr>"
  "sample_labels 2 = Restarted 0"
  "sample_labels 3 = Delivered 1 \<lparr>mSubject = [], mData = sample_payload, mAckErr = None\<rparr>"
  "4 \<le> n \<Longrightarrow> sample_labels n = Restarted 1"
  by (simp_all add: sample_labels_def numeral_eq_Suc split: nat.split)

lemma ok_handler_succeeds: "snd (snd (ok_handler h ev)) = None"
  by (simp add: ok_handler_def)

lemma sample_run_kept:
  "kept (sample_run 0) = []" "kept (sample_run 1) = [sample_payload]" "kept (sample_run 2) = [sample_payload]"
  "kept (sample_run 3) = [sample_payload]" "4 \<le> n \<Longrightarrow> kept (sample_run n) = []"
proof -
  have start: "delivery_reachable sample_tables ok_handler 4 0 (sample_run 0)" by (simp add: delivery_reachable.start)
  show k0: "kept (sample_run 0) = []" by (simp add: delivery_start_def)
  have r1: "sample_run 1 = label_step sample_tables ok_handler 4 (sample_labels 0) (sample_run 0)" by simp
  show k1: "kept (sample_run 1) = [sample_payload]" unfolding r1 sample_labels_simps by (simp add: k0 del: run_of.simps)
  have r2: "sample_run 2 = label_step sample_tables ok_handler 4 (sample_labels 1) (sample_run 1)"
    by (simp only: run_of.simps Suc_1 [symmetric] One_nat_def)
  show k2: "kept (sample_run 2) = [sample_payload]" unfolding r2 sample_labels_simps
    by (simp add: deliver_unacknowledged k1 del: run_of.simps One_nat_def)
  have r3: "sample_run 3 = label_step sample_tables ok_handler 4 (sample_labels 2) (sample_run 2)"
    by (simp only: run_of.simps numeral_3_eq_3 numeral_2_eq_2)
  show k3: "kept (sample_run 3) = [sample_payload]" unfolding r3 sample_labels_simps by (simp add: k2 del: run_of.simps)
  have r4: "sample_run 4 = label_step sample_tables ok_handler 4 (sample_labels 3) (sample_run 3)"
    by (simp only: run_of.simps numeral_eq_Suc pred_numeral_simps BitM.simps)
  have reach1: "delivery_reachable sample_tables ok_handler 4 0 (sample_run 1)" unfolding r1
    by (rule delivery_reachable.step [OF start label_step_delivery_step]) (simp add: sample_labels_simps)
  have reach2: "delivery_reachable sample_tables ok_handler 4 0 (sample_run 2)" unfolding r2
    by (rule delivery_reachable.step [OF reach1 label_step_delivery_step])
       (simp add: sample_labels_simps k1 del: run_of.simps One_nat_def)
  have reach3: "delivery_reachable sample_tables ok_handler 4 0 (sample_run 3)" unfolding r3
    by (rule delivery_reachable.step [OF reach2 label_step_delivery_step]) (simp add: sample_labels_simps)
  obtain ev where ev: "unmarshal_envelope sample_payload = Some ev" "Validate ev = None"
    using sample_payload_event by blast
  note ok3 = delivery_reachable_ok [OF keeps_id_ok_handler reach3]
  have k4: "kept (sample_run 4) = []" unfolding r4 sample_labels_simps
    using deliver_succeeds [OF keeps_id_ok_handler ok3, of "\<lparr>mSubject = [], mData = sample_payload, mAckErr = None\<rparr>"
        ev sample_tables 1] ev ok_handler_succeeds k3
    by (simp del: run_of.simps)
  show "kept (sample_run n) = []" if "4 \<le> n" using that
  proof (induction n rule: dec_induct)
    case (step n)
    then show ?case by (simp add: sample_labels_simps)
  qed (rule k4)
qed

lemma sample_run_possible: "possible sample_tables ok_handler 4 0 sample_labels"
proof -
  have "label_enabled (sample_labels n) (sample_run n)" for n
  proof -
    consider "n = 0" | "n = 1" | "n = 2" | "n = 3" | "4 \<le> n" by linarith
    then show ?thesis
      by cases (simp_all add: sample_labels_simps sample_run_kept del: run_of.simps One_nat_def)
  qed
  then show ?thesis by (simp add: possible_def)
qed

lemma event_eventually_handled_witness:
  "\<exists>ev. unmarshal_envelope sample_payload = Some ev \<and>
     (\<exists>k. \<forall>j \<ge> k. eEventID ev \<in> snd (handled (sample_run j))) \<and>
     (\<exists>k. \<forall>j \<ge> k. sample_payload \<notin> set (kept (sample_run j)))"
proof -
  obtain ev where ev: "unmarshal_envelope sample_payload = Some ev" "Validate ev = None"
    using sample_payload_event by blast
  have pub: "sample_payload \<in> set (published (sample_run 1))" by (simp add: sample_labels_simps)
  have red: "redelivers sample_labels sample_run sample_payload"
    unfolding redelivers_def
  proof (intro allI impI)
    fix n assume "\<forall>k \<ge> n. sample_payload \<in> set (kept (sample_run k))"
    then have "sample_payload \<in> set (kept (sample_run (n + 4)))" by simp
    then show "\<exists>k \<ge> n. \<exists>i msg. sample_labels k = Delivered i msg \<and> mData msg = sample_payload"
      by (simp add: sample_run_kept(5) del: run_of.simps)
  qed
  have rec: "\<forall>k \<ge> 0. snd (snd (ok_handler (fst (handled (sample_run k))) ev)) = None" by (simp add: ok_handler_succeeds)
  have quiet: "\<exists>M. \<forall>k \<ge> M. sample_labels k \<noteq> Published sample_payload \<and>
      (\<forall>i msg. sample_labels k = Delivered i msg \<and> mData msg = sample_payload \<longrightarrow> mAckErr msg = None)"
    by (rule exI [of _ 4]) (simp add: sample_labels_simps)
  from event_eventually_handled [OF keeps_id_ok_handler sample_run_possible pub ev red rec] quiet ev(1)
  show ?thesis by blast
qed

end
