(* ===== verification/Event_Trail.thy ===== *)
theory Event_Trail
  imports Nats_Broker
begin

text \<open>
  The trail of one event, from the request that causes it to the handler that consumes it:
  the correlation middleware, \<open>Publish\<close> over the NATS transport, the stream, and the callback
  of the consumer. What a stream holds is a parameter, \<open>stream\<close>, a list of message ids with
  payloads; \<open>stream_keeps\<close> is the server's promise for a publish it confirmed.
\<close>

text \<open>
  A confirmed publish whose message id the stream does not hold yet stores the payload under
  that id. (For an id it already holds, the server may drop the message as a duplicate.)
\<close>

definition stream_keeps ::
  "('ctx, 'w, 'c, 'j, 'jc, 'cc, 'cb, 'k, 'e) nats_api \<Rightarrow> 'j \<Rightarrow> ('w \<Rightarrow> (string \<times> string) list) \<Rightarrow> bool" where
  "stream_keeps N js stream \<longleftrightarrow> (\<forall>w w' pctx topic payload key.
     js_Publish N w js pctx topic payload [WithMsgID key] = (w', None) \<and> key \<notin> fst ` set (stream w) \<longrightarrow>
     (key, payload) \<in> set (stream w'))"

definition handler_state ::
  "msg_answer \<times> (string \<times> string) list \<times> 's \<times> 'h \<times> 'f metrics \<Rightarrow> 'h" where
  "handler_state r = (case r of (ans, ws, s, h, m) \<Rightarrow> h)"

text \<open>The consumer's store does not know the event: there is none, or it answers no.\<close>

definition unseen :: "('jc, 'cc, 's, 'h, 'e) consumer \<Rightarrow> 's \<Rightarrow> string \<Rightarrow> bool" where
  "unseen cn s x \<longleftrightarrow> (case cnStore cn of None \<Rightarrow> True | Some st \<Rightarrow> \<exists>s1. Seen st s x = (s1, Inr False))"

lemma on_message_runs_handler:
  assumes "unmarshal_envelope (mData msg) = Some ev" and "Validate ev = None" and "unseen cn s (eEventID ev)"
  shows "handler_state (on_message U cn msg s h m) = fst (cnHandler cn h ev)"
proof -
  obtain h1 ev1 r where handle: "cnHandler cn h ev = (h1, ev1, r)" by (metis prod.exhaust)
  show ?thesis
  proof (cases "cnStore cn")
    case None
    then show ?thesis using assms handle
      by (auto simp: handler_state_def on_message_def Dispatch_def Let_def split: option.split)
  next
    case (Some st)
    then obtain s1 where "Seen st s (eEventID ev) = (s1, Inr False)" using assms(3) by (auto simp: unseen_def)
    then show ?thesis using Some assms handle
      by (auto simp: handler_state_def on_message_def Dispatch_def Let_def split: option.split prod.split)
  qed
qed

text \<open>The ids a request is bound to can be written as JSON when the service's own can.\<close>

lemma ValidID_utf8: "ValidID s \<Longrightarrow> valid_utf8 s"
  by (rule ascii_valid_utf8) (auto simp: ValidID_iff ascii_def list_all_iff dest: id_char_ascii)

lemma resolved_cid_utf8:
  "valid_utf8 (request_id A c) \<Longrightarrow> valid_utf8 minted \<Longrightarrow> valid_utf8 (resolved_cid A minted c)"
  by (auto simp: resolved_cid_def intro: ValidID_utf8 inbound_id_valid)

lemma FromContext_bound:
  assumes "azugo_laws A"
  shows "CorrelationIDs (FromContext A (Some (bound_context A minted c))) = resolved_cid A minted c"
    and "TraceIDs (FromContext A (Some (bound_context A minted c))) =
      (if scValid (span_context_of A c) then scTraceID (span_context_of A c) else [])"
proof -
  have "span_context_of A (bound_context A minted c) = span_context_of A c"
    using bound_context_same [OF assms, of c minted] by (simp add: same_request_def)
  then show "CorrelationIDs (FromContext A (Some (bound_context A minted c))) = resolved_cid A minted c"
    and "TraceIDs (FromContext A (Some (bound_context A minted c))) =
      (if scValid (span_context_of A c) then scTraceID (span_context_of A c) else [])"
    using ID_bound [OF assms, of minted c] by (simp_all add: FromContext_def traceIDs_def Let_def)
qed

text \<open>An event as a handler builds it: what it is about, and no ids or time yet.\<close>

definition new_event :: "envelope \<Rightarrow> bool" where
  "new_event ev \<longleftrightarrow> eEventID ev = [] \<and> eCorrelationID ev = [] \<and> eTraceID ev = [] \<and> IsZero (eOccurredAt ev) \<and>
     eEventType ev \<noteq> [] \<and> elems (eCategories ev) \<noteq> [] \<and> eOutcome ev \<noteq> []"

lemma Stamp_new_event_wf:
  assumes "azugo_laws A" and "new_event ev" and "envelope_wf (ev\<lparr>eOccurredAt := clock\<rparr>)" and "valid_utf8 new_id"
    and "valid_utf8 (request_id A c)" and "valid_utf8 minted" and "valid_utf8 (scTraceID (span_context_of A c))"
  shows "envelope_wf (Stamp U A new_id clock (Some (bound_context A minted c)) ev)"
proof -
  have n: "eEventID ev = []" "IsZero (eOccurredAt ev)" using assms(2) by (simp_all add: new_event_def)
  have e: "ev\<lparr>eEventID := [], eOccurredAt := clock, eAttributes := []\<rparr> = ev\<lparr>eOccurredAt := clock, eAttributes := []\<rparr>"
    using n(1) by simp
  have a: "attrs_wf (eAttributes ev)" using assms(3) by (simp add: envelope_wf_def)
  have u: "valid_utf8 []" by (simp add: valid_utf8_def)
  have f: "envelope_wf (ev\<lparr>eEventID := [], eOccurredAt := clock, eAttributes := []\<rparr>)"
    unfolding e using assms(3) by (simp add: envelope_wf_def attrs_wf_def keys_of_def)
  show ?thesis
    by (rule Stamp_wf [OF a f disjI1 [OF n(2)] assms(4)])
       (simp_all add: n u FromContext_bound [OF assms(1)] resolved_cid_utf8 assms(5-7))
qed

text \<open>What the stream holds after a confirmed publish, and what it decodes to.\<close>

lemma nats_publish_confirmed:
  assumes "connJS conn = Some js" and "stream_keeps N js stream" and "Validate ev = None" and "envelope_wf ev"
    and "eEventID ev \<notin> fst ` set (stream w)"
    and "PublishStamped U (Some (NewPublisher (Some (Transport_Publish N (NewTransport (Some conn)) pctx)) service))
      topic (Some ev) w m = (None, w', m')"
  shows "\<exists>payload. (eEventID ev, payload) \<in> set (stream w') \<and>
    unmarshal_envelope payload = Some (as_decoded ev)"
proof -
  let ?tr = "Transport_Publish N (NewTransport (Some conn)) pctx"
  obtain payload where p: "marshal_envelope ev = Some payload"
    "unmarshal_envelope payload = Some (as_decoded ev)"
    using marshal_unmarshal [OF assms(4)] by blast
  have id: "eEventID ev \<noteq> []" using assms(3) by (simp add: Validate_None_iff)
  obtain w1 err where t: "?tr w topic (eEventID ev) payload = (w1, err)" by fastforce
  have tr: "pubTransport (NewPublisher (Some ?tr) service) = Some ?tr" by (simp add: NewPublisher_def)
  from PublishStamped_ok [OF tr assms(3) p(1) t, of U m] assms(6) have "err = None" "w1 = w'" by auto
  with t have "js_Publish N w js (WithTimeout (WithoutCancel (CallerCtx pctx)) publishTimeout) topic payload
      [WithMsgID (eEventID ev)] = (w', None)"
    using id by (auto simp: Transport_Publish_def NewTransport_def assms(1) Let_def split: prod.splits option.splits)
  with assms(2,5) have "(eEventID ev, payload) \<in> set (stream w')" unfolding stream_keeps_def by blast
  with p(2) show ?thesis by blast
qed

subsection \<open>Properties\<close>

text \<open>
  C3. An event is part of its request's trail, up to the handler that consumes it. A request that
  went through the correlation middleware causes an event; \<open>ev'\<close> is that event with a fresh
  id, the time, the id the request is bound to (the caller's valid one, else the service's
  own), the active trace id, and its attributes in order without the credential ones, with their values as an \<open>any\<close>
  holds them (\<open>decode_any\<close>). The
  response header carries the correlation id of \<open>ev'\<close>; and when \<open>Publish\<close> over NATS reports
  success, the stream holds a message under the event's id which makes any consumer that has
  not seen the event call its handler with exactly \<open>ev'\<close>.
\<close>

theorem event_joins_request:
  assumes "azugo_laws A" and "connJS conn = Some js" and "stream_keeps N js stream"
    and "new_event ev" and "envelope_wf (ev\<lparr>eOccurredAt := clock\<rparr>)" and "\<not> IsZero clock"
    and "new_id \<noteq> []" and "valid_utf8 new_id" and "new_id \<notin> fst ` set (stream w)"
    and "valid_utf8 (request_id A c)" and "valid_utf8 minted" and "valid_utf8 (scTraceID (span_context_of A c))"
    and "ev' = ev\<lparr>eEventID := new_id, eOccurredAt := clock,
      eCorrelationID := (if ValidID (trim_space (header_get A c HeaderCorrelationID))
        then trim_space (header_get A c HeaderCorrelationID)
        else if request_id A c \<noteq> [] then request_id A c else minted),
      eTraceID := (if scValid (span_context_of A c) then scTraceID (span_context_of A c) else []),
      eAttributes := decoded_attrs (filter (\<lambda>(k, v). \<not> token_key U k) (eAttributes ev))\<rparr>"
    and "unseen cn s new_id"
  shows "\<exists>d. Middleware A minted next_handler c = next_handler d
    \<and> SetHeaderAlways HeaderCorrelationID (eCorrelationID ev') \<in> set (performed A d)
    \<and> (\<forall>w' m' ev2. Publish U A new_id clock
        (Some (NewPublisher (Some (Transport_Publish N (NewTransport (Some conn)) d)) service))
        (Some d) topic (Some ev) w m = ((None, w', m'), ev2) \<longrightarrow>
        (\<exists>payload. (new_id, payload) \<in> set (stream w') \<and>
          (\<forall>msg. mData msg = payload \<longrightarrow> handler_state (on_message U cn msg s h m2) = fst (cnHandler cn h ev'))))"
proof -
  let ?d = "bound_context A minted c"
  let ?s = "Stamp U A new_id clock (Some ?d) ev"
  have next_is: "Middleware A minted next_handler c = next_handler ?d"
    by (simp add: Middleware_eq [OF assms(1)] bound_context_def)
  have wf: "envelope_wf ?s" by (rule Stamp_new_event_wf [OF assms(1,4,5,8,10,11,12)])
  have n: "eEventID ev = []" "eCorrelationID ev = []" "eTraceID ev = []" "IsZero (eOccurredAt ev)"
    "eEventType ev \<noteq> []" "elems (eCategories ev) \<noteq> []" "eOutcome ev \<noteq> []"
    using assms(4) by (simp_all add: new_event_def)
  have v: "Validate ?s = None" using assms(6,7) n by (simp add: Stamp_valid)
  note ids = FromContext_bound [OF assms(1)]
  have resolved: "eCorrelationID ev' = resolved_cid A minted c"
    unfolding assms(13) by (auto simp: resolved_cid_def inbound_id_def)
  then have ev': "as_decoded ?s = ev'"
    using n by (simp add: as_decoded_def Stamp_def Let_def ids stripTokens_eq assms(13) case_prod_beta')
  have echoed: "SetHeaderAlways HeaderCorrelationID (eCorrelationID ev') \<in> set (performed A ?d)"
    unfolding resolved by (simp add: performed_bound [OF assms(1)] middleware_calls_def Let_def)
  have id: "eEventID ?s = new_id" by (simp add: Stamp_fields n)
  have "\<exists>payload. (new_id, payload) \<in> set (stream w') \<and>
      (\<forall>msg. mData msg = payload \<longrightarrow> handler_state (on_message U cn msg s h m2) = fst (cnHandler cn h ev'))"
    if "Publish U A new_id clock
        (Some (NewPublisher (Some (Transport_Publish N (NewTransport (Some conn)) ?d)) service))
        (Some ?d) topic (Some ev) w m = ((None, w', m'), ev2)" for w' m' ev2
  proof -
    have "PublishStamped U (Some (NewPublisher (Some (Transport_Publish N (NewTransport (Some conn)) ?d)) service))
        topic (Some ?s) w m = (None, w', m')"
      using that by (clarsimp simp: Publish_def NewPublisher_def Let_def)
    from nats_publish_confirmed [OF assms(2,3) v wf _ this] assms(9) id ev'
    obtain payload where p: "(new_id, payload) \<in> set (stream w')" "unmarshal_envelope payload = Some ev'" by auto
    have "Validate ev' = None" "eEventID ev' = new_id"
      using v id unfolding ev' [symmetric] by simp_all
    with p assms(14) show ?thesis by (intro exI [of _ payload]) (auto intro!: on_message_runs_handler)
  qed
  with next_is echoed show ?thesis by (intro exI [of _ ?d]) blast
qed

text \<open>A client whose state is the stream, and a consumer that collects what it is given.\<close>

definition stream_nats ::
  "(request, (string \<times> string) list, unit, unit, unit, unit, unit, unit, string) nats_api" where
  "stream_nats = \<lparr>X509KeyPair = (\<lambda>c k. Inr ()), AppendCertsFromPEM = (\<lambda>p. True),
     nats_Connect = (\<lambda>w u opts. (w, Inr ())), jetstream_New = (\<lambda>w c. Inr ()), nc_Close = (\<lambda>w c. w),
     nc_Drain = (\<lambda>w c. w), nc_IsConnected = (\<lambda>w c. True),
     js_Publish = (\<lambda>w js ctx topic payload opts. (map (\<lambda>q. case q of WithMsgID k \<Rightarrow> (k, payload)) opts @ w, None)),
     js_CreateOrUpdateStream = (\<lambda>w js cfg. (w, None)),
     js_CreateOrUpdateConsumer = (\<lambda>w js stream cfg. (w, Inr ())),
     cons_Consume = (\<lambda>w c cb. (w, Inr ())), cc_Stop = (\<lambda>w c. w)\<rparr>"

lemma stream_nats_keeps: "stream_keeps stream_nats () (\<lambda>w. w)"
  by (auto simp: stream_keeps_def stream_nats_def)

definition collecting :: "(unit, unit, unit, envelope list, string) consumer" where
  "collecting = \<lparr>cnCons = Some (), cnStore = None, cnHandler = (\<lambda>h ev. (h @ [ev], ev, None)), cnLog = False, cnCC = None\<rparr>"

abbreviation "fresh_event \<equiv> sample_envelope\<lparr>eOccurredAt := eOccurredAt zero_envelope\<rparr>"

abbreviation "stream_publisher d \<equiv>
  NewPublisher (Some (Transport_Publish stream_nats (NewTransport (Some \<lparr>connNC = Some (), connJS = Some ()\<rparr>)) d)) ''svc''"

lemma fresh_event_facts:
  "new_event fresh_event" "envelope_wf (fresh_event\<lparr>eOccurredAt := sample_time\<rparr>)" "\<not> IsZero sample_time"
proof -
  have "sample_envelope\<lparr>eEventID := ''01E'', eEventID := []\<rparr> = sample_envelope"
    by (simp add: sample_envelope_def zero_envelope_def)
  moreover have "envelope_wf (e\<lparr>eEventID := []\<rparr>)" if "envelope_wf e" for e
    using that by (simp add: envelope_wf_def valid_utf8_def)
  ultimately have "envelope_wf sample_envelope" using envelope_wf_sample by metis
  moreover have "fresh_event\<lparr>eOccurredAt := sample_time\<rparr> = sample_envelope"
    by (simp add: sample_envelope_def)
  ultimately show "envelope_wf (fresh_event\<lparr>eOccurredAt := sample_time\<rparr>)" by simp
  show "new_event fresh_event" by (simp add: new_event_def sample_envelope_def zero_envelope_def IsZero_def zero_time_def)
  show "\<not> IsZero sample_time" by (simp add: IsZero_def sample_time_def)
qed

lemma stream_publish_succeeds:
  "\<exists>w' m' ev2. Publish sample_tables request_azugo ''01E'' sample_time
     (Some (stream_publisher (bound_context request_azugo ''01NEW'' sample_request)))
     (Some (bound_context request_azugo ''01NEW'' sample_request)) ''audit'' (Some fresh_event) [] no_metrics =
   ((None, w', m'), ev2)"
proof -
  let ?d = "bound_context request_azugo ''01NEW'' sample_request"
  let ?s = "Stamp sample_tables request_azugo ''01E'' sample_time (Some ?d) fresh_event"
  have u: "valid_utf8 ''01E''" "valid_utf8 (request_id request_azugo sample_request)" "valid_utf8 ''01NEW''"
    "valid_utf8 (scTraceID (span_context_of request_azugo sample_request))" by code_simp+
  have wf: "envelope_wf ?s"
    by (rule Stamp_new_event_wf [OF request_azugo_laws fresh_event_facts(1,2) u])
  then obtain payload where p: "marshal_envelope ?s = Some payload" using marshal_unmarshal by blast
  have v: "Validate ?s = None" using fresh_event_facts by (simp add: Stamp_valid new_event_def)
  then have "eEventID ?s \<noteq> []" by (simp add: Validate_None_iff)
  with p v show ?thesis
    by (auto simp: Publish_def PublishStamped_def NewPublisher_def NewTransport_def Transport_Publish_def
        stream_nats_def Let_def)
qed

lemma event_joins_request_witness:
  "\<exists>w' payload ev'. (''01E'', payload) \<in> set w' \<and> eCorrelationID ev' = ''corr-h1'' \<and> eEventID ev' = ''01E'' \<and>
     handler_state (on_message sample_tables collecting \<lparr>mSubject = ''audit'', mData = payload, mAckErr = None :: string option\<rparr>
       () [] (no_metrics :: unit metrics)) = [ev']"
proof -
  have u: "valid_utf8 ''01E''" "valid_utf8 (request_id request_azugo sample_request)" "valid_utf8 ''01NEW''"
    "valid_utf8 (scTraceID (span_context_of request_azugo sample_request))"
    "ValidID (trim_space (header_get request_azugo sample_request HeaderCorrelationID))"
    "trim_space (header_get request_azugo sample_request HeaderCorrelationID) = ''corr-h1''"
    "\<not> scValid (span_context_of request_azugo sample_request)" by code_simp+
  have js: "connJS \<lparr>connNC = Some (), connJS = Some ()\<rparr> = Some ()" by simp
  have fresh: "''01E'' \<notin> fst ` set ([] :: (string \<times> string) list)" by simp
  have id: "''01E'' \<noteq> ([] :: string)" by simp
  let ?D = "bound_context request_azugo ''01NEW'' sample_request"
  have D: "Middleware request_azugo ''01NEW'' (\<lambda>c. c) sample_request = ?D"
    by (simp add: Middleware_eq [OF request_azugo_laws] bound_context_def)
  obtain w' m' ev2 where pub: "Publish sample_tables request_azugo ''01E'' sample_time (Some (stream_publisher ?D))
      (Some ?D) ''audit'' (Some fresh_event) [] no_metrics = ((None, w', m'), ev2)"
    using stream_publish_succeeds by blast
  have un: "unseen collecting () ''01E''" by (simp add: unseen_def collecting_def)
  let ?ev = "fresh_event\<lparr>eEventID := ''01E'', eOccurredAt := sample_time, eCorrelationID := ''corr-h1'', eTraceID := [],
      eAttributes := decoded_attrs (filter (\<lambda>(k, v). \<not> token_key sample_tables k) (eAttributes fresh_event))\<rparr>"
  have ev: "?ev = fresh_event\<lparr>eEventID := ''01E'', eOccurredAt := sample_time,
      eCorrelationID := (if ValidID (trim_space (header_get request_azugo sample_request HeaderCorrelationID))
        then trim_space (header_get request_azugo sample_request HeaderCorrelationID)
        else if request_id request_azugo sample_request \<noteq> [] then request_id request_azugo sample_request else ''01NEW''),
      eTraceID := (if scValid (span_context_of request_azugo sample_request)
        then scTraceID (span_context_of request_azugo sample_request) else []),
      eAttributes := decoded_attrs (filter (\<lambda>(k, v). \<not> token_key sample_tables k) (eAttributes fresh_event))\<rparr>"
    using u(5-7) by simp
  have "\<exists>payload. (''01E'', payload) \<in> set w' \<and> (\<forall>msg :: string message. mData msg = payload \<longrightarrow>
      handler_state (on_message sample_tables collecting msg () [] (no_metrics :: unit metrics)) =
        fst (cnHandler collecting [] ?ev))"
    using event_joins_request [OF request_azugo_laws js stream_nats_keeps fresh_event_facts id u(1) fresh u(2,3,4)
      ev un, of "\<lambda>c. c" "''svc''" "''audit''" no_metrics "[]" no_metrics] pub D by metis
  then obtain payload where p: "(''01E'', payload) \<in> set w'" "\<And>msg :: string message. mData msg = payload \<Longrightarrow>
      handler_state (on_message sample_tables collecting msg () [] (no_metrics :: unit metrics)) = [?ev]"
    by (auto simp: collecting_def)
  have "eCorrelationID ?ev = ''corr-h1''" "eEventID ?ev = ''01E''" by simp_all
  with p show ?thesis by (metis message.select_convs(2))
qed

end
