(* ===== verification/Problem_Wire.thy ===== *)
theory Problem_Wire
  imports Json_Fields Problem_Envelope
begin

text \<open>
  The JSON form of a problem (\<open>errors/problem.go\<close>): the struct tags of \<open>Problem\<close>, \<open>Hop\<close> and
  \<open>PublicProblem\<close>, \<open>MarshalError\<close>, and \<open>ParseProblem\<close>.

  Decoding into the slice \<open>Chain\<close> follows \<open>encoding/json\<close> for a member that occurs more than
  once: an element is decoded over the one the slice's memory already holds. \<open>mem\<close> is that
  memory.
\<close>

definition ContentTypeProblemJSON :: string where
  "ContentTypeProblemJSON = ''application/problem+json''"

subsection \<open>Encoding\<close>

definition hop_json :: "hop \<Rightarrow> json" where
  "hop_json h = JObj (opt_str_field ''service'' (hService h) @ opt_str_field ''code'' (hCode h) @
     opt_int_field ''status'' (hStatus h) @ opt_int_field ''elided'' (hElided h))"

definition problem_json :: "problem \<Rightarrow> json" where
  "problem_json p = JObj (opt_str_field ''type'' (pType p) @ str_field ''title'' (pTitle p) @
     int_field ''status'' (pStatus p) @ opt_str_field ''detail'' (pDetail p) @
     str_field ''code'' (pCode p) @ opt_str_field ''source'' (pSource p) @
     opt_str_field ''trace_id'' (pTraceID p) @
     (if pChain p = [] then [] else [(''chain'', JArr (map hop_json (pChain p)))]))"

definition public_json :: "public_problem \<Rightarrow> json" where
  "public_json p = JObj (opt_str_field ''type'' (ppType p) @ str_field ''title'' (ppTitle p) @
     int_field ''status'' (ppStatus p) @ opt_str_field ''detail'' (ppDetail p) @
     str_field ''code'' (ppCode p) @ opt_str_field ''trace_id'' (ppTraceID p))"

definition problem_body :: "problem \<Rightarrow> string" where
  "problem_body p = json_text (problem_json p)"

definition public_body :: "public_problem \<Rightarrow> string" where
  "public_body p = json_text (public_json p)"

text \<open>\<open>ContentTypeJSON\<close> is the framework's constant; the result is the body and its type.\<close>

definition MarshalError :: "string \<Rightarrow> problem \<Rightarrow> string \<Rightarrow> (string \<times> string) option" where
  "MarshalError ContentTypeJSON p contentType =
     (if contentType \<noteq> ContentTypeJSON \<and> contentType \<noteq> ContentTypeProblemJSON then None
      else Some (problem_body p, ContentTypeProblemJSON))"

subsection \<open>Decoding\<close>

definition zero_hop :: hop where
  "zero_hop = \<lparr>hService = [], hCode = [], hStatus = 0, hElided = 0\<rparr>"

definition read_hop_field :: "hop \<Rightarrow> string \<Rightarrow> json \<Rightarrow> hop option" where
  "read_hop_field h k v =
     (if field_is ''service'' k then map_option (\<lambda>s. h\<lparr>hService := s\<rparr>) (read_str (hService h) v)
      else if field_is ''code'' k then map_option (\<lambda>s. h\<lparr>hCode := s\<rparr>) (read_str (hCode h) v)
      else if field_is ''status'' k then map_option (\<lambda>i. h\<lparr>hStatus := i\<rparr>) (read_int (hStatus h) v)
      else if field_is ''elided'' k then map_option (\<lambda>i. h\<lparr>hElided := i\<rparr>) (read_int (hElided h) v)
      else Some h)"

fun read_hop :: "hop \<Rightarrow> json \<Rightarrow> hop option" where
  "read_hop h (JObj ms) = read_members read_hop_field h ms"
| "read_hop h JNull = Some h"
| "read_hop h _ = None"

fun read_hops :: "hop list \<Rightarrow> json list \<Rightarrow> hop list option" where
  "read_hops mem [] = Some []"
| "read_hops mem (j # js) =
     (case read_hop (case mem of [] \<Rightarrow> zero_hop | h # _ \<Rightarrow> h) j of
        None \<Rightarrow> None
      | Some h \<Rightarrow> map_option (\<lambda>hs. h # hs) (read_hops (tl mem) js))"

fun read_chain :: "problem \<times> hop list \<Rightarrow> json \<Rightarrow> (problem \<times> hop list) option" where
  "read_chain (p, mem) (JArr js) =
     (if js = [] then Some (p\<lparr>pChain := []\<rparr>, [])
      else map_option (\<lambda>hs. (p\<lparr>pChain := hs\<rparr>, hs @ drop (length js) mem)) (read_hops mem js))"
| "read_chain (p, mem) JNull = Some (p\<lparr>pChain := []\<rparr>, [])"
| "read_chain (p, mem) _ = None"

definition read_problem_field :: "problem \<times> hop list \<Rightarrow> string \<Rightarrow> json \<Rightarrow> (problem \<times> hop list) option" where
  "read_problem_field s k v = (case s of (p, mem) \<Rightarrow>
     (if field_is ''type'' k then map_option (\<lambda>x. (p\<lparr>pType := x\<rparr>, mem)) (read_str (pType p) v)
      else if field_is ''title'' k then map_option (\<lambda>x. (p\<lparr>pTitle := x\<rparr>, mem)) (read_str (pTitle p) v)
      else if field_is ''status'' k then map_option (\<lambda>i. (p\<lparr>pStatus := i\<rparr>, mem)) (read_int (pStatus p) v)
      else if field_is ''detail'' k then map_option (\<lambda>x. (p\<lparr>pDetail := x\<rparr>, mem)) (read_str (pDetail p) v)
      else if field_is ''code'' k then map_option (\<lambda>x. (p\<lparr>pCode := x\<rparr>, mem)) (read_str (pCode p) v)
      else if field_is ''source'' k then map_option (\<lambda>x. (p\<lparr>pSource := x\<rparr>, mem)) (read_str (pSource p) v)
      else if field_is ''trace_id'' k then map_option (\<lambda>x. (p\<lparr>pTraceID := x\<rparr>, mem)) (read_str (pTraceID p) v)
      else if field_is ''chain'' k then read_chain (p, mem) v
      else Some s))"

fun read_problem :: "json \<Rightarrow> problem option" where
  "read_problem (JObj ms) = map_option fst (read_members read_problem_field (zero_problem, []) ms)"
| "read_problem JNull = Some zero_problem"
| "read_problem _ = None"

definition ParseProblem :: "string \<Rightarrow> problem option" where
  "ParseProblem body =
     (if length body = 0 then None
      else (case json_parse body of
          None \<Rightarrow> None
        | Some j \<Rightarrow> (case read_problem j of
            None \<Rightarrow> None
          | Some p \<Rightarrow>
              if pCode p = [] \<and> pTitle p = [] \<and> pStatus p = 0 then None else Some p)))"

subsection \<open>What is encoded is decoded\<close>

definition hop_wf :: "hop \<Rightarrow> bool" where
  "hop_wf h \<longleftrightarrow> valid_utf8 (hService h) \<and> valid_utf8 (hCode h) \<and> int64 (hStatus h) \<and> int64 (hElided h)"

definition problem_wf :: "problem \<Rightarrow> bool" where
  "problem_wf p \<longleftrightarrow> valid_utf8 (pType p) \<and> valid_utf8 (pTitle p) \<and> int64 (pStatus p) \<and>
     valid_utf8 (pDetail p) \<and> valid_utf8 (pCode p) \<and> valid_utf8 (pSource p) \<and>
     valid_utf8 (pTraceID p) \<and> list_all hop_wf (pChain p)"

lemma fold_names [go_simps]:
  "fold_name ''type'' = ''TYPE''" "fold_name ''title'' = ''TITLE''" "fold_name ''status'' = ''STATUS''"
  "fold_name ''detail'' = ''DETAIL''" "fold_name ''code'' = ''CODE''" "fold_name ''source'' = ''SOURCE''"
  "fold_name ''trace_id'' = ''TRACE_ID''" "fold_name ''chain'' = ''CHAIN''"
  "fold_name ''service'' = ''SERVICE''" "fold_name ''elided'' = ''ELIDED''"
  by code_simp+

text \<open>One member of a hop, and of a problem, at a time.\<close>

lemma read_hop_field_simps:
  "read_hop_field h ''service'' (JStr s) = Some (h\<lparr>hService := s\<rparr>)"
  "read_hop_field h ''code'' (JStr s) = Some (h\<lparr>hCode := s\<rparr>)"
  "int64 i \<Longrightarrow> read_hop_field h ''status'' (JNum (int_text i)) = Some (h\<lparr>hStatus := i\<rparr>)"
  "int64 i \<Longrightarrow> read_hop_field h ''elided'' (JNum (int_text i)) = Some (h\<lparr>hElided := i\<rparr>)"
  by (simp_all add: read_hop_field_def field_is_def fold_names parse_int64_text)

lemma read_problem_field_simps:
  "read_problem_field (p, mem) ''type'' (JStr s) = Some (p\<lparr>pType := s\<rparr>, mem)"
  "read_problem_field (p, mem) ''title'' (JStr s) = Some (p\<lparr>pTitle := s\<rparr>, mem)"
  "read_problem_field (p, mem) ''detail'' (JStr s) = Some (p\<lparr>pDetail := s\<rparr>, mem)"
  "read_problem_field (p, mem) ''code'' (JStr s) = Some (p\<lparr>pCode := s\<rparr>, mem)"
  "read_problem_field (p, mem) ''source'' (JStr s) = Some (p\<lparr>pSource := s\<rparr>, mem)"
  "read_problem_field (p, mem) ''trace_id'' (JStr s) = Some (p\<lparr>pTraceID := s\<rparr>, mem)"
  "int64 i \<Longrightarrow> read_problem_field (p, mem) ''status'' (JNum (int_text i)) = Some (p\<lparr>pStatus := i\<rparr>, mem)"
  "read_problem_field (p, mem) ''chain'' v = read_chain (p, mem) v"
  by (simp_all add: read_problem_field_def field_is_def fold_names parse_int64_text)

lemma read_hop_json: "hop_wf h \<Longrightarrow> read_hop zero_hop (hop_json h) = Some h"
proof -
  assume "hop_wf h"
  then have "int64 (hStatus h)" "int64 (hElided h)" by (simp_all add: hop_wf_def)
  then show ?thesis
    using read_opt_int [of read_hop_field _ "''elided''" "hElided h" "[]"]
    by (cases h) (simp add: hop_json_def read_fields read_hop_field_simps zero_hop_def)
qed

lemma read_hops_json: "list_all hop_wf hs \<Longrightarrow> read_hops [] (map hop_json hs) = Some hs"
  by (induction hs) (auto simp: read_hop_json)

lemma read_problem_json:
  "problem_wf p \<Longrightarrow> read_problem (problem_json p) = Some (p\<lparr>detailPublic := False\<rparr>)"
proof -
  assume wf: "problem_wf p"
  then have "int64 (pStatus p)" "list_all hop_wf (pChain p)" by (simp_all add: problem_wf_def)
  then show ?thesis
    by (cases p) (simp add: problem_json_def read_fields read_problem_field_simps zero_problem_def
        read_hops_json)
qed

lemma names_utf8 [simp]:
  "valid_utf8 ''type''" "valid_utf8 ''title''" "valid_utf8 ''status''" "valid_utf8 ''detail''"
  "valid_utf8 ''code''" "valid_utf8 ''source''" "valid_utf8 ''trace_id''" "valid_utf8 ''chain''"
  "valid_utf8 ''service''" "valid_utf8 ''elided''"
  by (rule ascii_valid_utf8, simp add: ascii_def)+

lemma json_wf_hop: "hop_wf h \<Longrightarrow> json_wf (hop_json h)"
  by (simp add: hop_json_def hop_wf_def)

lemma json_wf_problem: "problem_wf p \<Longrightarrow> json_wf (problem_json p)"
proof -
  assume "problem_wf p"
  moreover have "list_all hop_wf hs \<Longrightarrow> list_all json_wf (map hop_json hs)" for hs
    by (induction hs) (simp_all add: json_wf_hop)
  ultimately show ?thesis by (simp add: problem_json_def problem_wf_def)
qed

lemma json_depth_hop: "json_depth (hop_json h) \<le> 1"
  unfolding hop_json_def One_nat_def by (intro json_depth_JObj) (auto simp: field_defs)

lemma json_depth_problem: "json_depth (problem_json p) \<le> 3"
proof -
  have "json_depth (JArr (map hop_json hs)) \<le> 2" for hs
    using json_depth_JArr [of "map hop_json hs" 1] json_depth_hop by (auto simp: numeral_2_eq_2)
  then show ?thesis
    unfolding problem_json_def numeral_3_eq_3 by (intro json_depth_JObj) (auto simp: field_defs)
qed

lemma json_depth_public: "json_depth (public_json p) \<le> 1"
  unfolding public_json_def One_nat_def by (intro json_depth_JObj) (auto simp: field_defs)

lemma json_parse_problem: "problem_wf p \<Longrightarrow> json_parse (problem_body p) = Some (problem_json p)"
  unfolding problem_body_def using json_depth_problem [of p]
  by (intro json_parse_text json_wf_problem) auto

lemma problem_body_not_Nil [simp]: "problem_body p \<noteq> []"
  by (simp add: problem_body_def problem_json_def)

lemma ParseProblem_body:
  "problem_wf p \<Longrightarrow> ParseProblem (problem_body p) =
     (if pCode p = [] \<and> pTitle p = [] \<and> pStatus p = 0 then None else Some (p\<lparr>detailPublic := False\<rparr>))"
  by (simp add: ParseProblem_def json_parse_problem read_problem_json)

text \<open>The boundary's body, read back as a problem.\<close>

lemma ParseProblem_public_body:
  assumes "problem_wf p"
  shows "ParseProblem (public_body (Public p)) =
     (if pCode p = [] \<and> pTitle p = [] \<and> pStatus p = 0 then None
      else Some (p\<lparr>pSource := [], pChain := [], pDetail := (if detailPublic p then pDetail p else []),
        detailPublic := False\<rparr>))"
proof -
  let ?q = "p\<lparr>pSource := [], pChain := [], pDetail := (if detailPublic p then pDetail p else []),
        detailPublic := False\<rparr>"
  have b: "public_body (Public p) = problem_body ?q"
    by (simp add: public_body_def public_json_def problem_body_def problem_json_def Public_def Let_def
        opt_str_field_def)
  have "problem_wf ?q" using assms by (simp add: problem_wf_def valid_utf8_def)
  then show ?thesis by (simp add: b ParseProblem_body)
qed

lemma last_boundChain: "last (boundChain (chain @ [h])) = h"
  by (simp add: boundChain_def Let_def MaxChainHops_def)

subsection \<open>Properties\<close>

text \<open>
  C15. A problem survives the wire: whatever its fields hold (valid UTF-8 text and 64-bit
  integers, quotes, control characters and HTML characters included), the body one service
  writes is parsed by the next as the same problem, chain and hops included, except that a
  public detail becomes internal. The body is refused only when code, title and status are
  all unset. \<open>MarshalError\<close> writes that body for the two JSON media types and declines any
  other.
\<close>

theorem problem_roundtrip:
  assumes "problem_wf p"
  shows "MarshalError ctJSON p ct =
      (if ct = ctJSON \<or> ct = ContentTypeProblemJSON then Some (problem_body p, ContentTypeProblemJSON)
       else None)
    \<and> ParseProblem (problem_body p) =
      (if pCode p = [] \<and> pTitle p = [] \<and> pStatus p = 0 then None
       else Some (p\<lparr>detailPublic := False\<rparr>))"
  using ParseProblem_body [OF assms] by (simp add: MarshalError_def)

definition sample_problem :: problem where
  "sample_problem = zero_problem\<lparr>pTitle := ''Not <found>'', pStatus := 404, pCode := ''err:document:notFound'',
     pDetail := [CHR 0x22, CHR 0x5C, CHR 0x0A], detailPublic := True, pSource := ''store'',
     pChain := [real_hop ''store'' ''err:document:notFound'' 404, elided_marker 2]\<rparr>"

lemma problem_wf_sample: "problem_wf sample_problem"
  by code_simp

lemma problem_roundtrip_witness:
  "ParseProblem (problem_body sample_problem) = Some (sample_problem\<lparr>detailPublic := False\<rparr>)"
  using problem_roundtrip [OF problem_wf_sample]
  by (simp add: sample_problem_def)

text \<open>
  What leaves the public boundary cannot be relayed with internals: the body written from
  the public projection, parsed again, carries the same type, title, status, code and trace
  id, the detail only where it was marked public, and no source and no hop, whatever the
  problem held.
\<close>

theorem public_wire_strips:
  assumes "problem_wf p" and "pCode p \<noteq> []"
  shows "\<exists>q. ParseProblem (public_body (Public p)) = Some q \<and> pSource q = [] \<and> pChain q = [] \<and>
    pDetail q = (if detailPublic p then pDetail p else []) \<and>
    pType q = pType p \<and> pTitle q = pTitle p \<and> pStatus q = pStatus p \<and> pCode q = pCode p \<and>
    pTraceID q = pTraceID p"
  using ParseProblem_public_body [OF assms(1)] assms(2) by simp

lemma public_wire_strips_witness:
  "\<exists>q. ParseProblem (public_body (Public sample_problem)) = Some q \<and> pSource q = [] \<and> pChain q = []"
proof -
  have "pCode sample_problem \<noteq> []" by (simp add: sample_problem_def)
  from public_wire_strips [OF problem_wf_sample this] show ?thesis by blast
qed

text \<open>
  A relay across the wire keeps the attribution: a service that parses a downstream body
  and relays it answers with the downstream code, source, trace id, title and detail, its own
  status, and itself as the last hop of a chain that starts where the failure happened.
\<close>

theorem relay_over_wire:
  assumes "problem_wf p" and "pCode p \<noteq> []"
  shows "\<exists>q. ParseProblem (problem_body p) = Some q \<and>
    (let r = Relay E R (Some q) service st in
       pCode r = pCode p \<and> pSource r = pSource p \<and> pTraceID r = pTraceID p \<and>
       pTitle r = pTitle p \<and> pDetail r = pDetail p \<and> \<not> detailPublic r \<and> pStatus r = st \<and>
       hd (pChain r) = hd (origin_chain p) \<and> last (pChain r) = real_hop service (pCode p) st)"
proof -
  let ?q = "p\<lparr>detailPublic := False\<rparr>"
  have "ParseProblem (problem_body p) = Some ?q" using ParseProblem_body [OF assms(1)] assms(2) by simp
  moreover have o: "origin_chain ?q = origin_chain p" by (simp add: origin_chain_def)
  moreover have "hd (boundChain (origin_chain p @ [h])) = hd (origin_chain p)" for h
    by (simp add: hd_boundChain)
  ultimately show ?thesis
    by (auto simp: Relay_Some o last_boundChain)
qed

lemma relay_over_wire_witness:
  "\<exists>q. ParseProblem (problem_body sample_problem) = Some q \<and>
     pSource (Relay sample_env sample_registry (Some q) ''bff'' 424) = ''store''"
proof -
  have "pCode sample_problem \<noteq> []" by (simp add: sample_problem_def)
  from relay_over_wire [OF problem_wf_sample this, of sample_env sample_registry "''bff''" 424]
  show ?thesis by (auto simp: Let_def sample_problem_def)
qed

end
