(* ===== verification/Error_Handler.thy ===== *)
theory Error_Handler
  imports Problem_Wire Correlation
begin

text \<open>
  \<open>errors/render.go\<close>: the router's error handler. It turns any error into a problem, logs
  it, runs the failure hooks where the error originated, and writes the response.

  An error may hold the address of a problem that outlives the request. \<open>toProblem\<close> returns
  that address with the problem, the handler writes the fields it fills through it, and the
  heap after the call is part of the result. \<open>None\<close> is a panic: a nil \<open>*Problem\<close> in the error
  chain is dereferenced.

  A failure hook is a function of the service. It returns the context and, where it
  panicked, the panic value; a nil hook is \<open>None\<close>. Encoding a problem cannot fail (its
  fields are strings and integers), so the fall-back for that has no branch here. The clock
  is the argument \<open>now\<close>.
\<close>

record failure_event =
  evService :: string
  evEndpoint :: string
  evMethod :: string
  evCode :: string
  evErrorMessage :: string
  evStatusCode :: int
  evAppInstanceID :: string
  evCorrelationID :: string
  evTraceID :: string
  evOccurredAt :: int

type_synonym 'ctx failure_hook = "'ctx \<Rightarrow> failure_event \<Rightarrow> 'ctx \<times> nat option"

subsection \<open>From an error to a problem\<close>

definition normalized :: "'a error_env_scheme \<Rightarrow> registry \<Rightarrow> problem \<Rightarrow> problem" where
  "normalized E R p =
     (let p = (if pStatus p = 0 then
           (if pCode p \<noteq> [] then p\<lparr>pStatus := statusForCode E R (pCode p)\<rparr> else p\<lparr>pStatus := 500\<rparr>)
         else p);
          p = (if pCode p = [] then p\<lparr>pCode := genericCodeForStatus (pStatus p)\<rparr> else p);
          p = (if pTitle p = [] then
           (case titleForCodeOK E R (pCode p) of
              Some title \<Rightarrow> p\<lparr>pTitle := title\<rparr>
            | None \<Rightarrow> p\<lparr>pTitle := titleForStatus (pStatus p)\<rparr>)
         else p)
      in p)"

text \<open>What \<open>errors.As\<close> looks for: the interfaces by their method, the validation error by its type.\<close>

definition as_Coder :: "'a error_env_scheme \<Rightarrow> heap \<Rightarrow> goerror \<Rightarrow> string option" where
  "as_Coder E H e = mErrorCode (methods_of E H e)"

definition as_StatusCode :: "'a error_env_scheme \<Rightarrow> heap \<Rightarrow> goerror \<Rightarrow> int option" where
  "as_StatusCode E H e = mStatusCode (methods_of E H e)"

definition as_Validation :: "'a error_env_scheme \<Rightarrow> heap \<Rightarrow> goerror \<Rightarrow> unit option" where
  "as_Validation E H e = (if mValidation (methods_of E H e) then Some () else None)"

definition as_ErrorHeaders ::
  "'a error_env_scheme \<Rightarrow> heap \<Rightarrow> goerror \<Rightarrow> (string \<times> string) list option" where
  "as_ErrorHeaders E H e = mErrorHeaders (methods_of E H e)"

definition statusForError :: "'a error_env_scheme \<Rightarrow> heap \<Rightarrow> goerror \<Rightarrow> int" where
  "statusForError E H err = (case errors_As (as_Validation E H) err of
      Some _ \<Rightarrow> 422
    | None \<Rightarrow> (case errors_As (as_StatusCode E H) err of Some s \<Rightarrow> s | None \<Rightarrow> 500))"

definition toProblem ::
  "'a error_env_scheme \<Rightarrow> registry \<Rightarrow> heap \<Rightarrow> goerror \<Rightarrow> (nat option \<times> problem) option" where
  "toProblem E R H err = (case errors_As as_Problem err of
      Some a \<Rightarrow> (case H a of None \<Rightarrow> None | Some p \<Rightarrow> Some (Some a, normalized E R p))
    | None \<Rightarrow>
        let bare =
          (let status = statusForError E H err;
               np = zero_problem\<lparr>pStatus := status, pCode := genericCodeForStatus status,
                 pTitle := titleForStatus status\<rparr>
           in (case mSafeError (methods_of E H err) of
                 Some m \<Rightarrow> if m \<noteq> [] then np\<lparr>pDetail := m\<rparr> else np
               | None \<Rightarrow> np))
        in (case errors_As (as_Coder E H) err of
              Some code \<Rightarrow>
                if code \<noteq> [] then
                  let opts = (case errors_As (as_StatusCode E H) err of
                        Some s \<Rightarrow> if s \<noteq> 0 then [WithStatus s] else []
                      | None \<Rightarrow> []);
                      np = NewProblem E R code opts
                  in Some (None, case mSafeError (methods_of E H err) of
                       Some m \<Rightarrow> np\<lparr>pDetail := m\<rparr> | None \<Rightarrow> np)
                else Some (None, bare)
            | None \<Rightarrow> Some (None, bare)))"

subsection \<open>Rendering\<close>

definition traceThread :: "('ctx, 'b) azugo_scheme \<Rightarrow> 'ctx \<Rightarrow> string" where
  "traceThread A ctx = (let ids = FromContext A (Some ctx) in
     if TraceIDs ids \<noteq> [] then TraceIDs ids else CorrelationIDs ids)"

definition logProblem :: "('ctx, 'b) azugo_scheme \<Rightarrow> problem \<Rightarrow> 'ctx \<Rightarrow> 'ctx" where
  "logProblem A p ctx =
     (let fields = [zap_String ''error.code'' (pCode p),
            zap_Int ''http.response.status_code'' (pStatus p)];
          fields = (if pSource p \<noteq> [] then fields @ [zap_String ''error.source'' (pSource p)] else fields);
          fields = (if pDetail p \<noteq> [] then fields @ [zap_String ''error.detail'' (pDetail p)] else fields)
      in perform A (LogLine (if 500 \<le> pStatus p then ErrorLevel else WarnLevel) ''request error'' fields) ctx)"

definition invokeFailureHook ::
  "('ctx, 'b) azugo_scheme \<Rightarrow> 'ctx failure_hook \<Rightarrow> failure_event \<Rightarrow> 'ctx \<Rightarrow> 'ctx" where
  "invokeFailureHook A hook evt ctx = (case hook ctx evt of
      (ctx, None) \<Rightarrow> ctx
    | (ctx, Some r) \<Rightarrow>
        perform A (LogLine ErrorLevel ''failure hook panicked'' [\<lparr>fKey = ''panic'', fVal = FAny r\<rparr>]) ctx)"

definition failure_event_of :: "('ctx, 'b) azugo_scheme \<Rightarrow> int \<Rightarrow> problem \<Rightarrow> 'ctx \<Rightarrow> failure_event" where
  "failure_event_of A now p ctx = (let ids = FromContext A (Some ctx) in
     \<lparr>evService = pSource p, evEndpoint = router_path A ctx, evMethod = request_method A ctx,
      evCode = pCode p, evErrorMessage = Problem_Error p, evStatusCode = Problem_StatusCode p,
      evAppInstanceID = RequestAppInstanceID A ctx, evCorrelationID = CorrelationIDs ids,
      evTraceID = TraceIDs ids, evOccurredAt = now\<rparr>)"

definition runFailureHooks ::
  "('ctx, 'b) azugo_scheme \<Rightarrow> int \<Rightarrow> 'ctx failure_hook option list \<Rightarrow> problem \<Rightarrow> 'ctx \<Rightarrow> 'ctx" where
  "runFailureHooks A now hooks p ctx =
     (if length hooks = 0 then ctx
      else
        let evt = failure_event_of A now p ctx in
        fold (\<lambda>hook ctx. case hook of None \<Rightarrow> ctx | Some h \<Rightarrow> invokeFailureHook A h evt ctx) hooks ctx)"

definition Handler ::
  "'a error_env_scheme \<Rightarrow> registry \<Rightarrow> ('ctx, 'b) azugo_scheme \<Rightarrow> int \<Rightarrow> string \<Rightarrow> bool \<Rightarrow>
   'ctx failure_hook option list \<Rightarrow> heap \<Rightarrow> 'ctx \<Rightarrow> goerror option \<Rightarrow> (bool \<times> 'ctx \<times> heap) option" where
  "Handler E R A now source public hooks H ctx err = (case err of
      None \<Rightarrow> Some (False, ctx, H)
    | Some e \<Rightarrow> (case toProblem E R H e of
        None \<Rightarrow> None
      | Some (a, p) \<Rightarrow>
          let p = (if pSource p = [] then p\<lparr>pSource := source\<rparr> else p);
              p = (if pTraceID p = [] then p\<lparr>pTraceID := traceThread A ctx\<rparr> else p);
              H = (case a of None \<Rightarrow> H | Some a \<Rightarrow> H(a \<mapsto> p));
              ctx = logProblem A p ctx;
              ctx = (if pSource p = source then runFailureHooks A now hooks p ctx else ctx);
              ctx = perform A (SetStatusCode (Problem_StatusCode p)) ctx;
              ctx = (case errors_As (as_ErrorHeaders E H) e of
                  Some hs \<Rightarrow> fold (\<lambda>(name, value). perform A (SetHeader name value)) hs ctx
                | None \<Rightarrow> ctx);
              body = (if public then public_body (Public p) else problem_body p);
              ctx = perform A (SetContentType ContentTypeProblemJSON) ctx;
              ctx = perform A (Raw body) ctx
          in Some (True, ctx, H)))"

text \<open>The problem the handler renders, with its source and trace id filled in.\<close>

definition stamped :: "('ctx, 'b) azugo_scheme \<Rightarrow> string \<Rightarrow> 'ctx \<Rightarrow> problem \<Rightarrow> problem" where
  "stamped A source ctx p =
     p\<lparr>pSource := (if pSource p = [] then source else pSource p),
       pTraceID := (if pTraceID p = [] then traceThread A ctx else pTraceID p)\<rparr>"

definition write_back :: "heap \<Rightarrow> nat option \<Rightarrow> problem \<Rightarrow> heap" where
  "write_back H a p = (case a of None \<Rightarrow> H | Some a \<Rightarrow> H(a \<mapsto> p))"

definition response_calls ::
  "'a error_env_scheme \<Rightarrow> bool \<Rightarrow> heap \<Rightarrow> goerror \<Rightarrow> problem \<Rightarrow> call list" where
  "response_calls E public H e p =
     [SetStatusCode (Problem_StatusCode p)] @
     (case errors_As (as_ErrorHeaders E H) e of
        Some hs \<Rightarrow> map (\<lambda>(name, value). SetHeader name value) hs | None \<Rightarrow> []) @
     [SetContentType ContentTypeProblemJSON,
      Raw (if public then public_body (Public p) else problem_body p)]"

lemma fold_headers:
  "fold (\<lambda>(name, value). perform A (SetHeader name value)) hs ctx =
     perform_all A (map (\<lambda>(name, value). SetHeader name value) hs) ctx"
  by (induction hs arbitrary: ctx) auto

lemma stamped_eq:
  "(if pTraceID (if pSource p = [] then p\<lparr>pSource := source\<rparr> else p) = []
    then (if pSource p = [] then p\<lparr>pSource := source\<rparr> else p)\<lparr>pTraceID := t\<rparr>
    else (if pSource p = [] then p\<lparr>pSource := source\<rparr> else p)) =
   p\<lparr>pSource := (if pSource p = [] then source else pSource p),
     pTraceID := (if pTraceID p = [] then t else pTraceID p)\<rparr>"
  by simp

text \<open>The handler on an error, in three parts: log, hooks, response.\<close>

lemma Handler_eq:
  assumes "toProblem E R H e = Some (a, p)"
  shows "Handler E R A now source public hooks H ctx (Some e) =
    (let q = stamped A source ctx p; H' = write_back H a q; ctx1 = logProblem A q ctx;
         ctx2 = (if pSource q = source then runFailureHooks A now hooks q ctx1 else ctx1)
     in Some (True, perform_all A (response_calls E public H' e q) ctx2, H'))"
proof -
  define q where "q = stamped A source ctx p"
  have q: "(if pTraceID (if pSource p = [] then p\<lparr>pSource := source\<rparr> else p) = []
    then (if pSource p = [] then p\<lparr>pSource := source\<rparr> else p)\<lparr>pTraceID := traceThread A ctx\<rparr>
    else (if pSource p = [] then p\<lparr>pSource := source\<rparr> else p)) = q"
    unfolding q_def stamped_def by (rule stamped_eq)
  show ?thesis
    unfolding Handler_def option.case assms prod.case Let_def q q_def [symmetric]
      write_back_def [symmetric] response_calls_def
    by (simp add: fold_headers perform_all_append split: option.split)
qed

lemma Handler_None: "toProblem E R H e = None \<Longrightarrow>
   Handler E R A now source public hooks H ctx (Some e) = None"
  by (simp add: Handler_def)

lemma Handler_nil: "Handler E R A now source public hooks H ctx None = Some (False, ctx, H)"
  by (simp add: Handler_def)

subsection \<open>Problems are complete\<close>

definition complete :: "problem \<Rightarrow> bool" where
  "complete p \<longleftrightarrow> pStatus p \<noteq> 0 \<and> pCode p \<noteq> [] \<and> pTitle p \<noteq> []"

text \<open>Every registered reason has a title.\<close>

definition titled :: "registry \<Rightarrow> bool" where
  "titled R \<longleftrightarrow> (\<forall>k spec. R k = Some spec \<longrightarrow> rTitle spec \<noteq> [])"

lemma titleForCodeOK_not_Nil: "titled R \<Longrightarrow> titleForCodeOK E R s = Some t \<Longrightarrow> t \<noteq> []"
  by (auto simp: titled_def titleForCodeOK_def titleForReasonOK_def lookupReason_def
      builtinTitleForReasonOK_def Let_def simp del: set_simps split: option.splits if_splits)

lemma normalized_complete:
  assumes "fw_statuses E" and "registry_ok R" and "titled R"
  shows "complete (normalized E R p)"
  using statusForCode_range [OF assms(1,2), of "pCode p"] titleForCodeOK_not_Nil [OF assms(3)]
  by (auto simp: complete_def normalized_def Let_def split: option.split)

lemma normalized_id: "complete p \<Longrightarrow> normalized E R p = p"
  by (simp add: complete_def normalized_def)

lemma normalized_idem:
  assumes "fw_statuses E" and "registry_ok R" and "titled R"
  shows "normalized E R (normalized E R p) = normalized E R p"
  by (rule normalized_id [OF normalized_complete [OF assms]])

lemma normalized_keeps:
  "pSource (normalized E R p) = pSource p" "pTraceID (normalized E R p) = pTraceID p"
  "pChain (normalized E R p) = pChain p" "pDetail (normalized E R p) = pDetail p"
  "detailPublic (normalized E R p) = detailPublic p" "pType (normalized E R p) = pType p"
  by (simp_all add: normalized_def Let_def split: option.split)

lemma NewProblem_code: "st \<noteq> 0 \<Longrightarrow> pCode (NewProblem E R s [WithStatus st]) = s"
  by (simp add: NewProblem_WithStatus)

lemma NewProblem_code0: "pCode (NewProblem E R s []) = s"
  by (simp add: NewProblem_def Let_def zero_problem_def split: option.split)

lemma statusForError_nonzero:
  "\<forall>x \<in> set (err_tree e). mStatusCode (methods_of E H x) \<noteq> Some 0 \<Longrightarrow> statusForError E H e \<noteq> 0"
  by (auto simp: statusForError_def as_StatusCode_def split: option.split dest!: errors_As_SomeD)

lemma toProblem_complete:
  assumes "fw_statuses E" and "registry_ok R" and "titled R"
    and "\<forall>x \<in> set (err_tree e). mStatusCode (methods_of E H x) \<noteq> Some 0"
    and "toProblem E R H e = Some (a, p)"
  shows "complete p"
proof (cases "errors_As as_Problem e")
  case (Some b)
  with assms(5) show ?thesis
    by (auto simp: toProblem_def normalized_complete [OF assms(1-3)] split: option.splits)
next
  case None
  have st: "statusForError E H e \<noteq> 0" by (rule statusForError_nonzero [OF assms(4)])
  have np: "pStatus (NewProblem E R s opts) \<noteq> 0" "pTitle (NewProblem E R s opts) \<noteq> []" for s opts
    using NewProblem_complete [of E R s opts] by simp_all
  from None assms(5) st np show ?thesis
    by (auto simp: toProblem_def Let_def complete_def zero_problem_def NewProblem_code NewProblem_code0
        split: option.splits if_splits)
qed

text \<open>A nil problem is the only thing that panics.\<close>

lemma toProblem_None_iff:
  "toProblem E R H e = None \<longleftrightarrow> (\<exists>a. errors_As as_Problem e = Some a \<and> H a = None)"
  by (auto simp: toProblem_def Let_def split: option.splits)

lemma stamped_complete: "complete (stamped A source ctx p) \<longleftrightarrow> complete p"
  by (simp add: complete_def stamped_def)

lemma complete_status: "complete p \<Longrightarrow> Problem_StatusCode p = pStatus p"
  by (simp add: complete_def Problem_StatusCode_def)

lemma performed_log: "azugo_laws A \<Longrightarrow> \<exists>line. performed A (logProblem A p ctx) = performed A ctx @ [line] \<and>
    line = LogLine (if 500 \<le> pStatus p then ErrorLevel else WarnLevel) ''request error''
      ([zap_String ''error.code'' (pCode p), zap_Int ''http.response.status_code'' (pStatus p)] @
       (if pSource p \<noteq> [] then [zap_String ''error.source'' (pSource p)] else []) @
       (if pDetail p \<noteq> [] then [zap_String ''error.detail'' (pDetail p)] else []))"
  by (simp add: logProblem_def Let_def azugo_lawsD(1))

lemma ID_perform: "azugo_laws A \<Longrightarrow> set_value x = None \<Longrightarrow> ID A (Some (perform A x c)) = ID A (Some c)"
  by (simp add: ID_def azugo_lawsD(2))

lemma FromContext_perform:
  "azugo_laws A \<Longrightarrow> set_value x = None \<Longrightarrow> FromContext A (Some (perform A x c)) = FromContext A (Some c)"
  by (simp add: FromContext_def ID_perform traceIDs_def perform_same)

lemma AppInstance_perform:
  "azugo_laws A \<Longrightarrow> set_value x = None \<Longrightarrow>
   RequestAppInstanceID A (perform A x c) = RequestAppInstanceID A c"
  by (simp add: RequestAppInstanceID_def AppInstanceID_of_def azugo_rules split: option.split)

lemma failure_event_log:
  "azugo_laws A \<Longrightarrow> failure_event_of A now p (logProblem A q ctx) = failure_event_of A now p ctx"
  by (simp add: failure_event_of_def logProblem_def Let_def FromContext_perform AppInstance_perform
      perform_same)

lemma runFailureHooks_eq:
  "runFailureHooks A now hooks p ctx =
     fold (\<lambda>h. invokeFailureHook A h (failure_event_of A now p ctx)) (List.map_filter (\<lambda>h. h) hooks) ctx"
proof -
  have "fold (\<lambda>hook ctx. case hook of None \<Rightarrow> ctx | Some h \<Rightarrow> invokeFailureHook A h evt ctx) hooks c =
      fold (\<lambda>h. invokeFailureHook A h evt) (List.map_filter (\<lambda>h. h) hooks) c" for evt c
    by (induction hooks arbitrary: c) (auto simp: map_filter_simps split: option.split)
  then show ?thesis by (auto simp: runFailureHooks_def Let_def map_filter_simps)
qed

text \<open>What an error of the taxonomy becomes.\<close>

definition fw_plain :: "'a error_env_scheme \<Rightarrow> bool" where
  "fw_plain E \<longleftrightarrow> (\<forall>f. mErrorCode (fw_methods E f) = None \<and> \<not> mValidation (fw_methods E f))"

lemma toProblem_registered:
  assumes "st \<noteq> 0"
  shows "toProblem E R H (RegisteredError c st safe) =
     Some (None, if c = [] then zero_problem\<lparr>pStatus := st, pCode := genericCodeForStatus st,
         pTitle := titleForStatus st, pDetail := safe\<rparr>
       else (NewProblem E R c [WithStatus st])\<lparr>pDetail := safe\<rparr>)"
  using assms
  by (simp add: toProblem_def errors_As_def as_Coder_def as_StatusCode_def plain_methods_def
      statusForError_def as_Validation_def zero_problem_def Let_def)

text \<open>An error whose tree has no problem, no code and no validation error.\<close>

lemma toProblem_bare:
  assumes "errors_As as_Problem e = None" and "errors_As (as_Coder E H) e = None"
    and "errors_As (as_Validation E H) e = None" and "errors_As (as_StatusCode E H) e = Some st"
  shows "\<exists>p. toProblem E R H e = Some (None, p) \<and> pStatus p = st \<and> pCode p = genericCodeForStatus st
    \<and> pTitle p = titleForStatus st \<and> pSource p = [] \<and> pTraceID p = [] \<and> pChain p = []
    \<and> pDetail p = (case mSafeError (methods_of E H e) of Some m \<Rightarrow> m | None \<Rightarrow> [])"
  using assms
  by (auto simp: toProblem_def statusForError_def Let_def zero_problem_def split: option.split)

lemma mapReason_shape:
  "lookupReason E R (cReason c) = None \<Longrightarrow>
   (\<exists>f. mapReason E R c safe = FwError f) \<or> (\<exists>r. mapReason E R c safe = ConflictError r) \<or>
   (\<exists>r. mapReason E R c safe = GoneError r) \<or>
   (\<exists>s. mapReason E R c safe = InternalError (Some (ErrString s)))"
  by (simp add: mapReason_def Let_def del: set_simps)

lemma status_bare:
  assumes "lookupReason E R (cReason c) = None" and "fw_plain E" and "fw_statuses E"
  shows "errors_As as_Problem (mapReason E R c safe) = None
    \<and> errors_As (as_Coder E H) (mapReason E R c safe) = None
    \<and> errors_As (as_Validation E H) (mapReason E R c safe) = None
    \<and> errors_As (as_StatusCode E H) (mapReason E R c safe) = mStatusCode (methods_of E H (mapReason E R c safe))"
proof -
  have fw: "mStatusCode (fw_methods E f) \<noteq> None" for f
    using assms(3) by (cases f) (auto simp: fw_statuses_def)
  show ?thesis
    using mapReason_shape [OF assms(1), of safe] assms(2) fw
    by (auto simp: errors_As_def as_Coder_def as_Validation_def as_StatusCode_def
        plain_methods_def fw_plain_def split: option.split)
qed

subsection \<open>Properties\<close>

text \<open>
  C12. An error leaves as one envelope, complete under stated conditions. For any error
  without a nil problem in its chain, in either mode and with any hooks, the handler reports
  the response as written; the last things it does are to set the status of the problem it
  renders, to pass on the error's headers, and to write that problem as
  \<open>application/problem+json\<close>. The problem has a code, a title and a status that is not 0, and
  the HTTP status is its own, provided that no error in the tree reports the status 0, that
  every registered reason has a title and an error status, and that the framework's status
  codes are in range; without the first two there are counterexamples (\<open>zero_status_diverges\<close>,
  and \<open>normalized\<close> with an empty registered title).
\<close>

theorem Handler_renders:
  assumes "azugo_laws A" and "\<forall>a. errors_As as_Problem e = Some a \<longrightarrow> H a \<noteq> None"
  shows "\<exists>ctx' H' q before headers.
      Handler E R A now source public hooks H ctx (Some e) = Some (True, ctx', H')
    \<and> performed A ctx' = before @ [SetStatusCode (Problem_StatusCode q)] @ headers @
        [SetContentType ContentTypeProblemJSON,
         Raw (if public then public_body (Public q) else problem_body q)]
    \<and> list_all (\<lambda>x. \<exists>n v. x = SetHeader n v) headers \<and> (source \<noteq> [] \<longrightarrow> pSource q \<noteq> [])
    \<and> (fw_statuses E \<and> registry_ok R \<and> titled R \<and>
        (\<forall>x \<in> set (err_tree e). mStatusCode (methods_of E H x) \<noteq> Some 0) \<longrightarrow>
        pStatus q \<noteq> 0 \<and> Problem_StatusCode q = pStatus q \<and> pCode q \<noteq> [] \<and> pTitle q \<noteq> [])"
proof -
  obtain a p where tp: "toProblem E R H e = Some (a, p)"
    using toProblem_None_iff [of E R H e] assms(2) by (cases "toProblem E R H e") auto
  define q where "q = stamped A source ctx p"
  have c: "pStatus q \<noteq> 0 \<and> Problem_StatusCode q = pStatus q \<and> pCode q \<noteq> [] \<and> pTitle q \<noteq> []"
    if "fw_statuses E \<and> registry_ok R \<and> titled R \<and>
        (\<forall>x \<in> set (err_tree e). mStatusCode (methods_of E H x) \<noteq> Some 0)"
  proof -
    have "complete q"
      using that toProblem_complete [OF _ _ _ _ tp] by (simp add: q_def stamped_complete)
    then show ?thesis using complete_status [of q] by (simp add: complete_def)
  qed
  let ?hs = "case errors_As (as_ErrorHeaders E (write_back H a q)) e of
      Some hs \<Rightarrow> map (\<lambda>(name, value). SetHeader name value) hs | None \<Rightarrow> []"
  let ?ctx = "if pSource q = source then runFailureHooks A now hooks q (logProblem A q ctx)
     else logProblem A q ctx"
  have "Handler E R A now source public hooks H ctx (Some e) = Some (True,
      perform_all A (response_calls E public (write_back H a q) e q) ?ctx, write_back H a q)"
    by (simp add: Handler_eq [OF tp] Let_def q_def)
  moreover have "list_all (\<lambda>x. \<exists>n v. x = SetHeader n v) ?hs"
    by (auto simp: list_all_iff split: option.split)
  moreover have "performed A (perform_all A (response_calls E public (write_back H a q) e q) ?ctx) =
      performed A ?ctx @ [SetStatusCode (Problem_StatusCode q)] @ ?hs @ [SetContentType ContentTypeProblemJSON,
         Raw (if public then public_body (Public q) else problem_body q)]"
    by (simp only: performed_all [OF assms(1)] response_calls_def append_assoc)
  moreover have "source \<noteq> [] \<longrightarrow> pSource q \<noteq> []" by (simp add: q_def stamped_def)
  ultimately show ?thesis using c by blast
qed

lemma titled_sample: "titled sample_registry"
  by (simp add: titled_def sample_registry_def)

lemma registry_ok_sample: "registry_ok sample_registry"
  by (simp add: registry_ok_def sample_registry_def)

lemma fw_plain_sample: "fw_plain sample_env"
  by (simp add: fw_plain_def sample_env_def plain_methods_def split: fw_error.split)

lemma Handler_renders_witness:
  "\<exists>ctx' H' q. Handler sample_env sample_registry request_azugo 7 ''document-svc'' False [None] Map.empty
     sample_request (Some (GoneError ''envelope'')) = Some (True, ctx', H') \<and> pStatus q \<noteq> 0 \<and> pTitle q \<noteq> [] \<and>
     Raw (problem_body q) \<in> set (performed request_azugo ctx')"
proof -
  have "\<forall>x \<in> set (err_tree (GoneError ''envelope'')). mStatusCode (methods_of sample_env Map.empty x) \<noteq> Some 0"
    by (simp add: plain_methods_def)
  moreover have "\<forall>a. errors_As as_Problem (GoneError ''envelope'') = Some a \<longrightarrow> Map.empty a \<noteq> None"
    by (auto simp: errors_As_def)
  from Handler_renders [OF request_azugo_laws this, of sample_env sample_registry 7 "''document-svc''" False "[None]" sample_request]
  obtain ctx' H' q before headers where
    h: "Handler sample_env sample_registry request_azugo 7 ''document-svc'' False [None] Map.empty
       sample_request (Some (GoneError ''envelope'')) = Some (True, ctx', H')"
    and p: "performed request_azugo ctx' = before @ [SetStatusCode (Problem_StatusCode q)] @ headers @
        [SetContentType ContentTypeProblemJSON, Raw (if False then public_body (Public q) else problem_body q)]"
    and c: "fw_statuses sample_env \<and> registry_ok sample_registry \<and> titled sample_registry \<and>
        (\<forall>x \<in> set (err_tree (GoneError ''envelope'')). mStatusCode (methods_of sample_env Map.empty x) \<noteq> Some 0) \<longrightarrow>
        pStatus q \<noteq> 0 \<and> Problem_StatusCode q = pStatus q \<and> pCode q \<noteq> [] \<and> pTitle q \<noteq> []"
    by (elim exE conjE)
  ultimately have "pStatus q \<noteq> 0" "pTitle q \<noteq> []"
    using fw_statuses_sample registry_ok_sample titled_sample by blast+
  then show ?thesis by (intro exI [of _ ctx'] exI [of _ H'] exI [of _ q]) (simp add: h p)
qed

text \<open>
  C4. Audited at the origin, once per hook. When the rendered problem names another service
  as its source, the handler does exactly what it does without hooks. When it is this
  service's own error, every hook that is not nil is called once, in order, after the log
  line and before the response, with one event that carries the response's own code, message
  and status, the request's endpoint, method and ids, and this service as the source.
\<close>

theorem hooks_at_origin:
  assumes "azugo_laws A" and "toProblem E R H e = Some (a, p)"
  shows "(pSource p \<noteq> [] \<and> pSource p \<noteq> source \<longrightarrow>
      Handler E R A now source public hooks H ctx (Some e) =
      Handler E R A now source public [] H ctx (Some e))
    \<and> (pSource p = [] \<or> pSource p = source \<longrightarrow> (\<exists>q evt line H'.
        Handler E R A now source public hooks H ctx (Some e) = Some (True,
          perform_all A (response_calls E public H' e q)
            (fold (\<lambda>h. invokeFailureHook A h evt) (List.map_filter (\<lambda>h. h) hooks)
              (perform A line ctx)), H')
      \<and> evService evt = source \<and> evCode evt = pCode q \<and> evErrorMessage evt = Problem_Error q
      \<and> evStatusCode evt = Problem_StatusCode q \<and> evEndpoint evt = router_path A ctx
      \<and> evMethod evt = request_method A ctx \<and> evCorrelationID evt = ID A (Some ctx)
      \<and> evAppInstanceID evt = RequestAppInstanceID A ctx \<and> evOccurredAt evt = now
      \<and> pCode q = pCode p \<and> pStatus q = pStatus p \<and> pSource q = source))"
proof -
  let ?q = "stamped A source ctx p"
  let ?evt = "failure_event_of A now ?q ctx"
  have relayed: "pSource p \<noteq> [] \<and> pSource p \<noteq> source \<longrightarrow>
      Handler E R A now source public hooks H ctx (Some e) =
      Handler E R A now source public [] H ctx (Some e)"
    by (simp add: Handler_eq [OF assms(2)] Let_def stamped_def)
  have ids: "CorrelationIDs (FromContext A (Some ctx)) = ID A (Some ctx)"
    by (simp add: FromContext_def Let_def split: option.split)
  have evt: "evService ?evt = pSource ?q" "evCode ?evt = pCode ?q" "evErrorMessage ?evt = Problem_Error ?q"
      "evStatusCode ?evt = Problem_StatusCode ?q" "evEndpoint ?evt = router_path A ctx"
      "evMethod ?evt = request_method A ctx" "evCorrelationID ?evt = ID A (Some ctx)"
      "evAppInstanceID ?evt = RequestAppInstanceID A ctx" "evOccurredAt ?evt = now"
    by (simp_all add: failure_event_of_def Let_def ids)
  obtain line where line: "logProblem A ?q ctx = perform A line ctx" by (simp add: logProblem_def Let_def)
  have own: "pSource ?q = source" if "pSource p = [] \<or> pSource p = source"
    using that by (auto simp: stamped_def)
  have h: "Handler E R A now source public hooks H ctx (Some e) = Some (True,
          perform_all A (response_calls E public (write_back H a ?q) e ?q)
            (fold (\<lambda>h. invokeFailureHook A h ?evt) (List.map_filter (\<lambda>h. h) hooks)
              (perform A line ctx)), write_back H a ?q)" if "pSource ?q = source"
    using that
    by (simp add: Handler_eq [OF assms(2)] Let_def runFailureHooks_eq failure_event_log [OF assms(1)])
       (simp add: line)
  have q: "pCode ?q = pCode p" "pStatus ?q = pStatus p" by (simp_all add: stamped_def)
  show ?thesis
    using relayed own h evt q by metis
qed

text \<open>The hooks of the other service are not called for a relayed problem.\<close>

definition relayed_heap :: heap where
  "relayed_heap = [0 \<mapsto> sample_problem]"

definition sample_hook :: "request failure_hook" where
  "sample_hook c evt = (perform request_azugo (SetUserValue ''audit'' (evCode evt)) c, Some 1)"

lemma hooks_at_origin_witness:
  "Handler sample_env sample_registry request_azugo 7 ''bff'' True [Some sample_hook] relayed_heap
     sample_request (Some (ProblemRef 0)) =
   Handler sample_env sample_registry request_azugo 7 ''bff'' True [] relayed_heap
     sample_request (Some (ProblemRef 0))"
proof -
  have "toProblem sample_env sample_registry relayed_heap (ProblemRef 0) = Some (Some 0, sample_problem)"
    by (simp add: toProblem_def errors_As_def relayed_heap_def normalized_def sample_problem_def)
  from hooks_at_origin [OF request_azugo_laws this, of "''bff''" 7 True "[Some sample_hook]"]
  show ?thesis by (simp add: sample_problem_def)
qed

text \<open>
  C34. A failure hook cannot affect the response: whatever the hooks do, panics included, the
  handler returns, leaves the same problems behind, and ends with the same response calls,
  the status, the headers, the content type and the body, as with any other hooks.
\<close>

theorem hooks_cannot_change_response:
  assumes "azugo_laws A"
    and "Handler E R A now source public hooks H ctx (Some e) = Some (b1, c1, H1)"
  shows "\<exists>c2 before1 before2 response. Handler E R A now' source public hooks' H ctx (Some e) = Some (b1, c2, H1)
    \<and> performed A c1 = before1 @ response \<and> performed A c2 = before2 @ response
    \<and> (\<exists>st. hd response = SetStatusCode st) \<and> (\<exists>body. last response = Raw body)"
proof -
  obtain a p where tp: "toProblem E R H e = Some (a, p)"
    using assms(2) Handler_None [of E R H e A now source public hooks ctx] by (cases "toProblem E R H e") auto
  let ?q = "stamped A source ctx p"
  let ?H' = "write_back H a ?q"
  let ?r = "response_calls E public ?H' e ?q"
  have r: "(\<exists>st. hd ?r = SetStatusCode st) \<and> (\<exists>body. last ?r = Raw body)"
    by (simp add: response_calls_def)
  have h: "\<exists>ctx1. Handler E R A n source public hs H ctx (Some e) = Some (True, perform_all A ?r ctx1, ?H')"
    for n hs unfolding Handler_eq [OF tp] Let_def by blast
  obtain d1 where d1: "c1 = perform_all A ?r d1" "b1 = True" "H1 = ?H'"
    using h [of now hooks] assms(2) by auto
  obtain d2 where d2: "Handler E R A now' source public hooks' H ctx (Some e) =
      Some (True, perform_all A ?r d2, ?H')"
    using h by blast
  show ?thesis
    using d2 r performed_all [OF assms(1), of ?r] unfolding d1 by blast
qed

lemma hooks_cannot_change_response_witness:
  "\<exists>c1 c2 before1 before2 response.
     Handler sample_env sample_registry request_azugo 7 ''store'' False [Some sample_hook] relayed_heap
       sample_request (Some (ProblemRef 0)) = Some (True, c1, relayed_heap(0 \<mapsto> sample_problem\<lparr>pTraceID := []\<rparr>))
   \<and> Handler sample_env sample_registry request_azugo 8 ''store'' False [] relayed_heap
       sample_request (Some (ProblemRef 0)) = Some (True, c2, relayed_heap(0 \<mapsto> sample_problem\<lparr>pTraceID := []\<rparr>))
   \<and> performed request_azugo c1 = before1 @ response \<and> performed request_azugo c2 = before2 @ response"
proof -
  have "toProblem sample_env sample_registry relayed_heap (ProblemRef 0) = Some (Some 0, sample_problem)"
    by (simp add: toProblem_def errors_As_def relayed_heap_def normalized_def sample_problem_def)
  moreover have "stamped request_azugo ''store'' sample_request sample_problem = sample_problem\<lparr>pTraceID := []\<rparr>"
    by code_simp
  ultimately obtain c1 where c1: "Handler sample_env sample_registry request_azugo 7 ''store'' False
      [Some sample_hook] relayed_heap sample_request (Some (ProblemRef 0)) =
      Some (True, c1, relayed_heap(0 \<mapsto> sample_problem\<lparr>pTraceID := []\<rparr>))"
    by (simp add: Handler_eq Let_def write_back_def)
  show ?thesis
    using hooks_cannot_change_response [OF request_azugo_laws c1, of 8 "[]"] c1 by blast
qed

lemma NewProblem_agrees_plain:
  assumes "fw_statuses E" and "registry_ok R"
  shows "pStatus (NewProblem E R s []) = statusForCode E R s"
proof -
  have "statusForCode E R s \<noteq> 0" using statusForCode_range [OF assms, of s] by linarith
  then show ?thesis by (simp add: NewProblem_plain)
qed

lemma NewProblem_no_detail:
  assumes "fw_statuses E" and "registry_ok R"
  shows "pDetail (NewProblem E R s []) = []"
proof -
  have "statusForCode E R s \<noteq> 0" using statusForCode_range [OF assms, of s] by linarith
  then show ?thesis by (simp add: NewProblem_plain zero_problem_def)
qed

text \<open>
  C19. The two ways to return a result code agree. An error from \<open>FromResultCode\<close> passed to the
  renderer has the status \<open>NewProblem\<close> derives from the code. For a registered reason it is
  \<open>NewProblem\<close>'s problem for the trimmed code in every field but the detail, which is the safe
  message or else the registered title, where \<open>NewProblem\<close> has none: the two bodies are not
  identical. A built-in or unknown reason renders the generic code and title of its status,
  and for a value that is no result code the detail is the fixed safe message.
\<close>

theorem FromResultCode_renders:
  assumes "fw_statuses E" and "fw_plain E" and "registry_ok R"
  shows "\<exists>p. toProblem E R H (FromResultCode E R s safeMsg) = Some (None, p)
    \<and> pStatus p = pStatus (NewProblem E R s [])
    \<and> pDetail (NewProblem E R (trim_space s) []) = []
    \<and> (case ParseCode s of
        None \<Rightarrow> pCode p = ''err:internal:unexpected'' \<and> pDetail p = ''internal server error''
      | Some c \<Rightarrow> (case lookupReason E R (cReason c) of
          Some spec \<Rightarrow> p = (NewProblem E R (trim_space s) [])\<lparr>pDetail := resource (rTitle spec) (msg safeMsg)\<rparr>
        | None \<Rightarrow> pCode p = genericCodeForStatus (pStatus p) \<and> pTitle p = titleForStatus (pStatus p)))"
proof (cases "ParseCode s")
  case None
  note bare = NewProblem_no_detail [OF assms(1,3)]
  let ?e = "InternalError (Some (ErrString s))"
  have "\<exists>p. toProblem E R H ?e = Some (None, p) \<and> pStatus p = 500 \<and>
      pCode p = genericCodeForStatus 500 \<and> pDetail p = ''internal server error''"
    using toProblem_bare [of ?e E H 500 R]
    by (auto simp: errors_As_def as_Coder_def as_Validation_def as_StatusCode_def plain_methods_def
        InternalError_SafeError_def)
  moreover have "pStatus (NewProblem E R s []) = 500"
    using None NewProblem_agrees_plain [OF assms(1,3), of s] by (simp add: statusForCode_eq assms(1))
  ultimately show ?thesis using None bare by (auto simp: FromResultCode_def genericCodeForStatus_def)
next
  case (Some c)
  note np = NewProblem_agrees_plain [OF assms(1,3)] and bare = NewProblem_no_detail [OF assms(1,3)]
  show ?thesis
  proof (cases "lookupReason E R (cReason c)")
    case None
    let ?e = "mapReason E R c (msg safeMsg)"
    have st: "mStatusCode (methods_of E H ?e) = Some (statusForCode E R s)"
      using status_FromResultCode [OF assms(1), of H R s safeMsg] Some
      by (simp add: FromResultCode_def statusForCode_eq assms(1))
    from toProblem_bare [of ?e E H "statusForCode E R s" R] status_bare [OF None assms(2,1), of "msg safeMsg" H] st
    show ?thesis using Some None np [of s] bare by (auto simp: FromResultCode_def)
  next
    case (Some spec)
    let ?t = "code_text c"
    have e: "FromResultCode E R s safeMsg = RegisteredError ?t (rStatus spec) (resource (rTitle spec) (msg safeMsg))"
      using \<open>ParseCode s = Some c\<close> Some by (simp add: FromResultCode_def mapReason_registered)
    have t: "trim_space s = ?t" "ParseCode ?t = Some c"
      using ParseCode_SomeD ParseCode_code_text \<open>ParseCode s = Some c\<close> by auto
    have ne: "?t \<noteq> []" by (simp add: code_text_def Prefix_def)
    have st: "statusForCode E R s = rStatus spec" "statusForCode E R ?t = rStatus spec"
      using \<open>ParseCode s = Some c\<close> Some t by (simp_all add: statusForCode_eq assms(1))
    then have nz: "rStatus spec \<noteq> 0" using statusForCode_range [OF assms(1,3), of s] by linarith
    have "NewProblem E R ?t [WithStatus (rStatus spec)] = NewProblem E R ?t []"
      using nz st(2) by (simp add: NewProblem_plain NewProblem_WithStatus split: option.split)
    then have p: "toProblem E R H (FromResultCode E R s safeMsg) =
        Some (None, (NewProblem E R ?t [])\<lparr>pDetail := resource (rTitle spec) (msg safeMsg)\<rparr>)"
      using ne by (simp add: e toProblem_registered [OF nz])
    have "pStatus (NewProblem E R ?t []) = pStatus (NewProblem E R s [])" using np [of s] np [of ?t] st by simp
    then show ?thesis using Some \<open>ParseCode s = Some c\<close> t(1) bare [of ?t] by (simp add: p)
  qed
qed

lemma FromResultCode_renders_witness:
  "\<exists>p. toProblem sample_env sample_registry Map.empty
      (FromResultCode sample_env sample_registry '' err:credential:proof-invalid'' []) = Some (None, p) \<and>
    pCode p = ''err:credential:proof-invalid'' \<and> pDetail p = ''Invalid proof''"
proof -
  have c: "ParseCode '' err:credential:proof-invalid'' =
      Some \<lparr>cDomain = ''credential'', cReason = ''proof-invalid''\<rparr>"
    "lookupReason sample_env sample_registry ''proof-invalid'' = Some \<lparr>rStatus = 400, rTitle = ''Invalid proof''\<rparr>"
    "pCode (NewProblem sample_env sample_registry ''err:credential:proof-invalid'' []) = ''err:credential:proof-invalid''"
    "trim_space '' err:credential:proof-invalid'' = ''err:credential:proof-invalid''"
    by code_simp+
  then show ?thesis
    using FromResultCode_renders [OF fw_statuses_sample fw_plain_sample registry_ok_sample,
        of Map.empty "'' err:credential:proof-invalid''" "[]"]
    by (auto simp: resource_def msg_def)
qed

text \<open>
  C33. In public mode nothing internal reaches the wire: the body the handler writes, read
  back, has no source and no chain, keeps the detail only when its emitter marked it public,
  and still carries the code, title, status and trace id.
\<close>

theorem public_response_strips:
  assumes "azugo_laws A" and "toProblem E R H e = Some (a, p)" and "problem_wf p"
    and "valid_utf8 source" and "valid_utf8 (traceThread A ctx)" and "pCode p \<noteq> []"
  shows "\<exists>ctx' H' body q. Handler E R A now source True hooks H ctx (Some e) = Some (True, ctx', H')
    \<and> last (performed A ctx') = Raw body \<and> ParseProblem body = Some q
    \<and> pSource q = [] \<and> pChain q = [] \<and> pDetail q = (if detailPublic p then pDetail p else [])
    \<and> pCode q = pCode p \<and> pTitle q = pTitle p \<and> pStatus q = pStatus p
    \<and> pTraceID q = (if pTraceID p = [] then traceThread A ctx else pTraceID p)"
proof -
  let ?q = "stamped A source ctx p"
  have wf: "problem_wf ?q" using assms(3-5) by (simp add: stamped_def problem_wf_def)
  have c: "pCode ?q \<noteq> []" using assms(6) by (simp add: stamped_def)
  have "last (performed A (perform_all A (response_calls E True H' e ?q) c)) = Raw (public_body (Public ?q))"
    for c H' by (simp add: performed_all [OF assms(1)] response_calls_def)
  then show ?thesis
    using ParseProblem_public_body [OF wf] c
    by (simp add: Handler_eq [OF assms(2)] Let_def) (simp add: stamped_def)
qed

lemma public_response_strips_witness:
  "\<exists>ctx' H' body q. Handler sample_env sample_registry request_azugo 7 ''bff'' True [] relayed_heap
      sample_request (Some (ProblemRef 0)) = Some (True, ctx', H') \<and>
    last (performed request_azugo ctx') = Raw body \<and> ParseProblem body = Some q \<and>
    pSource q = [] \<and> pChain q = []"
proof -
  have p: "toProblem sample_env sample_registry relayed_heap (ProblemRef 0) = Some (Some 0, sample_problem)"
    by (simp add: toProblem_def errors_As_def relayed_heap_def normalized_def sample_problem_def)
  have v: "valid_utf8 ''bff''" "valid_utf8 (traceThread request_azugo sample_request)"
    "pCode sample_problem \<noteq> []"
    by code_simp+
  from public_response_strips [OF request_azugo_laws p problem_wf_sample v, of 7 "[]"]
  show ?thesis by blast
qed

text \<open>
  C38. A problem that outlives the request keeps the first request's trace id. The handler
  fills the trace id through the pointer, so when a service returns one and the same
  \<open>*Problem\<close> (a package-level error value) from two requests, the second response carries the
  trace id of the first request, whatever the second request's own ids are.
\<close>

theorem shared_problem_keeps_trace:
  assumes "azugo_laws A" and "H a = Some p" and "complete p" and "pTraceID p = []"
    and "traceThread A ctx1 \<noteq> []"
  shows "\<exists>ctx1' H1 ctx2' q.
      Handler E R A now1 source False hooks H ctx1 (Some (ProblemRef a)) = Some (True, ctx1', H1)
    \<and> Handler E R A now2 source False hooks H1 ctx2 (Some (ProblemRef a)) = Some (True, ctx2', H1)
    \<and> last (performed A ctx2') = Raw (problem_body q) \<and> pTraceID q = traceThread A ctx1"
proof -
  let ?q = "stamped A source ctx1 p"
  have tp1: "toProblem E R H (ProblemRef a) = Some (Some a, p)"
    using assms(2,3) by (simp add: toProblem_def errors_As_def normalized_id)
  have tp2: "toProblem E R (H(a \<mapsto> ?q)) (ProblemRef a) = Some (Some a, ?q)"
    using assms(3) by (simp add: toProblem_def errors_As_def normalized_id stamped_complete)
  have q2: "stamped A source ctx2 ?q = ?q"
    using assms(4,5) by (simp add: stamped_def)
  have "last (performed A (perform_all A (response_calls E False H' e ?q) c)) = Raw (problem_body ?q)"
    for c H' e by (simp add: performed_all [OF assms(1)] response_calls_def)
  moreover have "pTraceID ?q = traceThread A ctx1" using assms(4) by (simp add: stamped_def)
  ultimately show ?thesis
    using Handler_eq [OF tp1, of A now1 source False hooks ctx1]
      Handler_eq [OF tp2, of A now2 source False hooks ctx2]
    unfolding Let_def write_back_def option.case q2 fun_upd_upd by blast
qed

definition sentinel_heap :: heap where
  "sentinel_heap = [0 \<mapsto> NewProblem sample_env sample_registry ''err:document:notFound'' []]"

definition other_request :: request where
  "other_request = sample_request\<lparr>rqUser := [(RequestValueName, ''corr-2'')]\<rparr>"

definition first_request :: request where
  "first_request = sample_request\<lparr>rqUser := [(RequestValueName, ''corr-1'')]\<rparr>"

lemma shared_problem_keeps_trace_witness:
  "\<exists>H1 ctx2' q. Handler sample_env sample_registry request_azugo 2 ''store'' False [] H1 other_request
      (Some (ProblemRef 0)) = Some (True, ctx2', H1) \<and>
    last (performed request_azugo ctx2') = Raw (problem_body q) \<and> pTraceID q = ''corr-1'' \<and>
    traceThread request_azugo other_request = ''corr-2''"
proof -
  let ?p = "NewProblem sample_env sample_registry ''err:document:notFound'' []"
  have h: "sentinel_heap 0 = Some ?p" by (simp add: sentinel_heap_def)
  have c: "complete ?p" "pTraceID ?p = []" by code_simp+
  have t: "traceThread request_azugo first_request = ''corr-1''"
    "traceThread request_azugo other_request = ''corr-2''" by code_simp+
  then have "traceThread request_azugo first_request \<noteq> []" by simp
  from shared_problem_keeps_trace [where H = sentinel_heap and a = 0, OF request_azugo_laws h c this,
      of sample_env sample_registry 1 "''store''" "[]" 2 other_request]
  show ?thesis using t by auto
qed

text \<open>
  An error whose \<open>StatusCode\<close> is 0 is rendered inconsistently. \<open>toProblem\<close> guards against
  an unset status only for an error with a code; for one without, the envelope says
  \<open>"status":0\<close> while the response is sent with status 500, and the failure is logged as a
  client error.
\<close>

theorem zero_status_diverges:
  assumes "azugo_laws A" and "errors_As as_Problem e = None" and "errors_As (as_Coder E H) e = None"
    and "errors_As (as_Validation E H) e = None" and "errors_As (as_StatusCode E H) e = Some 0"
  shows "\<exists>ctx' H' q before fields headers.
      Handler E R A now source False [] H ctx (Some e) = Some (True, ctx', H')
    \<and> performed A ctx' = before @ [LogLine WarnLevel ''request error'' fields, SetStatusCode 500] @
        headers @ [SetContentType ContentTypeProblemJSON, Raw (problem_body q)]
    \<and> pStatus q = 0 \<and> pTitle q = ''Internal server error''"
proof -
  obtain p where tp: "toProblem E R H e = Some (None, p)" and st: "pStatus p = 0"
    and ti: "pTitle p = titleForStatus 0"
    using toProblem_bare [OF assms(2-5)] by blast
  let ?q = "stamped A source ctx p"
  have q: "pStatus ?q = 0" "pTitle ?q = ''Internal server error''"
    using st ti by (simp_all add: stamped_def titleForStatus_def)
  have log: "\<exists>fields. performed A (logProblem A ?q ctx) =
      performed A ctx @ [LogLine WarnLevel ''request error'' fields]"
    using q by (simp add: logProblem_def Let_def azugo_lawsD(1) [OF assms(1)])
  have "runFailureHooks A now [] ?q c = c" for c by (simp add: runFailureHooks_def)
  then show ?thesis
    using log q
    by (auto simp: Handler_eq [OF tp] Let_def write_back_def performed_all [OF assms(1)]
        azugo_lawsD(1) [OF assms(1)] response_calls_def Problem_StatusCode_def intro!: exI [of _ ?q])
       blast
qed

lemma zero_status_diverges_witness:
  "\<exists>ctx' H' q. Handler sample_env sample_registry request_azugo 7 ''store'' False [] Map.empty sample_request
      (Some (ForeignError ((plain_methods ''boom'')\<lparr>mStatusCode := Some 0\<rparr>) [])) = Some (True, ctx', H') \<and>
    last (performed request_azugo ctx') = Raw (problem_body q) \<and> pStatus q = 0 \<and>
    SetStatusCode 500 \<in> set (performed request_azugo ctx')"
proof -
  let ?e = "ForeignError ((plain_methods ''boom'')\<lparr>mStatusCode := Some 0\<rparr>) []"
  have "errors_As as_Problem ?e = None" "errors_As (as_Coder sample_env Map.empty) ?e = None"
    "errors_As (as_Validation sample_env Map.empty) ?e = None"
    "errors_As (as_StatusCode sample_env Map.empty) ?e = Some 0"
    by (simp_all add: errors_As_def as_Coder_def as_Validation_def as_StatusCode_def plain_methods_def)
  from zero_status_diverges [OF request_azugo_laws this, of sample_registry 7 "''store''" sample_request]
  show ?thesis by fastforce
qed

end
