(* ===== verification/Redaction.thy ===== *)
theory Redaction
  imports Framework Go_Strings
begin

text \<open>
  \<open>observability/redaction.go\<close>: the redaction policy and the logging core that applies it.

  A \<open>zapcore.Core\<close> is an interface of the logging library. The kit wraps the application's
  core, so a core here is either the library's own, \<open>Sink\<close>, which keeps the fields given to
  \<open>With\<close> and writes an entry with those and its own fields, or the kit's \<open>RedactCore\<close> around
  another. What reaches the encoder is the list of fields \<open>core_Write\<close> returns.
\<close>

definition maskValue :: string where
  "maskValue = ''[REDACTED]''"

record redaction_policy =
  DropKeys :: "string list"
  MaskKeys :: "string list"
  dedupeKeys :: "string set"

definition DefaultRedactionPolicy :: redaction_policy where
  "DefaultRedactionPolicy = \<lparr>
     DropKeys = [''authorization'', ''dpop'', ''proof'', ''token'', ''secret'', ''password'',
       ''passwd'', ''credential'', ''cookie'', ''api_key'', ''apikey'', ''private_key'',
       ''privatekey'', ''client_secret'', ''session'', ''bearer'',
       ''file_data'', ''filedata'', ''document_content'', ''documentcontent'',
       ''file_bytes'', ''payload'', ''raw_body'', ''rawbody''],
     MaskKeys = [''email'', ''phone'', ''msisdn'', ''personal_code'', ''personalcode'',
       ''national_id'', ''nationalid'', ''ssn'', ''given_name'', ''givenname'',
       ''family_name'', ''familyname'', ''full_name'', ''fullname'', ''birth'',
       ''dob'', ''address'', ''pii''],
     dedupeKeys = set [''service.name'', ''service.version'', ''service.environment'',
       ''host.hostname'', ''container.id'', ''kubernetes.namespace'', ''kubernetes.pod.name'',
       ''kubernetes.pod.uid'', ''kubernetes.node.name'']\<rparr>"

fun containsAny :: "string \<Rightarrow> string list \<Rightarrow> bool" where
  "containsAny key [] = False"
| "containsAny key (s # subs) = (if contains key s then True else containsAny key subs)"

fun scrub_loop :: "'a unicode_tables_scheme \<Rightarrow> redaction_policy \<Rightarrow> zfield list \<Rightarrow> zfield list \<Rightarrow> zfield list" where
  "scrub_loop U p [] out = out"
| "scrub_loop U p (f # fs) out =
     (if fKey f \<in> dedupeKeys p then scrub_loop U p fs out
      else
        let key = to_lower U (fKey f) in
        if containsAny key (DropKeys p) then scrub_loop U p fs out
        else if containsAny key (MaskKeys p) then scrub_loop U p fs (out @ [zap_String (fKey f) maskValue])
        else scrub_loop U p fs (out @ [f]))"

definition scrub :: "'a unicode_tables_scheme \<Rightarrow> redaction_policy \<Rightarrow> zfield list \<Rightarrow> zfield list" where
  "scrub U p fds = (if length fds = 0 then fds else scrub_loop U p fds [])"

subsection \<open>Cores\<close>

datatype core =
    Sink log_level "zfield list"
  | RedactCore core redaction_policy

fun core_Enabled :: "core \<Rightarrow> log_level \<Rightarrow> bool" where
  "core_Enabled (Sink lvl ctx) l = (lvl \<le> l)"
| "core_Enabled (RedactCore c p) l = core_Enabled c l"

fun core_With :: "'a unicode_tables_scheme \<Rightarrow> core \<Rightarrow> zfield list \<Rightarrow> core" where
  "core_With U (Sink lvl ctx) fds = Sink lvl (ctx @ fds)"
| "core_With U (RedactCore c p) fds = RedactCore (core_With U c (scrub U p fds)) p"

fun core_Write :: "'a unicode_tables_scheme \<Rightarrow> core \<Rightarrow> zfield list \<Rightarrow> zfield list" where
  "core_Write U (Sink lvl ctx) fds = ctx @ fds"
| "core_Write U (RedactCore c p) fds = core_Write U c (scrub U p fds)"

text \<open>\<open>Check\<close> adds the core that is to write the entry to the checked entry, a list of cores.\<close>

fun core_Check :: "core \<Rightarrow> log_level \<Rightarrow> core list \<Rightarrow> core list" where
  "core_Check (Sink lvl ctx) l ce = (if core_Enabled (Sink lvl ctx) l then ce @ [Sink lvl ctx] else ce)"
| "core_Check (RedactCore c p) l ce =
     (if core_Enabled (RedactCore c p) l then ce @ [RedactCore c p] else ce)"

text \<open>A log call: the entry is checked, and every core added writes it.\<close>

definition log_call :: "'a unicode_tables_scheme \<Rightarrow> core \<Rightarrow> log_level \<Rightarrow> zfield list \<Rightarrow> zfield list list" where
  "log_call U c l fds = map (\<lambda>c. core_Write U c fds) (core_Check c l [])"

text \<open>
  \<open>App.ReplaceLogger\<close> bakes the application's service-identity fields into the logger it is
  given; they are already in the logger being replaced.
\<close>

definition EnableRedaction ::
  "'a unicode_tables_scheme \<Rightarrow> zfield list \<Rightarrow> core \<Rightarrow> redaction_policy option \<Rightarrow> core" where
  "EnableRedaction U app_fields app_core policy =
     (let policy = (case policy of None \<Rightarrow> DefaultRedactionPolicy | Some p \<Rightarrow> p)
      in core_With U (RedactCore app_core policy) app_fields)"

subsection \<open>What is scrubbed\<close>

lemma containsAny_iff: "containsAny key subs \<longleftrightarrow> (\<exists>s \<in> set subs. contains key s)"
  by (induction subs) auto

text \<open>What one field becomes.\<close>

definition scrub_field :: "'a unicode_tables_scheme \<Rightarrow> redaction_policy \<Rightarrow> zfield \<Rightarrow> zfield option" where
  "scrub_field U p f =
     (if fKey f \<in> dedupeKeys p \<or> containsAny (to_lower U (fKey f)) (DropKeys p) then None
      else if containsAny (to_lower U (fKey f)) (MaskKeys p) then Some (zap_String (fKey f) maskValue)
      else Some f)"

lemma scrub_loop_eq: "scrub_loop U p fs out = out @ List.map_filter (scrub_field U p) fs"
  by (induction fs arbitrary: out) (auto simp: scrub_field_def Let_def map_filter_simps)

lemma scrub_eq: "scrub U p fs = List.map_filter (scrub_field U p) fs"
  by (simp add: scrub_def scrub_loop_eq map_filter_simps)

lemma scrub_append: "scrub U p (fs @ gs) = scrub U p fs @ scrub U p gs"
  by (simp add: scrub_eq map_filter_def)

definition clean :: "'a unicode_tables_scheme \<Rightarrow> redaction_policy \<Rightarrow> zfield \<Rightarrow> bool" where
  "clean U p f \<longleftrightarrow> fKey f \<notin> dedupeKeys p \<and>
     (\<forall>s \<in> set (DropKeys p). \<not> contains (to_lower U (fKey f)) s) \<and>
     ((\<exists>s \<in> set (MaskKeys p). contains (to_lower U (fKey f)) s) \<longrightarrow> fVal f = FString maskValue)"

lemma scrub_field_Some:
  "scrub_field U p f = Some g \<Longrightarrow> clean U p g \<and> fKey g = fKey f"
  by (auto simp: scrub_field_def clean_def containsAny_iff zap_String_def split: if_splits)

lemma scrub_clean: "list_all (clean U p) (scrub U p fs)"
  by (auto simp: scrub_eq list_all_iff map_filter_def dest: scrub_field_Some)

lemma scrub_field_clean: "clean U p f \<Longrightarrow> scrub_field U p f = Some f"
  by (cases f) (auto simp: scrub_field_def clean_def containsAny_iff zap_String_def)

lemma scrub_id: "list_all (clean U p) fs \<Longrightarrow> scrub U p fs = fs"
  by (induction fs) (simp_all add: scrub_eq map_filter_simps scrub_field_clean)

lemma scrub_idem: "scrub U p (scrub U p fs) = scrub U p fs"
  by (rule scrub_id [OF scrub_clean])

text \<open>A logger that was given fields in steps, \<open>With\<close> by \<open>With\<close>.\<close>

definition with_all :: "'a unicode_tables_scheme \<Rightarrow> core \<Rightarrow> zfield list list \<Rightarrow> core" where
  "with_all U c fss = foldl (core_With U) c fss"

lemma with_all_redact:
  "with_all U (RedactCore (Sink lvl ctx) p) fss =
     RedactCore (Sink lvl (ctx @ concat (map (scrub U p) fss))) p"
  by (induction fss rule: rev_induct) (simp_all add: with_all_def)

subsection \<open>Properties\<close>

text \<open>
  C8. No path around redaction. A logger whose core is wrapped, given any fields in any
  number of steps and then asked to log any fields, writes at most one line, on levels the
  sink has enabled; every field of the line that was not in the sink before has a key the
  policy does not drop, and if the policy masks its key the value is the mask. A field the
  policy does not touch is written unchanged and in order, and scrubbing twice is scrubbing
  once.
\<close>

theorem redaction_no_bypass:
  "log_call U (with_all U (RedactCore (Sink lvl base) p) fss) l fs =
     (if lvl \<le> l then [base @ concat (map (scrub U p) (fss @ [fs]))] else [])
   \<and> list_all (clean U p) (concat (map (scrub U p) (fss @ [fs])))
   \<and> (list_all (clean U p) fs \<longrightarrow> scrub U p fs = fs)
   \<and> scrub U p (scrub U p fs) = scrub U p fs"
proof -
  have "list_all (clean U p) (concat (map (scrub U p) gss))" for gss
    using scrub_clean by (induction gss) auto
  from this [of "fss @ [fs]"] show ?thesis
    by (simp add: log_call_def with_all_redact scrub_id scrub_idem)
qed

lemma redaction_no_bypass_witness:
  "log_call \<lparr>uni_lower = \<lambda>r. r, uni_print = \<lambda>r. True\<rparr>
     (with_all \<lparr>uni_lower = \<lambda>r. r, uni_print = \<lambda>r. True\<rparr>
       (RedactCore (Sink InfoLevel []) DefaultRedactionPolicy) [[zap_String ''DPoP'' ''eyJ'']])
     ErrorLevel [zap_String ''User_Email'' ''a@b.c'', zap_String ''slot'' ''3''] =
   [[zap_String ''User_Email'' maskValue, zap_String ''slot'' ''3'']]"
proof -
  let ?U = "\<lparr>uni_lower = \<lambda>r. r, uni_print = \<lambda>r. True\<rparr>"
  have l: "InfoLevel \<le> ErrorLevel" by (simp add: less_eq_log_level_def)
  have s: "scrub ?U DefaultRedactionPolicy [zap_String ''DPoP'' ''eyJ''] = []"
    "scrub ?U DefaultRedactionPolicy [zap_String ''User_Email'' ''a@b.c'', zap_String ''slot'' ''3''] =
      [zap_String ''User_Email'' maskValue, zap_String ''slot'' ''3'']"
    by code_simp+
  show ?thesis
    using redaction_no_bypass [of ?U InfoLevel "[]" DefaultRedactionPolicy "[[zap_String ''DPoP'' ''eyJ'']]"
        ErrorLevel "[zap_String ''User_Email'' ''a@b.c'', zap_String ''slot'' ''3'']"] l s
    by simp
qed

text \<open>
  A policy key with an upper-case letter redacts nothing. Only the field's key is
  lower-cased before the substring test, so an entry such as \<open>Password\<close> of a service's own
  policy never matches, and a field with exactly that key is logged as it is, although
  matching is documented to be case-insensitive. (The default policy is all lower case.)
\<close>

theorem uppercase_policy_ignored:
  assumes "lower_table_ok U"
    and "\<forall>s \<in> set (DropKeys p @ MaskKeys p). \<exists>c \<in> set s. 65 \<le> byte c \<and> byte c \<le> 90"
    and "fKey f \<notin> dedupeKeys p"
  shows "scrub U p [f] = [f]"
proof -
  have "\<not> contains (to_lower U (fKey f)) s" if "s \<in> set (DropKeys p @ MaskKeys p)" for s
    using assms(2) that contains_set to_lower_no_upper [OF assms(1)] by blast
  then have "clean U p f" using assms(3) by (auto simp: clean_def)
  then show ?thesis by (simp add: scrub_id)
qed

definition custom_policy :: redaction_policy where
  "custom_policy = \<lparr>DropKeys = [''Password'', ''X-Api-Key''], MaskKeys = [''Iban''], dedupeKeys = {}\<rparr>"

lemma uppercase_policy_ignored_witness:
  "scrub \<lparr>uni_lower = \<lambda>r. r, uni_print = \<lambda>r. True\<rparr> custom_policy [zap_String ''Password'' ''hunter2''] =
     [zap_String ''Password'' ''hunter2'']"
  by (rule uppercase_policy_ignored) (auto simp: lower_table_ok_def custom_policy_def)

text \<open>
  With the default policy the service-identity fields appear once. After
  \<open>EnableRedaction\<close> on an application whose own logger already carries those fields, and
  however often it is enabled again, a logged line starts with one copy of them; a policy of
  the service's own has no \<open>dedupeKeys\<close> and each call adds another copy of every field it does
  not drop.
\<close>

theorem base_fields_once:
  assumes "\<forall>f \<in> set base. fKey f \<in> dedupeKeys DefaultRedactionPolicy"
  shows "log_call U (EnableRedaction U base (Sink lvl base) None) l fs =
      (if lvl \<le> l then [base @ scrub U DefaultRedactionPolicy fs] else [])
    \<and> EnableRedaction U base (EnableRedaction U base (Sink lvl base) None) None =
      RedactCore (EnableRedaction U base (Sink lvl base) None) DefaultRedactionPolicy
    \<and> log_call U (EnableRedaction U base (Sink lvl base) (Some p)) l fs =
      (if lvl \<le> l then [base @ scrub U p base @ scrub U p fs] else [])"
proof -
  have "scrub U DefaultRedactionPolicy base = []"
    using assms by (auto simp: scrub_eq map_filter_def scrub_field_def filter_empty_conv)
  then show ?thesis
    by (simp add: EnableRedaction_def log_call_def) (simp add: scrub_eq map_filter_simps)
qed

lemma base_fields_once_witness:
  "log_call \<lparr>uni_lower = \<lambda>r. r, uni_print = \<lambda>r. True\<rparr>
     (EnableRedaction \<lparr>uni_lower = \<lambda>r. r, uni_print = \<lambda>r. True\<rparr>
       [zap_String ''service.name'' ''s''] (Sink InfoLevel [zap_String ''service.name'' ''s'']) None)
     InfoLevel [] = [[zap_String ''service.name'' ''s'']]"
proof -
  have "\<forall>f \<in> set [zap_String ''service.name'' ''s'']. fKey f \<in> dedupeKeys DefaultRedactionPolicy"
    by (simp add: zap_String_def DefaultRedactionPolicy_def)
  from base_fields_once [OF this, of "\<lparr>uni_lower = \<lambda>r. r, uni_print = \<lambda>r. True\<rparr>" InfoLevel InfoLevel "[]"]
  show ?thesis by (simp add: scrub_def)
qed

end
