(* ===== verification/Bootstrap.thy ===== *)
theory Bootstrap
  imports Error_Handler Redaction
begin

text \<open>
  \<open>platform/platform.go\<close> and \<open>observability/otel.go\<close>: the one call that wires a service.

  The application object of the web framework is the record \<open>app\<close>: its name, its logger with
  the service-identity fields, the middlewares in the order they were installed, and the
  error handler. \<open>opentelemetry.Use\<close> and \<open>App.AddTask\<close> are the fields of \<open>otel_api\<close>. The
  configuration is a pointer: \<open>EnableTracing\<close> fills the service name in the telemetry
  section, so the configuration after the call is part of the result.
\<close>

record otel_config =
  ocServiceName :: string
  ocEndpoint :: string

record ('ctx, 't) app =
  appName :: string
  appLog :: core
  appFields :: "zfield list"
  appTasks :: "'t list"
  appMiddleware :: "(string \<Rightarrow> ('ctx \<Rightarrow> 'ctx) \<Rightarrow> 'ctx \<Rightarrow> 'ctx) list"
  appErrorHandler :: "(registry \<Rightarrow> int \<Rightarrow> heap \<Rightarrow> 'ctx \<Rightarrow> goerror option \<Rightarrow> (bool \<times> 'ctx \<times> heap) option) option"

record ('ctx, 't, 'o, 'e) otel_api =
  otel_Use :: "('ctx, 't) app \<Rightarrow> otel_config \<Rightarrow> 'o list \<Rightarrow> ('ctx, 't) app \<times> ('e + 't)"
  app_AddTask :: "('ctx, 't) app \<Rightarrow> 't \<Rightarrow> ('ctx, 't) app \<times> 'e option"

definition EnableTracing ::
  "('ctx, 't, 'o, 'e) otel_api \<Rightarrow> ('ctx, 't) app \<Rightarrow> otel_config option \<Rightarrow> 'o list \<Rightarrow>
   'e option \<times> ('ctx, 't) app \<times> otel_config" where
  "EnableTracing T app cfg opts =
     (let cfg = (case cfg of None \<Rightarrow> \<lparr>ocServiceName = [], ocEndpoint = []\<rparr> | Some c \<Rightarrow> c);
          cfg = (if ocServiceName cfg = [] then cfg\<lparr>ocServiceName := appName app\<rparr> else cfg)
      in (case otel_Use T app cfg opts of
            (app, Inl err) \<Rightarrow> (Some err, app, cfg)
          | (app, Inr t) \<Rightarrow> (case app_AddTask T app t of (app, err) \<Rightarrow> (err, app, cfg))))"

record ('ctx, 'o) setup_options =
  soConfig :: "otel_config option option" \<comment> \<open>the configuration, and the telemetry section in it\<close>
  soRedaction :: "redaction_policy option"
  soPublicErrors :: bool
  soTracingOptions :: "'o list"
  soOnFailure :: "'ctx failure_hook option"

datatype 'e setup_error = SetupErr string | TracingErr 'e

definition Setup ::
  "'a error_env_scheme \<Rightarrow> ('ctx, 'b) azugo_scheme \<Rightarrow> ('ctx, 't, 'o, 'e) otel_api \<Rightarrow>
   ('ctx, 't) app option \<Rightarrow> ('ctx, 'o) setup_options \<Rightarrow>
   'e setup_error option \<times> ('ctx, 't) app option \<times> otel_config option option" where
  "Setup E A T app opts = (case app of
      None \<Rightarrow> (Some (SetupErr ''platform: nil app''), None, soConfig opts)
    | Some app \<Rightarrow> (case soConfig opts of
        None \<Rightarrow> (Some (SetupErr ''platform: Options.Config is required''), Some app, None)
      | Some telemetry \<Rightarrow> (case EnableTracing T app telemetry (soTracingOptions opts) of
          (Some err, app, cfg) \<Rightarrow>
            (Some (TracingErr err), Some app, Some (map_option (\<lambda>section. cfg) telemetry))
        | (None, app, cfg) \<Rightarrow>
            let app = app\<lparr>appLog := EnableRedaction E (appFields app) (appLog app) (soRedaction opts)\<rparr>;
                app = app\<lparr>appMiddleware := appMiddleware app @ [Middleware A]\<rparr>;
                hooks = (case soOnFailure opts of None \<Rightarrow> [] | Some h \<Rightarrow> [Some h]);
                app = app\<lparr>appErrorHandler := Some (\<lambda>R now.
                  Handler E R A now (appName app) (soPublicErrors opts) hooks)\<rparr>
            in (None, Some app, Some (map_option (\<lambda>section. cfg) telemetry)))))"

subsection \<open>What a set-up service does\<close>

text \<open>\<open>opentelemetry.Use\<close> installs its own middleware and leaves the rest of the application.\<close>

definition otel_laws :: "('ctx, 't, 'o, 'e) otel_api \<Rightarrow> bool" where
  "otel_laws T \<longleftrightarrow>
     (\<forall>app cfg opts. appName (fst (otel_Use T app cfg opts)) = appName app \<and>
        appLog (fst (otel_Use T app cfg opts)) = appLog app \<and>
        appFields (fst (otel_Use T app cfg opts)) = appFields app) \<and>
     (\<forall>app t. appName (fst (app_AddTask T app t)) = appName app \<and>
        appLog (fst (app_AddTask T app t)) = appLog app \<and>
        appFields (fst (app_AddTask T app t)) = appFields app \<and>
        appMiddleware (fst (app_AddTask T app t)) = appMiddleware app)"

lemma EnableTracing_keeps:
  assumes "otel_laws T" and "EnableTracing T app cfg opts = (err, app', cfg')"
  shows "appName app' = appName app \<and> appLog app' = appLog app \<and> appFields app' = appFields app"
proof -
  let ?c = "case cfg of None \<Rightarrow> \<lparr>ocServiceName = [], ocEndpoint = []\<rparr> | Some c \<Rightarrow> c"
  let ?d = "if ocServiceName ?c = [] then ?c\<lparr>ocServiceName := appName app\<rparr> else ?c"
  obtain a r where u: "otel_Use T app ?d opts = (a, r)" by fastforce
  have a: "appName a = appName app" "appLog a = appLog app" "appFields a = appFields app"
    using assms(1) u unfolding otel_laws_def by (metis fst_conv)+
  show ?thesis
  proof (cases r)
    case (Inl e)
    with assms(2) u a show ?thesis by (auto simp: EnableTracing_def Let_def)
  next
    case (Inr t)
    obtain b e where t: "app_AddTask T a t = (b, e)" by fastforce
    then have "appName b = appName a" "appLog b = appLog a" "appFields b = appFields a"
      using assms(1) unfolding otel_laws_def by (metis fst_conv)+
    with Inr t assms(2) u a show ?thesis by (auto simp: EnableTracing_def Let_def)
  qed
qed

lemma Setup_error_installs_nothing:
  assumes "otel_laws T" and "Setup E A T (Some app) opts = (Some err, app', cfg')"
  shows "\<exists>a. app' = Some a \<and> appLog a = appLog app"
proof (cases "soConfig opts")
  case None
  with assms(2) show ?thesis by (auto simp: Setup_def)
next
  case (Some cfg)
  obtain e a c where t: "EnableTracing T app cfg (soTracingOptions opts) = (e, a, c)"
    by (metis prod.exhaust)
  with Some assms(2) EnableTracing_keeps [OF assms(1) t] show ?thesis
    by (cases e) (auto simp: Setup_def Let_def)
qed

text \<open>A set-up application: what is in its error handler, its logger and last middleware.\<close>

lemma Setup_ok:
  assumes "otel_laws T" and "Setup E A T (Some app) opts = (None, Some a, cfg')"
  shows "appLog a = EnableRedaction E (appFields app) (appLog app) (soRedaction opts)
    \<and> appMiddleware a \<noteq> [] \<and> last (appMiddleware a) = Middleware A
    \<and> appErrorHandler a = Some (\<lambda>R now. Handler E R A now (appName app) (soPublicErrors opts)
        (case soOnFailure opts of None \<Rightarrow> [] | Some h \<Rightarrow> [Some h]))"
proof (cases "soConfig opts")
  case None
  with assms(2) show ?thesis by (simp add: Setup_def)
next
  case (Some cfg)
  obtain e b c where t: "EnableTracing T app cfg (soTracingOptions opts) = (e, b, c)"
    by (metis prod.exhaust)
  with Some assms(2) EnableTracing_keeps [OF assms(1) t] show ?thesis
    by (cases e) (auto simp: Setup_def Let_def)
qed

text \<open>The telemetry section after \<open>Setup\<close>.\<close>

lemma EnableTracing_section:
  "EnableTracing T app (Some c) opts = (err, app', c') \<Longrightarrow>
   ocServiceName c' = (if ocServiceName c = [] then appName app else ocServiceName c)"
  by (auto simp: EnableTracing_def Let_def split: prod.splits sum.splits)

lemma Setup_section:
  assumes "Setup E A T (Some app) opts = (r, Some a, cfg)" and "soConfig opts = Some (Some c)"
  shows "\<exists>c'. cfg = Some (Some c') \<and>
    ocServiceName c' = (if ocServiceName c = [] then appName app else ocServiceName c)"
proof -
  obtain err app' c' where t: "EnableTracing T app (Some c) (soTracingOptions opts) = (err, app', c')"
    by (metis prod.exhaust)
  then have "cfg = Some (Some c')" using assms by (cases err) (auto simp: Setup_def Let_def)
  with EnableTracing_section [OF t] show ?thesis by blast
qed

subsection \<open>Properties\<close>

text \<open>
  C30. A service that was set up has all of it, and one that was not has none of it. When
  \<open>Setup\<close> succeeds, every line the application's logger writes consists of the fields the
  base logger already had and of fields the redaction policy (the default one, unless the
  options override it) allows; the innermost middleware is the correlation one; and every
  error is rendered by the error handler, under the application's name, in the mode and with
  the one hook of the options. Without an application, without a configuration, or when
  tracing fails to start, \<open>Setup\<close> returns an error and the logger is left as it was. The
  telemetry section, where there is one, is left with a service name: its own, or the
  application's.
\<close>

theorem Setup_wires:
  assumes "otel_laws T" and "Setup E A T (Some app) opts = (r, Some a, cfg)"
    and "appLog app = Sink lvl base"
    and "policy = (case soRedaction opts of None \<Rightarrow> DefaultRedactionPolicy | Some p \<Rightarrow> p)"
  shows "(r = None \<longrightarrow>
      (\<forall>l fs. \<exists>written. log_call E (appLog a) l fs = (if lvl \<le> l then [base @ written] else []) \<and>
        list_all (clean E policy) written \<and> (list_all (clean E policy) fs \<longrightarrow> (\<exists>w. written = w @ fs)))
      \<and> (\<exists>ms. appMiddleware a = ms @ [Middleware A])
      \<and> (\<exists>h. appErrorHandler a = Some h \<and> (\<forall>R now H ctx err. h R now H ctx err =
          Handler E R A now (appName app) (soPublicErrors opts)
            (case soOnFailure opts of None \<Rightarrow> [] | Some f \<Rightarrow> [Some f]) H ctx err)))
    \<and> (r \<noteq> None \<longrightarrow> appLog a = appLog app)
    \<and> (soConfig opts = None \<longrightarrow> r = Some (SetupErr ''platform: Options.Config is required'') \<and> a = app)
    \<and> (\<forall>c. soConfig opts = Some (Some c) \<longrightarrow> (\<exists>c'. cfg = Some (Some c') \<and>
        ocServiceName c' = (if ocServiceName c = [] then appName app else ocServiceName c)))"
proof (cases r)
  case None
  with assms(2) have ok: "Setup E A T (Some app) opts = (None, Some a, cfg)" by simp
  from Setup_ok [OF assms(1) ok]
  have log: "appLog a = RedactCore (Sink lvl (base @ scrub E policy (appFields app))) policy"
    and mw: "appMiddleware a \<noteq> []" "last (appMiddleware a) = Middleware A"
    and eh: "appErrorHandler a = Some (\<lambda>R now. Handler E R A now (appName app) (soPublicErrors opts)
        (case soOnFailure opts of None \<Rightarrow> [] | Some h \<Rightarrow> [Some h]))"
    by (simp_all add: EnableRedaction_def assms(3,4) Let_def)
  have "\<exists>written. log_call E (appLog a) l fs = (if lvl \<le> l then [base @ written] else []) \<and>
        list_all (clean E policy) written \<and> (list_all (clean E policy) fs \<longrightarrow> (\<exists>w. written = w @ fs))" for l fs
    by (rule exI [of _ "scrub E policy (appFields app) @ scrub E policy fs"])
       (auto simp: log_call_def log scrub_clean scrub_id)
  moreover have "\<exists>ms. appMiddleware a = ms @ [Middleware A]"
    using mw by (metis append_butlast_last_id)
  moreover have "soConfig opts \<noteq> None" using ok by (cases "soConfig opts") (simp_all add: Setup_def)
  ultimately show ?thesis using None eh Setup_section [OF assms(2)] by simp
next
  case (Some err)
  with Setup_error_installs_nothing [OF assms(1), of E A app opts err "Some a" cfg] assms(2)
  have "appLog a = appLog app" by auto
  moreover have "soConfig opts = None \<longrightarrow> r = Some (SetupErr ''platform: Options.Config is required'') \<and> a = app"
    using assms(2) by (cases "soConfig opts") (simp_all add: Setup_def)
  ultimately show ?thesis using Some Setup_section [OF assms(2)] by simp
qed

definition sample_app :: "(request, nat) app" where
  "sample_app = \<lparr>appName = ''document-svc'', appLog = Sink InfoLevel [zap_String ''service.name'' ''document-svc''],
     appFields = [zap_String ''service.name'' ''document-svc''], appTasks = [], appMiddleware = [],
     appErrorHandler = None\<rparr>"

definition sample_otel :: "(request, nat, nat, string) otel_api" where
  "sample_otel = \<lparr>otel_Use = (\<lambda>app cfg opts. (app, Inr 0)),
     app_AddTask = (\<lambda>app t. (app\<lparr>appTasks := appTasks app @ [t]\<rparr>, None))\<rparr>"

definition sample_options :: "(request, nat) setup_options" where
  "sample_options = \<lparr>soConfig = Some None, soRedaction = None, soPublicErrors = False, soTracingOptions = [],
     soOnFailure = None\<rparr>"

lemma Setup_wires_witness:
  "\<exists>a ms. Setup sample_env request_azugo sample_otel (Some sample_app) sample_options = (None, Some a, Some None) \<and>
     appMiddleware a = ms @ [Middleware request_azugo]"
proof -
  have laws: "otel_laws sample_otel" by (simp add: otel_laws_def sample_otel_def)
  obtain a where a: "Setup sample_env request_azugo sample_otel (Some sample_app) sample_options = (None, Some a, Some None)"
    by (simp add: Setup_def EnableTracing_def sample_options_def sample_otel_def Let_def)
  have "appLog sample_app = Sink InfoLevel [zap_String ''service.name'' ''document-svc'']" by (simp add: sample_app_def)
  from Setup_wires [OF laws a this refl] a show ?thesis by auto
qed

end
