(* ===== verification/Http_Client.thy ===== *)
theory Http_Client
  imports Correlation
begin

text \<open>
  \<open>httpclient/httpclient.go\<close>: the two ways an outbound call carries the request's ids on. A
  request option of the framework is known by its constructor; setting a header is a
  parameter, \<open>header_set\<close>. \<open>downstream\<close> is a chain of services: each request's inbound
  headers are the ones the previous service's client sent.

  Also \<open>observability/httpclient.go\<close>: the instrumented transport of a client of the standard
  library. A client is its transport, \<open>None\<close> for a nil one, and whatever else it holds.
\<close>

datatype request_option = WithHeader string string

definition CorrelationOptions :: "('ctx, 'a) azugo_scheme \<Rightarrow> 'ctx \<Rightarrow> request_option list" where
  "CorrelationOptions A ctx =
     (let opts = [];
          cid = ID A (Some ctx);
          opts = (if cid \<noteq> [] then opts @ [WithHeader HeaderCorrelationID cid] else opts);
          iid = RequestAppInstanceID A ctx;
          opts = (if iid \<noteq> [] then opts @ [WithHeader HeaderAppInstanceID iid] else opts)
      in if length opts = 0 then [] else opts)"

definition SetCorrelationHeaders ::
  "(string \<Rightarrow> string \<Rightarrow> 'h \<Rightarrow> 'h) \<Rightarrow> ('ctx, 'a) azugo_scheme \<Rightarrow> 'ctx \<Rightarrow> 'h \<Rightarrow> 'h" where
  "SetCorrelationHeaders header_set A ctx header =
     (let cid = ID A (Some ctx);
          header = (if cid \<noteq> [] then header_set HeaderCorrelationID cid header else header);
          iid = RequestAppInstanceID A ctx
      in if iid \<noteq> [] then header_set HeaderAppInstanceID iid header else header)"

fun apply_option :: "(string \<Rightarrow> string \<Rightarrow> 'h \<Rightarrow> 'h) \<Rightarrow> request_option \<Rightarrow> 'h \<Rightarrow> 'h" where
  "apply_option header_set (WithHeader k v) h = header_set k v h"

definition DefaultTimeout :: int where
  "DefaultTimeout = 10 * 1000000000"

definition DefaultMaxRetries :: int where
  "DefaultMaxRetries = 2"

record ('ctx, 'hc) client_api =
  HTTPClient :: "'ctx \<Rightarrow> 'hc"
  WithBaseURL :: "'hc \<Rightarrow> string \<Rightarrow> 'hc"

definition Outbound :: "('ctx, 'hc) client_api \<Rightarrow> 'ctx \<Rightarrow> string \<Rightarrow> 'hc" where
  "Outbound N ctx baseURL = WithBaseURL N (HTTPClient N ctx) baseURL"

record 'rt otelhttp_api =
  otelhttp_NewTransport :: "'rt \<Rightarrow> 'rt"
  DefaultTransport :: 'rt

record ('rt, 'x) http_client =
  hcTransport :: "'rt option"
  hcRest :: 'x

definition InstrumentedTransport :: "'rt otelhttp_api \<Rightarrow> 'rt option \<Rightarrow> 'rt" where
  "InstrumentedTransport N base =
     (let base = (case base of None \<Rightarrow> DefaultTransport N | Some b \<Rightarrow> b) in otelhttp_NewTransport N base)"

definition InstrumentHTTPClient ::
  "'rt otelhttp_api \<Rightarrow> 'x \<Rightarrow> ('rt, 'x) http_client option \<Rightarrow> ('rt, 'x) http_client" where
  "InstrumentHTTPClient N zero c =
     (let c = (case c of None \<Rightarrow> \<lparr>hcTransport = None, hcRest = zero\<rparr> | Some c \<Rightarrow> c)
      in c\<lparr>hcTransport := Some (InstrumentedTransport N (hcTransport c))\<rparr>)"

text \<open>The header a service receives: what the options of the caller set, or nothing.\<close>

definition sent_header :: "request_option list \<Rightarrow> string \<Rightarrow> string" where
  "sent_header opts k =
     string_at (fold (apply_option (\<lambda>k v h. h(k \<mapsto> v))) opts Map.empty k)"

lemma headers_differ [simp]:
  "HeaderCorrelationID \<noteq> HeaderAppInstanceID" "HeaderAppInstanceID \<noteq> HeaderCorrelationID"
  by (simp_all add: HeaderCorrelationID_def HeaderAppInstanceID_def)

lemma sent_CorrelationOptions:
  "sent_header (CorrelationOptions A c) HeaderCorrelationID = ID A (Some c)"
  "sent_header (CorrelationOptions A c) HeaderAppInstanceID = RequestAppInstanceID A c"
  by (simp_all add: sent_header_def CorrelationOptions_def Let_def string_at_def)

subsection \<open>A chain of services\<close>

text \<open>
  \<open>downstream A first c b\<close>: starting from a request \<open>c\<close> that the first service bound with the
  minted id \<open>first\<close>, some service down the chain of calls handles the bound request \<open>b\<close>.
\<close>

inductive downstream ::
  "('ctx, 'a) azugo_scheme \<Rightarrow> string \<Rightarrow> 'ctx \<Rightarrow> 'ctx \<Rightarrow> bool"
  for A :: "('ctx, 'a) azugo_scheme" and first :: string and c :: 'ctx where
  origin: "downstream A first c (Middleware A first (\<lambda>x. x) c)"
| hop: "downstream A first c b \<Longrightarrow> fresh_request A d \<Longrightarrow>
     header_get A d HeaderCorrelationID =
       sent_header (CorrelationOptions A b) HeaderCorrelationID \<Longrightarrow>
     header_get A d HeaderAppInstanceID =
       sent_header (CorrelationOptions A b) HeaderAppInstanceID \<Longrightarrow>
     downstream A first c (Middleware A minted (\<lambda>x. x) d)"

lemma Middleware_bound: "azugo_laws A \<Longrightarrow> Middleware A n (\<lambda>x. x) c = bound_context A n c"
  by (simp add: Middleware_eq bound_context_def)

lemma resolved_iid_ok: "resolved_iid A c = [] \<or> ValidID (resolved_iid A c)"
  using inbound_id_valid by (auto simp: resolved_iid_def)

lemma downstream_ids:
  assumes "azugo_laws A" and "fresh_request A c" and "ValidID (resolved_cid A first c)"
    and "downstream A first c b"
  shows "ID A (Some b) = resolved_cid A first c \<and> RequestAppInstanceID A b = resolved_iid A c"
  using assms(4)
proof (induction rule: downstream.induct)
  case origin
  show ?case
    by (simp add: Middleware_bound [OF assms(1)] ID_bound [OF assms(1)]
        AppInstance_bound [OF assms(1,2)])
next
  case (hop b d minted)
  have "resolved_cid A minted d = resolved_cid A first c"
    using hop assms(3) inbound_id_ValidID [OF assms(3)]
    by (simp add: resolved_cid_def [of A minted] sent_CorrelationOptions) auto
  moreover have "resolved_iid A d = resolved_iid A c"
    using hop resolved_iid_ok [of A c] inbound_id_ValidID [of "resolved_iid A c"]
    by (auto simp: resolved_iid_def [of A d] sent_CorrelationOptions inbound_id_def)
  ultimately show ?case
    by (simp add: Middleware_bound [OF assms(1)] ID_bound [OF assms(1)]
        AppInstance_bound [OF assms(1) hop(2)])
qed

subsection \<open>Properties\<close>

text \<open>
  The option list and the raw-header helper send the same headers: applying
  \<open>CorrelationOptions\<close> to any header object is \<open>SetCorrelationHeaders\<close> on it, and without
  ids neither touches it.
\<close>

theorem correlation_paths_agree:
  "fold (apply_option header_set) (CorrelationOptions A c) h = SetCorrelationHeaders header_set A c h
   \<and> (ID A (Some c) = [] \<and> RequestAppInstanceID A c = [] \<longrightarrow>
        SetCorrelationHeaders header_set A c h = h)"
  by (simp add: CorrelationOptions_def SetCorrelationHeaders_def Let_def)

lemma correlation_paths_agree_witness:
  "SetCorrelationHeaders (\<lambda>k v h. h @ [(k, v)]) request_azugo sample_request [] = []"
proof -
  have "ID request_azugo (Some sample_request) = []"
    "RequestAppInstanceID request_azugo sample_request = []"
    by code_simp+
  then show ?thesis
    using correlation_paths_agree [of "\<lambda>k v h. h @ [(k, v)]" request_azugo sample_request "[]"] by simp
qed

text \<open>
  C14. One incident, one id: however many services a call passes through, each binding the
  headers the one before it sent, all of them are bound to the correlation id and the app
  instance id of the first, provided the first correlation id was a valid one (an id the
  framework or the client issued).
\<close>

theorem ids_survive_hops:
  assumes "azugo_laws A" and "fresh_request A c"
    and "ValidID (ID A (Some (Middleware A first (\<lambda>x. x) c)))"
    and "downstream A first c b"
  shows "ID A (Some b) = ID A (Some (Middleware A first (\<lambda>x. x) c))
    \<and> RequestAppInstanceID A b = RequestAppInstanceID A (Middleware A first (\<lambda>x. x) c)"
proof -
  have v: "ValidID (resolved_cid A first c)"
    using assms(3) by (simp add: Middleware_bound [OF assms(1)] ID_bound [OF assms(1)])
  show ?thesis
    using downstream_ids [OF assms(1,2) v assms(4)]
      downstream_ids [OF assms(1,2) v downstream.origin] by simp
qed

definition hop_request :: request where
  "hop_request = sample_request\<lparr>rqHeaders := [(HeaderCorrelationID, ''corr-h1'')], rqID := ''02DEF''\<rparr>"

lemma ids_survive_hops_witness:
  "ID request_azugo (Some (Middleware request_azugo ''m2'' (\<lambda>x. x) hop_request)) = ''corr-h1''"
proof -
  let ?b = "Middleware request_azugo ''m1'' (\<lambda>x. x) sample_request"
  have i: "ID request_azugo (Some ?b) = ''corr-h1''" "RequestAppInstanceID request_azugo ?b = []"
    by code_simp+
  have f: "fresh_request request_azugo hop_request"
    by (simp add: fresh_request_def hop_request_def request_azugo_def sample_request_def)
  have "downstream request_azugo ''m1'' sample_request
      (Middleware request_azugo ''m2'' (\<lambda>x. x) hop_request)"
    by (rule downstream.hop [OF downstream.origin f])
       (simp_all add: sent_CorrelationOptions i, simp_all add: hop_request_def request_azugo_def assoc_def)
  moreover have "ValidID ''corr-h1''" by code_simp
  ultimately show ?thesis
    using ids_survive_hops [OF request_azugo_laws fresh_sample, of "''m1''"] i by simp
qed

end
