(* ===== verification/Incident.thy ===== *)
theory Incident
  imports Error_Handler Http_Client
begin

text \<open>
  Errors across components and services: a request that fails inside the middleware's
  binding, and an error that is relayed from service to service. Nothing here is a new
  model: the services are composed of \<open>Middleware\<close>, \<open>Handler\<close>, \<open>Relay\<close> and \<open>ParseProblem\<close>.
\<close>

text \<open>The body of the response, the last thing a handler writes.\<close>

definition sent_body :: "('ctx, 'a) azugo_scheme \<Rightarrow> 'ctx \<Rightarrow> string" where
  "sent_body A ctx = (case last (performed A ctx) of Raw b \<Rightarrow> b | _ \<Rightarrow> [])"

lemma sent_body_response:
  assumes "azugo_laws A"
  shows "sent_body A (perform_all A (response_calls E public H e q) ctx) =
    (if public then public_body (Public q) else problem_body q)"
  by (simp add: sent_body_def performed_all [OF assms] response_calls_def)

lemma Handler_sent_body:
  assumes "azugo_laws A" and "toProblem E R H e = Some (a, p)"
    and "Handler E R A now source public hooks H ctx (Some e) = Some (w, ctx', H')"
  shows "sent_body A ctx' = (if public then public_body (Public (stamped A source ctx p))
    else problem_body (stamped A source ctx p))"
  using assms(3) by (auto simp: Handler_eq [OF assms(2)] Let_def sent_body_response [OF assms(1)])

lemma stamped_wf:
  "problem_wf p \<Longrightarrow> valid_utf8 source \<Longrightarrow> valid_utf8 (traceThread A ctx) \<Longrightarrow> problem_wf (stamped A source ctx p)"
  by (simp add: stamped_def problem_wf_def)

subsection \<open>A relayed error\<close>

text \<open>
  \<open>relay_chain E A b0 b\<close>: from the body \<open>b0\<close> of a first response, the body \<open>b\<close> is what some
  service answered whose downstream call failed with a body of the chain and that returned
  the relayed problem from its handler. Each service has its own name, registry, clock,
  hooks and request.
\<close>

inductive relay_chain :: "'a error_env_scheme \<Rightarrow> ('ctx, 'b) azugo_scheme \<Rightarrow> string \<Rightarrow> string \<Rightarrow> bool"
  for E :: "'a error_env_scheme" and A :: "('ctx, 'b) azugo_scheme" and b0 :: string where
  own: "relay_chain E A b0 b0"
| hop: "relay_chain E A b0 b \<Longrightarrow> ParseProblem b = Some d \<Longrightarrow>
     valid_utf8 service \<Longrightarrow> int64 st \<Longrightarrow> st \<noteq> 0 \<Longrightarrow>
     Handler E R A now service False hooks (H(a \<mapsto> Relay E R (Some d) service st)) ctx (Some (ProblemRef a)) =
       Some (w, ctx', H') \<Longrightarrow>
     relay_chain E A b0 (sent_body A ctx')"

definition root_hop :: "problem \<Rightarrow> hop" where
  "root_hop p = hd (origin_chain p)"

text \<open>What stays of a problem along a chain of relays.\<close>

definition same_incident :: "problem \<Rightarrow> problem \<Rightarrow> bool" where
  "same_incident p d \<longleftrightarrow> problem_wf d \<and> complete d \<and> pType d = pType p \<and> pTitle d = pTitle p \<and>
     pCode d = pCode p \<and> pDetail d = pDetail p \<and> pSource d = pSource p \<and> pTraceID d = pTraceID p \<and>
     root_hop d = root_hop p \<and> length (pChain d) \<le> MaxChainHops"

lemma detail_visibility [simp]:
  "problem_wf (d\<lparr>detailPublic := x\<rparr>) = problem_wf d" "complete (d\<lparr>detailPublic := x\<rparr>) = complete d"
  "root_hop (d\<lparr>detailPublic := x\<rparr>) = root_hop d"
  by (simp_all add: problem_wf_def complete_def root_hop_def origin_chain_def)

lemma same_incident_internal: "same_incident p d \<Longrightarrow> same_incident p (d\<lparr>detailPublic := x\<rparr>)"
  by (simp add: same_incident_def)

lemma hop_wf_boundChain:
  assumes "list_all hop_wf hs" and "length hs \<le> Suc MaxChainHops"
  shows "list_all hop_wf (boundChain hs)"
proof (cases "length hs \<le> MaxChainHops")
  case True
  with assms(1) show ?thesis by (simp add: boundChain_short)
next
  case False
  with assms(2) have n: "length hs = 9" by (simp add: MaxChainHops_def)
  then have "hs ! 0 \<in> set hs" by (intro nth_mem) simp
  with assms(1) n show ?thesis
    by (auto simp: boundChain_def MaxChainHops_def Let_def elided_marker_def hop_wf_def valid_utf8_def
        int64_def list_all_iff dest: in_set_dropD)
qed

lemma problem_wf_Relay:
  assumes "problem_wf d" and "valid_utf8 service" and "int64 st" and "length (pChain d) \<le> MaxChainHops"
  shows "problem_wf (Relay E R (Some d) service st)"
proof -
  have "length (origin_chain d @ [real_hop service (pCode d) st]) \<le> Suc MaxChainHops"
    using assms(4) by (simp add: origin_chain_def MaxChainHops_def)
  moreover have "list_all hop_wf (origin_chain d @ [real_hop service (pCode d) st])"
    using assms(1-3) by (auto simp: origin_chain_def problem_wf_def real_hop_def hop_wf_def int64_def)
  ultimately show ?thesis
    using hop_wf_boundChain assms(1,3) by (simp add: Relay_Some problem_wf_def)
qed

lemma ParseProblem_complete:
  "problem_wf p \<Longrightarrow> complete p \<Longrightarrow> ParseProblem (problem_body p) = Some (p\<lparr>detailPublic := False\<rparr>)"
  by (simp add: ParseProblem_body complete_def)

text \<open>A relayed problem in the handler: nothing is filled in, and no other service is blamed.\<close>

lemma toProblem_Relay:
  assumes "complete d" and "st \<noteq> 0"
  shows "toProblem E R (H(a \<mapsto> Relay E R (Some d) service st)) (ProblemRef a) =
    Some (Some a, Relay E R (Some d) service st)"
  using assms by (simp add: toProblem_def errors_As_def normalized_id complete_def Relay_Some)

lemma stamped_Relay:
  assumes "pSource d \<noteq> []" and "pTraceID d \<noteq> []"
  shows "stamped A source ctx (Relay E R (Some d) service st) = Relay E R (Some d) service st"
  using assms by (simp add: stamped_def Relay_Some)

lemma same_incident_Relay:
  assumes "same_incident p d" and "valid_utf8 service" and "int64 st" and "st \<noteq> 0"
  shows "same_incident p (Relay E R (Some d) service st)"
proof -
  have "origin_chain (Relay E R (Some d) service st) = boundChain (origin_chain d @ [real_hop service (pCode d) st])"
    by (simp add: Relay_Some) (simp add: origin_chain_def)
  then have "root_hop (Relay E R (Some d) service st) = root_hop d"
    by (simp add: root_hop_def hd_boundChain)
  moreover have "length (pChain (Relay E R (Some d) service st)) \<le> MaxChainHops"
    by (simp add: Relay_Some length_boundChain)
  ultimately show ?thesis
    using assms problem_wf_Relay [of d service st E R]
    by (auto simp: same_incident_def complete_def Relay_Some)
qed

lemma relay_chain_body:
  assumes "azugo_laws A" and "same_incident p p" and "pSource p \<noteq> []" and "pTraceID p \<noteq> []"
    and "relay_chain E A (problem_body p) b"
  shows "\<exists>d. b = problem_body d \<and> same_incident p d"
  using assms(5)
proof (induction rule: relay_chain.induct)
  case own
  with assms(2) show ?case by blast
next
  case (hop b d service st R now hooks H a ctx w ctx' H')
  then obtain d0 where d0: "b = problem_body d0" "same_incident p d0" by blast
  with hop(2) have d: "d = d0\<lparr>detailPublic := False\<rparr>"
    using ParseProblem_complete [of d0] by (simp add: same_incident_def)
  have inc: "same_incident p d"
    using d0(2) unfolding d by (rule same_incident_internal)
  then have src: "complete d" "pSource d \<noteq> []" "pTraceID d \<noteq> []"
    using assms(3,4) by (simp_all add: same_incident_def)
  from Handler_sent_body [OF assms(1) toProblem_Relay [OF src(1) hop(5)] hop(6)]
  have "sent_body A ctx' = problem_body (Relay E R (Some d) service st)"
    by (simp add: stamped_Relay [OF src(2,3)])
  with same_incident_Relay [OF inc hop(3-5)] show ?case by blast
qed

text \<open>A service that is not the source does with its hooks what it does without.\<close>

lemma relayed_quiet:
  assumes "complete d" and "pSource d \<noteq> []" and "pTraceID d \<noteq> []" and "pSource d \<noteq> service" and "st \<noteq> 0"
  shows "Handler E R A n service public hs (G(k \<mapsto> Relay E R (Some d) service st)) c (Some (ProblemRef k)) =
    Handler E R A n service public [] (G(k \<mapsto> Relay E R (Some d) service st)) c (Some (ProblemRef k))"
proof -
  have "pSource (Relay E R (Some d) service st) \<noteq> service" using assms(4) by (simp add: Relay_Some)
  then show ?thesis
    unfolding Handler_eq [OF toProblem_Relay [OF assms(1,5)]] Let_def stamped_Relay [OF assms(2,3)] by simp
qed

subsection \<open>Properties\<close>

text \<open>
  C1. One incident, attributed once. A service answers an error of its own, and any chain of
  services relays the answer, each parsing the body it got, relaying the problem under its
  own name and status, and rendering it with hooks of its own. Then every body on the way
  still names the first service as the source, with its code, title, detail and trace id
  and its hop as the root of the breadcrumb; whichever service relays it further, in either
  mode, does with its failure hooks exactly what it does without any, unless it is the very
  service that failed; and the boundary that renders it in public mode answers the same
  code, title and trace id, with neither source nor breadcrumb.
\<close>

theorem incident_attribution:
  assumes "azugo_laws A" and "toProblem E R H e = Some (a, p)" and "complete p" and "problem_wf p"
    and "length (pChain p) \<le> MaxChainHops" and "pSource p = [] \<or> pSource p = first"
    and "first \<noteq> []" and "valid_utf8 first" and "valid_utf8 (traceThread A ctx)"
    and "pTraceID p \<noteq> [] \<or> traceThread A ctx \<noteq> []"
    and "Handler E R A now first False hooks H ctx (Some e) = Some (w, ctx', H')"
    and "relay_chain E A (sent_body A ctx') b"
  shows "\<exists>d. ParseProblem b = Some d \<and> pSource d = first \<and> pCode d = pCode p \<and> pTitle d = pTitle p
    \<and> pDetail d = pDetail p \<and> pTraceID d = (if pTraceID p = [] then traceThread A ctx else pTraceID p)
    \<and> root_hop d = root_hop (p\<lparr>pSource := first\<rparr>)
    \<and> (\<forall>R n service st public hs G k c. service \<noteq> first \<and> st \<noteq> 0 \<longrightarrow>
        Handler E R A n service public hs (G(k \<mapsto> Relay E R (Some d) service st)) c (Some (ProblemRef k)) =
        Handler E R A n service public [] (G(k \<mapsto> Relay E R (Some d) service st)) c (Some (ProblemRef k)))
    \<and> (\<forall>R n service st hs G k c w' c' G'. valid_utf8 service \<and> int64 st \<and> st \<noteq> 0 \<and>
        Handler E R A n service True hs (G(k \<mapsto> Relay E R (Some d) service st)) c (Some (ProblemRef k)) =
          Some (w', c', G') \<longrightarrow>
        (\<exists>u. ParseProblem (sent_body A c') = Some u \<and> pSource u = [] \<and> pChain u = [] \<and>
          pCode u = pCode p \<and> pTitle u = pTitle p \<and> pTraceID u = pTraceID d \<and> pStatus u = st))"
proof -
  define q where "q = stamped A first ctx p"
  have q: "pSource q = first" "pTraceID q \<noteq> []" "pCode q = pCode p" "pTitle q = pTitle p"
      "pTraceID q = (if pTraceID p = [] then traceThread A ctx else pTraceID p)" "pDetail q = pDetail p"
    using assms(6,10) by (auto simp: q_def stamped_def)
  have rq: "root_hop q = root_hop (p\<lparr>pSource := first\<rparr>)"
    using assms(6) by (auto simp: root_hop_def origin_chain_def q_def stamped_def)
  have "same_incident q q"
    using stamped_wf [OF assms(4,8,9)] assms(3,5)
    by (simp add: same_incident_def q_def stamped_complete) (simp add: stamped_def)
  moreover have "sent_body A ctx' = problem_body q"
    using Handler_sent_body [OF assms(1,2,11)] by (simp add: q_def)
  ultimately obtain d0 where d0: "b = problem_body d0" "same_incident q d0"
    using relay_chain_body [OF assms(1) _ _ q(2), of E b] q(1) assms(7,12) by auto
  define d where "d = d0\<lparr>detailPublic := False\<rparr>"
  have d: "ParseProblem b = Some d" "same_incident q d"
    using d0 ParseProblem_complete [of d0] same_incident_internal [OF d0(2)]
    by (simp_all add: d_def same_incident_def)
  then have s: "complete d" "pSource d = first" "pTraceID d \<noteq> []" "pCode d = pCode p" "pTitle d = pTitle p"
      "pTraceID d = pTraceID q" "pDetail d = pDetail p" "root_hop d = root_hop q"
    using q by (simp_all add: same_incident_def)
  then have src: "pSource d \<noteq> []" using assms(7) by simp
  have quiet: "Handler E R A n service public hs (G(k \<mapsto> Relay E R (Some d) service st)) c (Some (ProblemRef k)) =
        Handler E R A n service public [] (G(k \<mapsto> Relay E R (Some d) service st)) c (Some (ProblemRef k))"
    if "service \<noteq> first" "st \<noteq> 0" for R n service st public hs G k c
    by (rule relayed_quiet [OF s(1) src s(3) _ that(2)]) (use that(1) s(2) in simp)
  have public: "\<exists>u. ParseProblem (sent_body A c') = Some u \<and> pSource u = [] \<and> pChain u = [] \<and>
          pCode u = pCode p \<and> pTitle u = pTitle p \<and> pTraceID u = pTraceID d \<and> pStatus u = st"
    if "valid_utf8 service" "int64 st" "st \<noteq> 0"
      "Handler E R A n service True hs (G(k \<mapsto> Relay E R (Some d) service st)) c (Some (ProblemRef k)) =
          Some (w', c', G')" for R n service st hs G k c w' c' G'
  proof -
    have "problem_wf (Relay E R (Some d) service st)"
      using same_incident_Relay [OF d(2) that(1-3), of E R] by (simp add: same_incident_def)
    from ParseProblem_public_body [OF this] Handler_sent_body [OF assms(1) toProblem_Relay [OF s(1) that(3)] that(4)]
    show ?thesis
      using s(1,4,5) that(3)
      by (simp add: stamped_Relay [OF src s(3)] complete_def) (simp add: Relay_Some)
  qed
  have trace: "pTraceID d = (if pTraceID p = [] then traceThread A ctx else pTraceID p)" using s(6) q(5) by simp
  have root: "root_hop d = root_hop (p\<lparr>pSource := first\<rparr>)" using s(8) rq by simp
  show ?thesis
    by (rule exI [of _ d], intro conjI allI impI; (elim conjE)?;
        (rule d(1) s(2,4,5,7) trace root | rule quiet, assumption+ | rule public, assumption+))
qed

lemma incident_attribution_witness:
  "\<exists>ctx' H' ctx2 d. Handler sample_env sample_registry request_azugo 7 ''store'' False [Some sample_hook] relayed_heap
      first_request (Some (ProblemRef 0)) = Some (True, ctx', H') \<and>
    relay_chain sample_env request_azugo (sent_body request_azugo ctx') (sent_body request_azugo ctx2) \<and>
    ParseProblem (sent_body request_azugo ctx2) = Some d \<and> pSource d = ''store'' \<and> pTraceID d = ''corr-1''"
proof -
  have tp: "toProblem sample_env sample_registry relayed_heap (ProblemRef 0) = Some (Some 0, sample_problem)"
    by (simp add: toProblem_def errors_As_def relayed_heap_def normalized_def sample_problem_def)
  have c: "complete sample_problem" "length (pChain sample_problem) \<le> MaxChainHops"
    "pSource sample_problem = [] \<or> pSource sample_problem = ''store''" "''store'' \<noteq> ([] :: string)"
    "pTraceID sample_problem = []"
    by (simp_all add: sample_problem_def complete_def MaxChainHops_def zero_problem_def)
  have t: "traceThread request_azugo first_request = ''corr-1''" "valid_utf8 ''store''" "valid_utf8 ''corr-1''"
    "valid_utf8 ''mid''" by code_simp+
  then have t': "valid_utf8 (traceThread request_azugo first_request)"
    "pTraceID sample_problem \<noteq> [] \<or> traceThread request_azugo first_request \<noteq> []" by simp_all
  obtain ctx' H' where h: "Handler sample_env sample_registry request_azugo 7 ''store'' False [Some sample_hook]
      relayed_heap first_request (Some (ProblemRef 0)) = Some (True, ctx', H')"
    by (simp add: Handler_eq [OF tp] Let_def)
  let ?b = "sent_body request_azugo ctx'"
  note incident = incident_attribution [OF request_azugo_laws tp c(1) problem_wf_sample c(2-4) t(2) t' h]
  from incident [OF relay_chain.own] obtain d where d: "ParseProblem ?b = Some d"
      "pCode d = pCode sample_problem" "pTitle d = pTitle sample_problem"
    by - (erule exE, (erule exE)?, elim conjE, blast)
  let ?G = "Map.empty(0 \<mapsto> Relay sample_env sample_registry (Some d) ''mid'' 502)"
  have "toProblem sample_env sample_registry ?G (ProblemRef 0) =
      Some (Some 0, Relay sample_env sample_registry (Some d) ''mid'' 502)"
    using d(2,3) by (simp add: toProblem_def errors_As_def normalized_id complete_def Relay_Some sample_problem_def)
  then obtain ctx2 H2 where h2: "Handler sample_env sample_registry request_azugo 8 ''mid'' False [] ?G
      sample_request (Some (ProblemRef 0)) = Some (True, ctx2, H2)"
    by (simp add: Handler_eq Let_def)
  have "relay_chain sample_env request_azugo ?b (sent_body request_azugo ctx2)"
    by (rule relay_chain.hop [OF relay_chain.own d(1) t(4) _ _ h2]) (simp_all add: int64_def)
  note chain = this
  from incident [OF this] obtain d2 where "ParseProblem (sent_body request_azugo ctx2) = Some d2" "pSource d2 = ''store''"
      "pTraceID d2 = (if pTraceID sample_problem = [] then traceThread request_azugo first_request
        else pTraceID sample_problem)"
    by - (erule exE, (erule exE)?, elim conjE, blast)
  with chain h t(1) c(5) show ?thesis by auto
qed




end
