(* ===== verification/Log_Trail.thy ===== *)
theory Log_Trail
  imports Bootstrap Incident
begin

text \<open>
  The log line of an error, through everything a set-up service puts in its way: the
  correlation middleware adds the request's ids to the logger of the request, the error
  handler logs the error, and the redacting core decides what is written.

  \<open>ctx.Log()\<close> is the framework's: the application's logger with the fields that were added to
  the request so far, in order. \<open>request_line\<close> is what it writes for one log call.
\<close>

fun added_fields :: "call list \<Rightarrow> zfield list list" where
  "added_fields [] = []"
| "added_fields (AddLogFields fs # xs) = fs # added_fields xs"
| "added_fields (x # xs) = added_fields xs"

definition request_line ::
  "'a unicode_tables_scheme \<Rightarrow> core \<Rightarrow> call list \<Rightarrow> log_level \<Rightarrow> zfield list \<Rightarrow> zfield list list" where
  "request_line U c xs l fs = log_call U (with_all U c (added_fields xs)) l fs"

lemma added_fields_append: "added_fields (xs @ ys) = added_fields xs @ added_fields ys"
  by (induction xs rule: added_fields.induct) simp_all

subsection \<open>The kit's own fields and the default policy\<close>

definition kit_log_keys :: "string list" where
  "kit_log_keys = [LogKeyCorrelationID, LogKeyTraceID, LogKeySpanID, LogKeyAppInstanceID, ''error.code'',
     ''http.response.status_code'', ''error.source'', ''error.detail'']"

lemma kit_log_keys_pass:
  "k \<in> set kit_log_keys \<Longrightarrow> ascii k \<and> map ascii_lower k = k \<and> k \<notin> dedupeKeys DefaultRedactionPolicy \<and>
     \<not> containsAny k (DropKeys DefaultRedactionPolicy) \<and> \<not> containsAny k (MaskKeys DefaultRedactionPolicy)"
proof -
  have "list_all (\<lambda>k. ascii k \<and> map ascii_lower k = k \<and> k \<notin> dedupeKeys DefaultRedactionPolicy \<and>
     \<not> containsAny k (DropKeys DefaultRedactionPolicy) \<and> \<not> containsAny k (MaskKeys DefaultRedactionPolicy)) kit_log_keys"
    by code_simp
  then show "k \<in> set kit_log_keys \<Longrightarrow> ascii k \<and> map ascii_lower k = k \<and> k \<notin> dedupeKeys DefaultRedactionPolicy \<and>
     \<not> containsAny k (DropKeys DefaultRedactionPolicy) \<and> \<not> containsAny k (MaskKeys DefaultRedactionPolicy)"
    unfolding list_all_iff by blast
qed

lemma kit_field_clean:
  assumes "fKey f \<in> set kit_log_keys"
  shows "clean U DefaultRedactionPolicy f"
proof -
  from kit_log_keys_pass [OF assms] have "to_lower U (fKey f) = fKey f" by (simp add: to_lower_ascii)
  with kit_log_keys_pass [OF assms] show ?thesis by (simp add: clean_def containsAny_iff)
qed

text \<open>What the middleware adds to the request's logger.\<close>

definition request_fields :: "('ctx, 'a) azugo_scheme \<Rightarrow> string \<Rightarrow> 'ctx \<Rightarrow> zfield list" where
  "request_fields A minted c = [zap_String LogKeyCorrelationID (resolved_cid A minted c)] @
     (case traceIDs A c of
        Some (tid, sid) \<Rightarrow> [zap_String LogKeyTraceID tid, zap_String LogKeySpanID sid] | None \<Rightarrow> []) @
     (if resolved_iid A c \<noteq> [] then [zap_String LogKeyAppInstanceID (resolved_iid A c)] else [])"

lemma added_fields_middleware: "added_fields (middleware_calls A minted c) = [request_fields A minted c]"
  by (simp add: middleware_calls_def Let_def added_fields_append request_fields_def)

lemma fKey_zap [simp]: "fKey (zap_String k v) = k" "fKey (zap_Int k i) = k"
  by (simp_all add: zap_String_def zap_Int_def)

lemma request_fields_clean: "list_all (clean U DefaultRedactionPolicy) (request_fields A minted c)"
  by (auto simp: list_all_iff request_fields_def intro!: kit_field_clean split: option.split)
     (simp_all add: kit_log_keys_def)

definition error_fields :: "problem \<Rightarrow> zfield list" where
  "error_fields q = [zap_String ''error.code'' (pCode q), zap_Int ''http.response.status_code'' (pStatus q)] @
     (if pSource q \<noteq> [] then [zap_String ''error.source'' (pSource q)] else []) @
     (if pDetail q \<noteq> [] then [zap_String ''error.detail'' (pDetail q)] else [])"

definition error_level :: "problem \<Rightarrow> log_level" where
  "error_level q = (if 500 \<le> pStatus q then ErrorLevel else WarnLevel)"

lemma logProblem_line: "logProblem A q ctx = perform A (LogLine (error_level q) ''request error'' (error_fields q)) ctx"
  by (simp add: logProblem_def error_fields_def error_level_def Let_def)

lemma error_fields_clean: "list_all (clean U DefaultRedactionPolicy) (error_fields q)"
  by (auto simp: list_all_iff error_fields_def intro!: kit_field_clean)
     (simp_all add: kit_log_keys_def)

text \<open>The line a service with the default policy writes for an error of a bound request.\<close>

lemma error_line:
  assumes "azugo_laws A" and "added_fields (performed A c) = []" and "lvl \<le> WarnLevel"
  shows "request_line U (EnableRedaction U app_fields (Sink lvl base) None)
      (performed A (bound_context A minted c)) (error_level q) (error_fields q) =
    [base @ scrub U DefaultRedactionPolicy app_fields @ request_fields A minted c @ error_fields q]"
proof -
  have "WarnLevel \<le> error_level q" by (simp add: error_level_def less_eq_log_level_def)
  with assms(3) have "lvl \<le> error_level q" by (rule order_trans)
  then show ?thesis
    by (simp add: request_line_def performed_bound [OF assms(1)] added_fields_append assms(2) added_fields_middleware
        EnableRedaction_def Let_def with_all_redact log_call_def scrub_id [OF request_fields_clean]
        scrub_id [OF error_fields_clean])
qed

text \<open>A hook uses its context only by making calls on it.\<close>

definition appends :: "('ctx, 'a) azugo_scheme \<Rightarrow> 'ctx failure_hook \<Rightarrow> bool" where
  "appends A hook \<longleftrightarrow> (\<forall>ctx evt. \<exists>xs. performed A (fst (hook ctx evt)) = performed A ctx @ xs)"

lemma invokeFailureHook_appends:
  assumes "azugo_laws A" and "appends A hook"
  shows "\<exists>xs. performed A (invokeFailureHook A hook evt ctx) = performed A ctx @ xs"
proof -
  obtain ctx' r where h: "hook ctx evt = (ctx', r)" by fastforce
  then obtain xs where "performed A ctx' = performed A ctx @ xs"
    using assms(2) unfolding appends_def by (metis fst_conv)
  with h show ?thesis by (cases r) (auto simp: invokeFailureHook_def azugo_lawsD(1) [OF assms(1)])
qed

lemma runFailureHooks_appends:
  assumes "azugo_laws A" and "\<forall>h. Some h \<in> set hooks \<longrightarrow> appends A h"
  shows "\<exists>xs. performed A (runFailureHooks A now hooks q ctx) = performed A ctx @ xs"
proof -
  have "\<exists>xs. performed A (fold (\<lambda>hook ctx. case hook of None \<Rightarrow> ctx | Some h \<Rightarrow> invokeFailureHook A h evt ctx) hooks c)
      = performed A c @ xs" for evt c
    using assms(2)
  proof (induction hooks arbitrary: c)
    case (Cons hook hooks)
    let ?c = "case hook of None \<Rightarrow> c | Some h \<Rightarrow> invokeFailureHook A h evt c"
    have "\<exists>xs. performed A ?c = performed A c @ xs"
    proof (cases hook)
      case (Some h)
      with Cons.prems have "appends A h" by simp
      from invokeFailureHook_appends [OF assms(1) this] Some show ?thesis by simp
    qed simp
    then obtain xs where xs: "performed A ?c = performed A c @ xs" by blast
    obtain ys where "performed A (fold (\<lambda>hook ctx. case hook of None \<Rightarrow> ctx | Some h \<Rightarrow> invokeFailureHook A h evt ctx)
        hooks ?c) = performed A ?c @ ys"
      using Cons.IH [of ?c] Cons.prems by auto
    with xs show ?case by simp
  qed simp
  then show ?thesis by (auto simp: runFailureHooks_def Let_def)
qed

subsection \<open>Properties\<close>

text \<open>
  C9. A failure can always be joined to its request in the logs. In a service that was set up
  with the default redaction policy, a fresh request that goes through the middleware and ends in
  an error leaves a \<open>request error\<close> call right after the middleware's own, whatever the
  failure hook does later. What that call writes is one line, and redaction removes nothing
  the kit put there: after the application's own fields, scrubbed, the line has exactly the
  fields of the request (the bound correlation id, the trace and span id of a valid span, the
  app instance id if there is one) and those of the error (code, status, and source and detail
  if there are), each with its value. The problem logged is the one that is sent, stamped, and
  unless it was relayed with another service's trace id, the line has the very trace id of the
  response body. Every field beyond those of the base logger satisfies the policy.
\<close>

theorem error_log_joinable:
  assumes "azugo_laws A" and "otel_laws T" and "Setup E A T (Some app) opts = (None, Some a, cfg)"
    and "soRedaction opts = None" and "appLog app = Sink lvl base" and "lvl \<le> WarnLevel"
    and "toProblem E R H e = Some (a0, p)" and "\<forall>hook. soOnFailure opts = Some hook \<longrightarrow> appends A hook"
    and "added_fields (performed A c) = []" and "fresh_request A c"
  shows "\<exists>h d q l fs ks rest ctx' H' written. appErrorHandler a = Some h
    \<and> Middleware A minted next_handler c = next_handler d
    \<and> h R now H d (Some e) = Some (True, ctx', H')
    \<and> performed A ctx' = performed A d @ LogLine l ''request error'' fs # rest
    \<and> request_line E (appLog a) (performed A d) l fs = [base @ written]
    \<and> written = scrub E DefaultRedactionPolicy (appFields app) @ ks @ fs
    \<and> ks = zap_String LogKeyCorrelationID (ID A (Some d)) #
        (case traceIDs A d of None \<Rightarrow> []
         | Some (tid, sid) \<Rightarrow> [zap_String LogKeyTraceID tid, zap_String LogKeySpanID sid]) @
        (if RequestAppInstanceID A d = [] then []
         else [zap_String LogKeyAppInstanceID (RequestAppInstanceID A d)])
    \<and> fs = [zap_String ''error.code'' (pCode q), zap_Int ''http.response.status_code'' (pStatus q)] @
        (if pSource q = [] then [] else [zap_String ''error.source'' (pSource q)]) @
        (if pDetail q = [] then [] else [zap_String ''error.detail'' (pDetail q)])
    \<and> q = stamped A (appName app) d p
    \<and> l = (if 500 \<le> pStatus q then ErrorLevel else WarnLevel)
    \<and> (pTraceID p = [] \<longrightarrow> (\<exists>f \<in> set ks. fKey f \<in> {LogKeyTraceID, LogKeyCorrelationID} \<and> fVal f = FString (pTraceID q)))
    \<and> sent_body A ctx' = (if soPublicErrors opts then public_body (Public q) else problem_body q)
    \<and> list_all (clean E DefaultRedactionPolicy) written"
proof -
  let ?d = "bound_context A minted c"
  let ?q = "stamped A (appName app) ?d p"
  let ?hooks = "case soOnFailure opts of None \<Rightarrow> [] | Some h \<Rightarrow> [Some h]"
  let ?h = "\<lambda>R now. Handler E R A now (appName app) (soPublicErrors opts) ?hooks"
  let ?written = "scrub E DefaultRedactionPolicy (appFields app) @ request_fields A minted c @ error_fields ?q"
  from Setup_ok [OF assms(2,3)]
  have log: "appLog a = EnableRedaction E (appFields app) (Sink lvl base) None"
    and eh: "appErrorHandler a = Some ?h" by (simp_all add: assms(4,5))
  have next_is: "Middleware A minted next_handler c = next_handler ?d"
    by (simp add: Middleware_eq [OF assms(1)] bound_context_def)
  let ?line = "LogLine (error_level ?q) ''request error'' (error_fields ?q)"
  let ?c1 = "logProblem A ?q ?d"
  let ?c2 = "if pSource ?q = appName app then runFailureHooks A now ?hooks ?q ?c1 else ?c1"
  obtain H' where h: "?h R now H ?d (Some e) =
      Some (True, perform_all A (response_calls E (soPublicErrors opts) H' e ?q) ?c2, H')"
    by (simp add: Handler_eq [OF assms(7)] Let_def)
  let ?ctx' = "perform_all A (response_calls E (soPublicErrors opts) H' e ?q) ?c2"
  have "\<forall>hk. Some hk \<in> set ?hooks \<longrightarrow> appends A hk" using assms(8) by (auto split: option.splits)
  then obtain xs where "performed A ?c2 = performed A ?c1 @ xs"
    using runFailureHooks_appends [OF assms(1), of ?hooks now ?q ?c1] by (cases "pSource ?q = appName app") auto
  then have calls: "performed A ?ctx' = performed A ?d @ ?line # (xs @ response_calls E (soPublicErrors opts) H' e ?q)"
    by (simp add: performed_all [OF assms(1)] logProblem_line azugo_lawsD(1) [OF assms(1)])
  have line: "request_line E (appLog a) (performed A ?d) (error_level ?q) (error_fields ?q) = [base @ ?written]"
    unfolding log by (rule error_line [OF assms(1,9,6)])
  have body: "sent_body A ?ctx' = (if soPublicErrors opts then public_body (Public ?q) else problem_body ?q)"
    by (rule Handler_sent_body [OF assms(1,7) h])
  have id: "ID A (Some ?d) = resolved_cid A minted c" by (rule ID_bound [OF assms(1)])
  have same: "span_context_of A ?d = span_context_of A c"
    using bound_context_same [OF assms(1), of c minted] by (simp add: same_request_def)
  have ks: "request_fields A minted c = zap_String LogKeyCorrelationID (ID A (Some ?d)) #
        (case traceIDs A ?d of None \<Rightarrow> []
         | Some (tid, sid) \<Rightarrow> [zap_String LogKeyTraceID tid, zap_String LogKeySpanID sid]) @
        (if RequestAppInstanceID A ?d = [] then []
         else [zap_String LogKeyAppInstanceID (RequestAppInstanceID A ?d)])"
    by (simp add: request_fields_def id AppInstance_bound [OF assms(1,10)] traceIDs_def same)
  have trace: "pTraceID p = [] \<longrightarrow>
      (\<exists>f \<in> set (request_fields A minted c). fKey f \<in> {LogKeyTraceID, LogKeyCorrelationID} \<and> fVal f = FString (pTraceID ?q))"
  proof (intro impI bexI)
    let ?f = "zap_String (if scValid (span_context_of A c) \<and> scTraceID (span_context_of A c) \<noteq> []
      then LogKeyTraceID else LogKeyCorrelationID) (pTraceID ?q)"
    show "fKey ?f \<in> {LogKeyTraceID, LogKeyCorrelationID} \<and> fVal ?f = FString (pTraceID ?q)"
      by (simp add: zap_String_def)
    show "?f \<in> set (request_fields A minted c)" if "pTraceID p = []"
      using that same id
      by (simp add: stamped_def traceThread_def FromContext_def traceIDs_def Let_def request_fields_def)
  qed
  have ok: "list_all (clean E DefaultRedactionPolicy) ?written"
    by (simp add: scrub_clean request_fields_clean error_fields_clean)
  have fs: "error_fields ?q = [zap_String ''error.code'' (pCode ?q), zap_Int ''http.response.status_code'' (pStatus ?q)] @
        (if pSource ?q = [] then [] else [zap_String ''error.source'' (pSource ?q)]) @
        (if pDetail ?q = [] then [] else [zap_String ''error.detail'' (pDetail ?q)])"
    by (simp add: error_fields_def)
  show ?thesis
    by (intro exI conjI) (rule eh next_is h calls line refl ks fs error_level_def trace body ok)+
qed

text \<open>The detail and the source of the error are written too.\<close>

lemma error_log_joinable_witness:
  "\<exists>d written. Middleware request_azugo ''01NEW'' (\<lambda>c. c) sample_request = d \<and>
     {zap_String LogKeyCorrelationID (ID request_azugo (Some d)), zap_String ''error.code'' ''err:request:gone'',
      zap_String ''error.source'' ''document-svc''} \<subseteq> set written"
proof -
  obtain r a cfg where s: "Setup sample_env request_azugo sample_otel (Some sample_app) sample_options = (r, Some a, cfg)"
      "r = None"
    by (simp add: Setup_def sample_options_def EnableTracing_def sample_otel_def Let_def)
  have laws: "otel_laws sample_otel" by (simp add: otel_laws_def sample_otel_def)
  have o: "soRedaction sample_options = None" "appLog sample_app = Sink InfoLevel [zap_String ''service.name'' ''document-svc'']"
    "\<forall>hook. soOnFailure sample_options = Some hook \<longrightarrow> appends request_azugo hook"
    "added_fields (performed request_azugo sample_request) = []"
    by (simp_all add: sample_options_def sample_app_def request_azugo_def sample_request_def)
  have l: "InfoLevel \<le> WarnLevel" by (simp add: less_eq_log_level_def)
  obtain p where p: "toProblem sample_env sample_registry Map.empty (GoneError ''envelope'') = Some (None, p)"
    "pCode p = ''err:request:gone''" "pSource p = []"
    by (simp add: toProblem_def errors_As_def as_Coder_def as_StatusCode_def statusForError_def as_Validation_def
        plain_methods_def zero_problem_def Let_def genericCodeForStatus_def)
  have step: "{zap_String LogKeyCorrelationID i, zap_String ''error.code'' ''err:request:gone'',
      zap_String ''error.source'' ''document-svc''} \<subseteq> set written"
    if "written = w @ ks @ fs" "ks = zap_String LogKeyCorrelationID i # kt"
      "fs = [zap_String ''error.code'' (pCode q), st] @
        (if pSource q = [] then [] else [zap_String ''error.source'' (pSource q)]) @ det"
      "q = stamped request_azugo (appName sample_app) d p"
    for w ks fs i kt q st det d and written :: "zfield list"
  proof -
    have "pCode q = ''err:request:gone''" "pSource q = ''document-svc''"
      by (simp_all add: that(4) stamped_def p(2,3) sample_app_def)
    then show ?thesis by (simp add: that(1-3))
  qed
  show ?thesis
    using error_log_joinable [OF request_azugo_laws laws s(1) [unfolded s(2)] o(1,2) l p(1) o(3,4) fresh_sample,
        of "''01NEW''" "\<lambda>c. c" 7]
    by (elim exE conjE) (intro exI conjI, assumption, rule step, assumption+)
qed

end
