(* ===== verification/Wire_Types.thy ===== *)
theory Wire_Types
  imports Problem_Wire
begin

text \<open>
  The types of what is read from the wire: whatever the bytes of a response body are, the
  strings a JSON reader hands out are valid UTF-8 (\<open>encoding/json\<close> replaces what is not), its
  integers fit 64 bits, and so a parsed problem can be written again as it is.
\<close>

subsection \<open>Strings\<close>

lemma valid_utf8_decoded:
  assumes "decode_rune (p @ t) = (Some r, length p)" and "p \<noteq> []"
  shows "valid_utf8 (p @ t) \<longleftrightarrow> valid_utf8 t"
  using assms by (simp add: valid_utf8_def runes_unfold [of "p @ t"])

lemma valid_utf8_Cons: "byte c < 128 \<Longrightarrow> valid_utf8 (c # t) \<longleftrightarrow> valid_utf8 t"
  by (simp add: valid_utf8_def)

lemma decode_three_bytes:
  assumes "a < 16" and "b < 64" and "c < 64" and "a = 0 \<longrightarrow> 32 \<le> b" and "a = 13 \<longrightarrow> b < 32"
  shows "\<exists>x. decode_rune (char_of (224 + a :: nat) # char_of (128 + b :: nat) # char_of (128 + c :: nat) # t) = (Some x, 3)"
proof -
  have "byte (char_of (224 + a)) = 224 + a" "byte (char_of (128 + b)) = 128 + b" "byte (char_of (128 + c)) = 128 + c"
    using assms(1-3) by simp_all
  then show ?thesis
    using assms by (auto simp: decode_rune_def Let_def second_ok_def is_cont_def)
qed

lemma decode_four_bytes:
  assumes "a < 5" and "b < 64" and "c < 64" and "d < 64" and "a = 0 \<longrightarrow> 16 \<le> b" and "a = 4 \<longrightarrow> b < 16"
  shows "\<exists>x. decode_rune (char_of (240 + a :: nat) # char_of (128 + b :: nat) # char_of (128 + c :: nat) #
    char_of (128 + d :: nat) # t) = (Some x, 4)"
proof -
  have "byte (char_of (240 + a)) = 240 + a" "byte (char_of (128 + b)) = 128 + b" "byte (char_of (128 + c)) = 128 + c"
      "byte (char_of (128 + d)) = 128 + d"
    using assms(1-4) by simp_all
  then show ?thesis
    using assms by (auto simp: decode_rune_def Let_def second_ok_def is_cont_def)
qed

lemma decode_two_bytes:
  assumes "2 \<le> a" and "a < 32" and "b < 64"
  shows "\<exists>x. decode_rune (char_of (192 + a :: nat) # char_of (128 + b :: nat) # t) = (Some x, 2)"
proof -
  have "byte (char_of (192 + a)) = 192 + a" "byte (char_of (128 + b)) = 128 + b"
    using assms by simp_all
  then show ?thesis using assms by (auto simp: decode_rune_def Let_def second_ok_def is_cont_def)
qed

lemma decode_encode_rune:
  "\<exists>x. decode_rune (encode_rune r @ t) = (Some x, length (encode_rune r)) \<and> encode_rune r \<noteq> []"
proof -
  define q where "q = (if 55296 \<le> r \<and> r < 57344 \<or> 1114111 < r then rune_error else r)"
  have q: "q \<le> 1114111" "\<not> (55296 \<le> q \<and> q < 57344)" by (auto simp: q_def rune_error_def)
  have e: "encode_rune r = (if q < 128 then [char_of q]
      else if q < 2048 then [char_of (192 + q div 64), char_of (128 + q mod 64)]
      else if q < 65536 then
        [char_of (224 + q div 4096), char_of (128 + q div 64 mod 64), char_of (128 + q mod 64)]
      else [char_of (240 + q div 262144), char_of (128 + q div 4096 mod 64),
            char_of (128 + q div 64 mod 64), char_of (128 + q mod 64)])"
    unfolding encode_rune_def Let_def q_def [symmetric] by (rule refl)
  consider (a) "q < 128" | (b) "128 \<le> q" "q < 2048" | (c) "2048 \<le> q" "q < 65536" | (d) "65536 \<le> q" by linarith
  then show ?thesis
  proof cases
    case a
    then show ?thesis by (simp add: e)
  next
    case b
    then have "2 \<le> q div 64" "q div 64 < 32" "q mod 64 < 64" by linarith+
    with decode_two_bytes [OF this, of t] b show ?thesis by (simp add: e numeral_2_eq_2)
  next
    case c
    define h where "h = q div 64"
    have h: "32 \<le> h" "h < 1024" "\<not> (864 \<le> h \<and> h < 896)" using c q(2) by (auto simp: h_def)
    have "q div 4096 = h div 64" by (simp add: h_def div_mult2_eq [symmetric])
    moreover have "h div 64 < 16" "h div 64 = 0 \<longrightarrow> 32 \<le> h mod 64" "h div 64 = 13 \<longrightarrow> h mod 64 < 32"
      using h div_mult_mod_eq [of h 64] mod_less_divisor [of 64 h] by linarith+
    ultimately have "q div 4096 < 16" "q div 4096 = 0 \<longrightarrow> 32 \<le> q div 64 mod 64"
      "q div 4096 = 13 \<longrightarrow> q div 64 mod 64 < 32" by (simp_all add: h_def)
    moreover have "q div 64 mod 64 < 64" "q mod 64 < 64" by simp_all
    ultimately have "\<exists>x. decode_rune (char_of (224 + q div 4096) # char_of (128 + q div 64 mod 64) #
        char_of (128 + q mod 64) # t) = (Some x, 3)" by (intro decode_three_bytes)
    with c show ?thesis by (simp add: e numeral_3_eq_3)
  next
    case d
    define h where "h = q div 4096"
    have h: "16 \<le> h" "h < 272" using d q(1) by (auto simp: h_def)
    have "q div 262144 = h div 64" by (simp add: h_def div_mult2_eq [symmetric])
    moreover have "h div 64 < 5" "h div 64 = 0 \<longrightarrow> 16 \<le> h mod 64" "h div 64 = 4 \<longrightarrow> h mod 64 < 16"
      using h div_mult_mod_eq [of h 64] by linarith+
    ultimately have "q div 262144 < 5" "q div 262144 = 0 \<longrightarrow> 16 \<le> q div 4096 mod 64"
      "q div 262144 = 4 \<longrightarrow> q div 4096 mod 64 < 16" by (simp_all add: h_def)
    moreover have "q div 4096 mod 64 < 64" "q div 64 mod 64 < 64" "q mod 64 < 64" by simp_all
    ultimately have "\<exists>x. decode_rune (char_of (240 + q div 262144) # char_of (128 + q div 4096 mod 64) #
        char_of (128 + q div 64 mod 64) # char_of (128 + q mod 64) # t) = (Some x, 4)" by (intro decode_four_bytes)
    moreover have "(4 :: nat) = Suc (Suc (Suc (Suc 0)))" by simp
    ultimately show ?thesis using d by (simp add: e)
  qed
qed

lemma valid_utf8_encoded: "valid_utf8 (encode_rune r @ t) \<longleftrightarrow> valid_utf8 t"
proof -
  obtain x where "decode_rune (encode_rune r @ t) = (Some x, length (encode_rune r))" "encode_rune r \<noteq> []"
    using decode_encode_rune [of r t] by - (erule exE, erule conjE, rule that)
  then show ?thesis by (rule valid_utf8_decoded)
qed


lemma simple_escape_ascii: "simple_escape e = Some x \<Longrightarrow> byte x < 128"
  by (auto simp: simple_escape_def split: if_splits)

lemma u_unescape_encoded: "u_unescape s = Some (x, s') \<Longrightarrow> \<exists>r. x = encode_rune r"
  unfolding u_unescape_def
  by (auto split: option.splits if_splits list.splits) (rule exI, rule refl)+

lemma p_str_valid: "p_str s = Some (x, q) \<Longrightarrow> valid_utf8 x"
proof (induction s arbitrary: x q rule: p_str.induct)
  case (2 c cs)
  have dq: "x = []" if "c = DQ" using "2.prems" that by (simp add: p_str.simps(2))
  show ?case
  proof (cases "c = DQ")
    case True
    with dq show ?thesis by (simp add: valid_utf8_def)
  next
    case dq: False
    show ?thesis
    proof (cases "c = BS")
      case True
      with dq "2.prems" obtain e r where cs: "cs = e # r" by (auto simp: p_str.simps(2) split: list.splits)
      show ?thesis
      proof (cases "e = CHR ''u''")
        case u: True
        with "2.prems" dq True cs obtain y r' s' where "u_unescape r = Some (y, r')" "p_str r' = Some (s', q)" "x = y @ s'"
          by (auto simp: p_str.simps(2) split: option.splits)
        with "2.IH"(1) [OF dq True cs u, of "(y, r')" y r' s' q] show ?thesis
          using u_unescape_encoded valid_utf8_encoded by force
      next
        case u: False
        with "2.prems" dq True cs obtain y s' where "simple_escape e = Some y" "p_str r = Some (s', q)" "x = y # s'"
          by (auto simp: p_str.simps(2) split: option.splits)
        with "2.IH"(2) [OF dq True cs u, of y s' q] show ?thesis
          using simple_escape_ascii valid_utf8_Cons by simp
      qed
    next
      case bs: False
      with "2.prems" dq have hi: "\<not> byte c < 32" by (auto simp: p_str.simps(2) split: if_splits)
      obtain z n where d: "decode_rune (c # cs) = (z, n)" by fastforce
      show ?thesis
      proof (cases z)
        case None
        with "2.prems" dq bs hi d obtain s' where "p_str (drop (n - 1) cs) = Some (s', q)" "x = encode_rune rune_error @ s'"
          by (auto simp: p_str.simps(2))
        with "2.IH"(3) [OF dq bs hi d [symmetric] None] show ?thesis by (simp add: valid_utf8_encoded)
      next
        case (Some r)
        with "2.prems" dq bs hi d obtain s' where s': "p_str (drop (n - 1) cs) = Some (s', q)" "x = take n (c # cs) @ s'"
          by (auto simp: p_str.simps(2))
        from rune_piece_decode [OF d [unfolded Some]] have "valid_utf8 x = valid_utf8 s'"
          unfolding s'(2) by (intro valid_utf8_decoded) auto
        with "2.IH"(4) [OF dq bs hi d [symmetric] Some s'(1)] show ?thesis by simp
      qed
    qed
  qed
qed simp


subsection \<open>Values\<close>

fun json_texts :: "json \<Rightarrow> bool" where
  "json_texts (JStr s) \<longleftrightarrow> valid_utf8 s"
| "json_texts (JArr js) \<longleftrightarrow> list_all json_texts js"
| "json_texts (JObj ms) \<longleftrightarrow> list_all (\<lambda>(k, v). valid_utf8 k \<and> json_texts v) ms"
| "json_texts _ \<longleftrightarrow> True"

lemma p_value_texts:
  "p_value n d s = Some (j, r) \<Longrightarrow> json_texts j"
  "p_elems n d s = Some (js, r) \<Longrightarrow> list_all json_texts js"
  "p_members n d s = Some (ms, r) \<Longrightarrow> list_all (\<lambda>(k, v). valid_utf8 k \<and> json_texts v) ms"
proof (induction n d s and n d s and n d s arbitrary: j r and js r and ms r
    rule: p_value_p_elems_p_members.induct)
  case (2 n d s)
  then show ?case
    by (auto simp: p_word_def split: list.splits if_splits dest: p_str_valid)
next
  case (4 n d s)
  then show ?case by (auto split: list.splits if_splits option.splits)
next
  case (6 n d s)
  then show ?case
    by (auto split: list.splits if_splits option.splits) (rule p_str_valid, assumption)+
qed simp_all

lemma json_parse_texts: "json_parse s = Some j \<Longrightarrow> json_texts j"
  by (auto simp: json_parse_def split: option.splits if_splits list.splits dest: p_value_texts(1))

subsection \<open>Fields\<close>

lemma read_members_rule:
  assumes "\<And>x k v y. P x \<Longrightarrow> Q k v \<Longrightarrow> f x k v = Some y \<Longrightarrow> P y"
    and "P x" and "\<forall>(k, v) \<in> set ms. Q k v" and "read_members f x ms = Some y"
  shows "P y"
  using assms(2-4)
proof (induction ms arbitrary: x)
  case (Cons a ms)
  obtain k v where a: "a = (k, v)" by fastforce
  with Cons.prems(3) obtain z where z: "f x k v = Some z" "read_members f z ms = Some y"
    by (auto split: option.splits)
  have "P z" using assms(1) [OF Cons.prems(1) _ z(1)] Cons.prems(2) a by simp
  with Cons.IH [OF this _ z(2)] Cons.prems(2) show ?case by simp
qed simp

lemma read_members_inv:
  assumes "\<And>x k v y. P x \<Longrightarrow> json_texts v \<Longrightarrow> f x k v = Some y \<Longrightarrow> P y"
    and "P x" and "list_all (\<lambda>(k, v). valid_utf8 k \<and> json_texts v) ms" and "read_members f x ms = Some y"
  shows "P y"
  using assms by (intro read_members_rule [of P "\<lambda>k. json_texts" f x ms y]) (auto simp: list_all_iff)

lemma read_str_valid: "valid_utf8 old \<Longrightarrow> json_texts j \<Longrightarrow> read_str old j = Some s \<Longrightarrow> valid_utf8 s"
  by (cases j) auto

lemma read_int_int64: "int64 old \<Longrightarrow> read_int old j = Some i \<Longrightarrow> int64 i"
  by (cases j) (auto simp: parse_int64_def split: option.splits if_splits)

lemma valid_utf8_Nil [simp]: "valid_utf8 []"
  by (simp add: valid_utf8_def)

lemma read_hop_field_wf:
  "hop_wf h \<Longrightarrow> json_texts v \<Longrightarrow> read_hop_field h k v = Some h' \<Longrightarrow> hop_wf h'"
  by (auto simp: read_hop_field_def hop_wf_def split: if_splits dest: read_str_valid read_int_int64)

lemma read_hop_wf: "hop_wf h \<Longrightarrow> json_texts j \<Longrightarrow> read_hop h j = Some h' \<Longrightarrow> hop_wf h'"
proof (cases j)
  case (JObj ms)
  assume "hop_wf h" "json_texts j" "read_hop h j = Some h'"
  with JObj show ?thesis
    using read_members_inv [of hop_wf read_hop_field h ms h'] read_hop_field_wf by simp
qed auto

lemma zero_hop_wf [simp]: "hop_wf zero_hop"
  by (simp add: hop_wf_def zero_hop_def)

lemma read_hops_wf:
  "list_all hop_wf mem \<Longrightarrow> list_all json_texts js \<Longrightarrow> read_hops mem js = Some hs \<Longrightarrow> list_all hop_wf hs"
proof (induction js arbitrary: mem hs)
  case (Cons j js)
  have "hop_wf (case mem of [] \<Rightarrow> zero_hop | h # _ \<Rightarrow> h)" using Cons.prems(1) by (cases mem) auto
  moreover have "list_all hop_wf (tl mem)" using Cons.prems(1) by (cases mem) auto
  ultimately show ?case using Cons by (auto split: option.splits dest: read_hop_wf)
qed simp

definition state_wf :: "problem \<times> hop list \<Rightarrow> bool" where
  "state_wf s \<longleftrightarrow> problem_wf (fst s) \<and> list_all hop_wf (snd s) \<and> \<not> detailPublic (fst s)"

lemma read_chain_wf:
  assumes "state_wf s" and "json_texts v" and "read_chain s v = Some s'"
  shows "state_wf s'"
proof (cases v)
  case (JArr js)
  obtain p mem where s: "s = (p, mem)" by fastforce
  have "list_all hop_wf mem" using assms(1) s by (simp add: state_wf_def)
  then have "list_all hop_wf (drop (length js) mem)" by (auto simp: list_all_iff dest: in_set_dropD)
  moreover have "list_all hop_wf hs" if "read_hops mem js = Some hs" for hs
    using read_hops_wf [OF \<open>list_all hop_wf mem\<close> _ that] assms(2) JArr by simp
  ultimately show ?thesis using assms JArr s
    by (auto simp: state_wf_def problem_wf_def split: if_splits)
qed (use assms in \<open>cases s; auto simp: state_wf_def problem_wf_def\<close>)+

lemma read_problem_field_wf:
  assumes "state_wf s" and "json_texts v" and "read_problem_field s k v = Some s'"
  shows "state_wf s'"
proof -
  obtain p mem where s: "s = (p, mem)" by fastforce
  with assms read_chain_wf [OF assms(1,2), of s'] show ?thesis
    by (auto simp: read_problem_field_def state_wf_def problem_wf_def split: if_splits
        dest: read_str_valid read_int_int64)
qed

lemma read_problem_wf:
  assumes "json_texts j" and "read_problem j = Some p"
  shows "problem_wf p \<and> \<not> detailPublic p"
proof (cases j)
  case (JObj ms)
  have "state_wf (zero_problem, [])" by (simp add: state_wf_def problem_wf_def zero_problem_def)
  note inv = read_members_inv [of state_wf, OF read_problem_field_wf this]
  from JObj assms(2) obtain s where s: "read_members read_problem_field (zero_problem, []) ms = Some s" "p = fst s"
    by auto
  have "list_all (\<lambda>(k, v). valid_utf8 k \<and> json_texts v) ms" using assms(1) JObj by simp
  from inv [OF _ _ _ this s(1)] show ?thesis by (simp add: state_wf_def s(2))
qed (use assms in \<open>auto simp: problem_wf_def zero_problem_def\<close>)

subsection \<open>Properties\<close>

text \<open>
  C17. A parsed problem is well-typed, whatever bytes the downstream sent. If \<open>ParseProblem\<close>
  accepts a body, all strings of the problem and of every hop are valid UTF-8, all its
  integers fit 64 bits and its detail is internal; so the problem, written and parsed again,
  is the same problem, and what a service relays can always be relayed again.
\<close>

theorem ParseProblem_typed:
  assumes "ParseProblem body = Some p"
  shows "problem_wf p \<and> \<not> detailPublic p \<and> ParseProblem (problem_body p) = Some p"
proof -
  from assms obtain j where j: "json_parse body = Some j" "read_problem j = Some p"
    and c: "\<not> (pCode p = [] \<and> pTitle p = [] \<and> pStatus p = 0)"
    by (auto simp: ParseProblem_def split: if_splits option.splits)
  from read_problem_wf [OF json_parse_texts [OF j(1)] j(2)]
  have wf: "problem_wf p" "\<not> detailPublic p" by auto
  moreover have "p\<lparr>detailPublic := False\<rparr> = p" using wf(2) by (cases p) simp
  ultimately show ?thesis using ParseProblem_body [OF wf(1)] c by auto
qed

definition hostile_body :: string where
  "hostile_body = ''{'' @ [DQ] @ ''CODE'' @ [DQ] @ '':'' @ [DQ] @ ''err:'' @ [char_of (255 :: nat)] @ [DQ] @
     '','' @ [DQ] @ ''chain'' @ [DQ] @ '':[{},null]}''"

lemma ParseProblem_typed_witness:
  "\<exists>p. ParseProblem hostile_body = Some p \<and> pCode p = ''err:'' @ encode_rune rune_error \<and>
     length (pChain p) = 2 \<and> ParseProblem (problem_body p) = Some p"
proof -
  have "case ParseProblem hostile_body of None \<Rightarrow> False
    | Some p \<Rightarrow> pCode p = ''err:'' @ encode_rune rune_error \<and> length (pChain p) = 2" by code_simp
  then obtain p where p: "ParseProblem hostile_body = Some p" "pCode p = ''err:'' @ encode_rune rune_error"
    "length (pChain p) = 2" by (auto split: option.splits)
  with ParseProblem_typed [OF p(1)] show ?thesis by blast
qed

end
