(* ===== verification/Worker_Pool.thy ===== *)
theory Worker_Pool
  imports Consume
begin

text \<open>
  Several workers, of one instance or of many, dispatching at once over one shared store.
  \<open>broker/consume.go\<close> takes no lock across a dispatch: the store makes each of its two operations
  atomic, and between them the handler runs. A dispatch is therefore three atomic steps here,
  the check (\<open>dispatch_begin\<close>: everything before the handler), the handler, and the mark
  (\<open>dispatch_finish\<close>: everything after it); \<open>phases_refine_dispatch\<close> shows that the three in a row
  are \<open>Dispatch\<close>. The store is any implementation of \<open>IdempotencyStore\<close> that keeps the contract
  \<open>shared_store\<close>: it may refuse a check, fail a mark, and forget ids by itself (an expiry). The
  in-memory store of the package is the interpretation.
\<close>

definition dispatch_begin ::
  "'a unicode_tables_scheme \<Rightarrow> string \<Rightarrow> ('s, 'e) id_store option \<Rightarrow> 's \<Rightarrow> 'f metrics \<Rightarrow>
   ('e dispatch_error option \<times> 's \<times> 'f metrics) + (envelope \<times> 's)" where
  "dispatch_begin U payload store s m = (case unmarshal_envelope payload of
      None \<Rightarrow> Inl (Some (DErr ''broker: decode envelope''), s, incConsume U outcomeInvalid m)
    | Some ev \<Rightarrow> (case Validate ev of
        Some msg \<Rightarrow> Inl (Some (DErr msg), s, incConsume U outcomeInvalid m)
      | None \<Rightarrow> (case (case store of None \<Rightarrow> (s, Inr False) | Some st \<Rightarrow> Seen st s (eEventID ev)) of
          (s, Inl e) \<Rightarrow> Inl (Some (DStore ''broker: idempotency check for'' (eEventID ev) e), s,
             incConsume U outcomeError m)
        | (s, Inr True) \<Rightarrow> Inl (None, s, incConsume U outcomeDuplicate m)
        | (s, Inr False) \<Rightarrow> Inr (ev, s))))"

definition dispatch_finish ::
  "'a unicode_tables_scheme \<Rightarrow> ('s, 'e) id_store option \<Rightarrow> envelope \<Rightarrow> 'e option \<Rightarrow> 's \<Rightarrow> 'f metrics \<Rightarrow>
   'e dispatch_error option \<times> 's \<times> 'f metrics" where
  "dispatch_finish U store ev err s m = (case err of
      Some e \<Rightarrow> (Some (DHandler e), s, incConsume U outcomeError m)
    | None \<Rightarrow> (case (case store of None \<Rightarrow> (s, None) | Some st \<Rightarrow> MarkProcessed st s (eEventID ev)) of
        (s, Some e) \<Rightarrow> (Some (DStore ''broker: mark processed'' (eEventID ev) e), s, incConsume U outcomeError m)
      | (s, None) \<Rightarrow> (None, s, incConsume U OutcomeSuccess m)))"

subsection \<open>The pool\<close>

datatype 'e worker =
    Idle
  | Running string envelope
  | Handled string envelope "'e option"

text \<open>
  \<open>poRuns x\<close> counts how often the handler returned nil for the event id \<open>x\<close>, \<open>poFailed x\<close> how often
  recording the mark failed after that, and \<open>poLost x\<close> how often the store dropped \<open>x\<close>.
\<close>

record ('s, 'h, 'e) pool =
  poStore :: 's
  poSink :: 'h
  poRuns :: "string \<Rightarrow> nat"
  poFailed :: "string \<Rightarrow> nat"
  poLost :: "string \<Rightarrow> nat"
  poWorkers :: "nat \<Rightarrow> 'e worker"
  poAcked :: "string list"
  poMetrics :: "unit metrics"

definition answered :: "string \<Rightarrow> 'x option \<Rightarrow> ('s, 'h, 'e) pool \<Rightarrow> ('s, 'h, 'e) pool" where
  "answered p r d = (if r = None then d\<lparr>poAcked := p # poAcked d\<rparr> else d)"

definition stored :: "('s \<Rightarrow> string set) \<Rightarrow> 's \<Rightarrow> ('s, 'h, 'e) pool \<Rightarrow> ('s, 'h, 'e) pool" where
  "stored ids s d = d\<lparr>poStore := s,
     poLost := (\<lambda>x. if x \<in> ids (poStore d) - ids s then Suc (poLost d x) else poLost d x)\<rparr>"

definition count_up :: "bool \<Rightarrow> string \<Rightarrow> (string \<Rightarrow> nat) \<Rightarrow> string \<Rightarrow> nat" where
  "count_up b x f = (if b then f(x := Suc (f x)) else f)"

text \<open>
  \<open>P\<close> is the set of payloads on the stream, \<open>W\<close> the number of workers, \<open>forget\<close> what the store may
  do by itself. A payload may be delivered to any idle worker, at any time and any number of
  times.
\<close>

inductive pool_step ::
  "'a unicode_tables_scheme \<Rightarrow> ('s, 'e) id_store \<Rightarrow> ('s \<Rightarrow> string set) \<Rightarrow> ('s \<Rightarrow> 's \<Rightarrow> bool) \<Rightarrow>
   ('h, 'e) handler \<Rightarrow> string set \<Rightarrow> nat \<Rightarrow> ('s, 'h, 'e) pool \<Rightarrow> ('s, 'h, 'e) pool \<Rightarrow> bool"
  for U :: "'a unicode_tables_scheme" and st :: "('s, 'e) id_store" and ids :: "'s \<Rightarrow> string set"
    and forget :: "'s \<Rightarrow> 's \<Rightarrow> bool" and handle :: "('h, 'e) handler" and P :: "string set" and W :: nat where
  refused: "i < W \<Longrightarrow> p \<in> P \<Longrightarrow> poWorkers d i = Idle \<Longrightarrow>
     dispatch_begin U p (Some st) (poStore d) (poMetrics d) = Inl (r, s, m) \<Longrightarrow>
     pool_step U st ids forget handle P W d (answered p r (stored ids s d\<lparr>poMetrics := m\<rparr>))"
| begin_one: "i < W \<Longrightarrow> p \<in> P \<Longrightarrow> poWorkers d i = Idle \<Longrightarrow>
     dispatch_begin U p (Some st) (poStore d) (poMetrics d) = Inr (ev, s) \<Longrightarrow>
     pool_step U st ids forget handle P W d (stored ids s d\<lparr>poWorkers := (poWorkers d)(i := Running p ev)\<rparr>)"
| handle_one: "i < W \<Longrightarrow> poWorkers d i = Running p ev \<Longrightarrow> handle (poSink d) ev = (h, ev', r) \<Longrightarrow>
     pool_step U st ids forget handle P W d (d\<lparr>poSink := h, poWorkers := (poWorkers d)(i := Handled p ev' r),
       poRuns := count_up (r = None) (eEventID ev) (poRuns d)\<rparr>)"
| finish_one: "i < W \<Longrightarrow> poWorkers d i = Handled p ev err \<Longrightarrow>
     dispatch_finish U (Some st) ev err (poStore d) (poMetrics d) = (r, s, m) \<Longrightarrow>
     pool_step U st ids forget handle P W d (answered p r
       (stored ids s d\<lparr>poMetrics := m, poWorkers := (poWorkers d)(i := Idle),
          poFailed := count_up (err = None \<and> r \<noteq> None) (eEventID ev) (poFailed d)\<rparr>))"
| forget_one: "forget (poStore d) s \<Longrightarrow> pool_step U st ids forget handle P W d (stored ids s d)"

definition pool_start :: "'s \<Rightarrow> 'h \<Rightarrow> ('s, 'h, 'e) pool" where
  "pool_start s h = \<lparr>poStore = s, poSink = h, poRuns = (\<lambda>x. 0), poFailed = (\<lambda>x. 0), poLost = (\<lambda>x. 0),
     poWorkers = (\<lambda>i. Idle), poAcked = [], poMetrics = no_metrics\<rparr>"

definition pool_reachable ::
  "'a unicode_tables_scheme \<Rightarrow> ('s, 'e) id_store \<Rightarrow> ('s \<Rightarrow> string set) \<Rightarrow> ('s \<Rightarrow> 's \<Rightarrow> bool) \<Rightarrow>
   ('h, 'e) handler \<Rightarrow> string set \<Rightarrow> nat \<Rightarrow> 's \<Rightarrow> 'h \<Rightarrow> ('s, 'h, 'e) pool \<Rightarrow> bool" where
  "pool_reachable U st ids forget handle P W s h = (pool_step U st ids forget handle P W)\<^sup>*\<^sup>* (pool_start s h)"

lemma pool_reachable_step:
  "pool_reachable U st ids forget handle P W s h d \<Longrightarrow> pool_step U st ids forget handle P W d d' \<Longrightarrow>
   pool_reachable U st ids forget handle P W s h d'"
  unfolding pool_reachable_def by (rule rtranclp.rtrancl_into_rtrancl)

lemma answered_simps [simp]:
  "poStore (answered p r d) = poStore d" "poRuns (answered p r d) = poRuns d"
  "poFailed (answered p r d) = poFailed d" "poLost (answered p r d) = poLost d"
  "poWorkers (answered p r d) = poWorkers d"
  "poAcked (answered p r d) = (if r = None then p # poAcked d else poAcked d)"
  by (simp_all add: answered_def)

lemma stored_simps [simp]:
  "poStore (stored ids s d) = s" "poRuns (stored ids s d) = poRuns d"
  "poFailed (stored ids s d) = poFailed d" "poWorkers (stored ids s d) = poWorkers d"
  "poAcked (stored ids s d) = poAcked d" "poMetrics (stored ids s d) = poMetrics d"
  "poLost (stored ids s d) x = (if x \<in> ids (poStore d) - ids s then Suc (poLost d x) else poLost d x)"
  by (simp_all add: stored_def)

lemma count_up_simp [simp]: "count_up b x f y = (if b \<and> y = x then Suc (f y) else f y)"
  by (simp add: count_up_def)

subsection \<open>Counting workers\<close>

definition workers_in :: "nat \<Rightarrow> ('e worker \<Rightarrow> bool) \<Rightarrow> (nat \<Rightarrow> 'e worker) \<Rightarrow> nat" where
  "workers_in W Q ws = (\<Sum>i < W. if Q (ws i) then 1 else 0)"

lemma workers_in_upd:
  assumes "i < W"
  shows "workers_in W Q (ws(i := w)) + (if Q (ws i) then 1 else 0) = workers_in W Q ws + (if Q w then 1 else 0)"
proof -
  have "workers_in W Q vs = (if Q (vs i) then 1 else 0) + (\<Sum>j \<in> {..<W} - {i}. if Q (vs j) then 1 else 0)"
    for vs using assms by (simp add: workers_in_def sum.remove [of "{..<W}" i])
  from this [of ws] this [of "ws(i := w)"] show ?thesis by simp
qed

lemma workers_in_le:
  "(\<And>w. \<not> (Q w \<and> R w)) \<Longrightarrow> workers_in W Q ws + workers_in W R ws \<le> W"
proof -
  assume d: "\<And>w. \<not> (Q w \<and> R w)"
  have "(if Q (ws i) then 1 else 0) + (if R (ws i) then 1 else 0) \<le> (1 :: nat)" for i using d [of "ws i"] by auto
  then have "(\<Sum>i < W. (if Q (ws i) then 1 else 0) + (if R (ws i) then 1 else 0)) \<le> (\<Sum>i < W. 1 :: nat)"
    by (intro sum_mono) blast
  then show ?thesis by (simp add: workers_in_def sum.distrib)
qed

fun is_running :: "string \<Rightarrow> 'e worker \<Rightarrow> bool" where
  "is_running x (Running p ev) = (eEventID ev = x)"
| "is_running x _ = False"

fun to_mark :: "string \<Rightarrow> 'e worker \<Rightarrow> bool" where
  "to_mark x (Handled p ev None) = (eEventID ev = x)"
| "to_mark x _ = False"

lemma running_not_marking: "\<not> (is_running x w \<and> to_mark x w)"
  by (cases w) auto


subsection \<open>The contract of a shared store\<close>

text \<open>
  \<open>Seen\<close> says no only when the id is not held, and what the store does by itself only drops ids.
\<close>

locale shared_store = idempotency_store st ids ok
  for st :: "('s, 'e) id_store" and ids :: "'s \<Rightarrow> string set" and ok :: "'s \<Rightarrow> bool" +
  fixes forget :: "'s \<Rightarrow> 's \<Rightarrow> bool"
  assumes seen_false: "ok s \<Longrightarrow> snd (Seen st s x) = Inr False \<Longrightarrow> x \<notin> ids (fst (Seen st s x))"
    and forget_keeps: "ok s \<Longrightarrow> forget s s' \<Longrightarrow> ok s' \<and> ids s' \<subseteq> ids s"

text \<open>
  The invariant, for each id \<open>x\<close>: while the store does not hold \<open>x\<close>, every run beyond the lost and
  failed ones is a worker about to mark; while it holds \<open>x\<close>, no further dispatch can begin, so
  runs and running workers together stay within one round of the workers.
\<close>

definition worker_ok :: "(string \<Rightarrow> nat) \<Rightarrow> 'e worker \<Rightarrow> bool" where
  "worker_ok runs w = (case w of
      Idle \<Rightarrow> True
    | Running p ev \<Rightarrow> payload_id p = Some (eEventID ev)
    | Handled p ev err \<Rightarrow> payload_id p = Some (eEventID ev) \<and> (err = None \<longrightarrow> 0 < runs (eEventID ev)))"

definition runs_ok :: "nat \<Rightarrow> ('s \<Rightarrow> string set) \<Rightarrow> ('s, 'h, 'e) pool \<Rightarrow> string \<Rightarrow> bool" where
  "runs_ok W ids d x \<longleftrightarrow> (if x \<in> ids (poStore d)
     then 0 < poRuns d x \<and>
       poRuns d x + workers_in W (is_running x) (poWorkers d) \<le> W + W * poLost d x + poFailed d x
     else poRuns d x \<le> workers_in W (to_mark x) (poWorkers d) + W * poLost d x + poFailed d x)"

definition pool_ok :: "nat \<Rightarrow> ('s \<Rightarrow> string set) \<Rightarrow> ('s \<Rightarrow> bool) \<Rightarrow> ('s, 'h, 'e) pool \<Rightarrow> bool" where
  "pool_ok W ids ok d \<longleftrightarrow> ok (poStore d) \<and>
     (\<forall>i. worker_ok (poRuns d) (poWorkers d i)) \<and> (\<forall>x. runs_ok W ids d x) \<and>
     (\<forall>p \<in> set (poAcked d). \<exists>x. payload_id p = Some x \<and> 0 < poRuns d x)"

lemma pool_okD:
  assumes "pool_ok W ids ok d"
  shows "ok (poStore d)" "worker_ok (poRuns d) (poWorkers d i)" "runs_ok W ids d x"
    "p \<in> set (poAcked d) \<Longrightarrow> \<exists>x. payload_id p = Some x \<and> 0 < poRuns d x"
    "x \<in> ids (poStore d) \<Longrightarrow> 0 < poRuns d x"
  using assms by (auto simp: pool_ok_def runs_ok_def)

lemma pool_start_ok: "ok s \<Longrightarrow> ids s = {} \<Longrightarrow> pool_ok W ids ok (pool_start s h)"
  by (simp add: pool_ok_def pool_start_def runs_ok_def worker_ok_def)

lemma running_marking_le: "workers_in W (is_running x) ws + workers_in W (to_mark x) ws \<le> W"
  by (rule workers_in_le) (rule running_not_marking)

lemma runs_ok_le:
  assumes "runs_ok W ids d x"
  shows "poRuns d x \<le> W * Suc (poLost d x) + poFailed d x"
  using assms running_marking_le [of W x "poWorkers d"] by (simp add: runs_ok_def split: if_splits)

lemma pool_ok_metrics: "pool_ok W ids ok d \<Longrightarrow> pool_ok W ids ok (d\<lparr>poMetrics := m\<rparr>)"
  by (simp add: pool_ok_def runs_ok_def)

lemma pool_ok_answered:
  assumes "pool_ok W ids ok d" and "r = None \<longrightarrow> (\<exists>x. payload_id p = Some x \<and> 0 < poRuns d x)"
  shows "pool_ok W ids ok (answered p r d)"
  using assms by (auto simp: pool_ok_def runs_ok_def)

lemma stored_ok:
  assumes "pool_ok W ids ok d" and "ok s" and "ids s \<subseteq> ids (poStore d)"
  shows "pool_ok W ids ok (stored ids s d)"
proof -
  have "runs_ok W ids (stored ids s d) x" for x
    using pool_okD(3) [OF assms(1), of x] assms(3) by (auto simp: runs_ok_def split: if_splits)
  with assms(1,2) show ?thesis by (simp add: pool_ok_def)
qed

lemma worker_ok_more_runs: "worker_ok runs w \<Longrightarrow> (\<And>x. runs x \<le> runs' x) \<Longrightarrow> worker_ok runs' w"
  by (auto simp: worker_ok_def split: worker.splits dest: less_le_trans)

lemma begin_ok:
  assumes "pool_ok W ids ok d" and "i < W" and "poWorkers d i = Idle"
    and "payload_id p = Some (eEventID ev)" and "eEventID ev \<notin> ids (poStore d)"
  shows "pool_ok W ids ok (d\<lparr>poWorkers := (poWorkers d)(i := Running p ev)\<rparr>)"
proof -
  have "runs_ok W ids (d\<lparr>poWorkers := (poWorkers d)(i := Running p ev)\<rparr>) x" for x
    using pool_okD(3) [OF assms(1), of x] assms(3,5)
      workers_in_upd [OF assms(2), of "is_running x" "poWorkers d" "Running p ev"]
      workers_in_upd [OF assms(2), of "to_mark x" "poWorkers d" "Running p ev"]
    by (auto simp: runs_ok_def split: if_splits)
  moreover have "worker_ok (poRuns d) (((poWorkers d)(i := Running p ev)) j)" for j
    using pool_okD(2) [OF assms(1), of j] assms(4) by (simp add: worker_ok_def)
  ultimately show ?thesis using assms(1) by (simp add: pool_ok_def)
qed

lemma handle_ok:
  assumes "pool_ok W ids ok d" and "i < W" and "poWorkers d i = Running p ev" and "eEventID ev' = eEventID ev"
  shows "pool_ok W ids ok (d\<lparr>poSink := h, poWorkers := (poWorkers d)(i := Handled p ev' err),
    poRuns := count_up (err = None) (eEventID ev) (poRuns d)\<rparr>)" (is "pool_ok W ids ok ?d")
proof -
  have w: "payload_id p = Some (eEventID ev)" using pool_okD(2) [OF assms(1), of i] assms(3) by (simp add: worker_ok_def)
  have more: "poRuns d y \<le> poRuns ?d y" for y by simp
  have "worker_ok (poRuns ?d) (poWorkers ?d j)" for j
  proof (cases "j = i")
    case True
    with w assms(4) show ?thesis by (simp add: worker_ok_def)
  next
    case False
    have "worker_ok (poRuns ?d) (poWorkers d j)" by (rule worker_ok_more_runs [OF pool_okD(2) [OF assms(1)] more])
    with False show ?thesis by (simp del: count_up_simp)
  qed
  moreover have "runs_ok W ids ?d x" for x
    using pool_okD(3) [OF assms(1), of x] assms(3,4)
      workers_in_upd [OF assms(2), of "is_running x" "poWorkers d" "Handled p ev' err"]
      workers_in_upd [OF assms(2), of "to_mark x" "poWorkers d" "Handled p ev' err"]
    by (cases err) (auto simp: runs_ok_def split: if_splits)
  moreover have "\<exists>x. payload_id q = Some x \<and> 0 < poRuns ?d x" if "q \<in> set (poAcked d)" for q
    using pool_okD(4) [OF assms(1) that] more less_le_trans by blast
  ultimately show ?thesis using assms(1) by (simp add: pool_ok_def)
qed

lemma finish_err_ok:
  assumes "pool_ok W ids ok d" and "i < W" and "poWorkers d i = Handled p ev (Some e)"
  shows "pool_ok W ids ok (d\<lparr>poWorkers := (poWorkers d)(i := Idle)\<rparr>)"
proof -
  have "runs_ok W ids (d\<lparr>poWorkers := (poWorkers d)(i := Idle)\<rparr>) x" for x
    using pool_okD(3) [OF assms(1), of x] assms(3)
      workers_in_upd [OF assms(2), of "is_running x" "poWorkers d" Idle]
      workers_in_upd [OF assms(2), of "to_mark x" "poWorkers d" Idle]
    by (auto simp: runs_ok_def split: if_splits)
  moreover have "worker_ok (poRuns d) (((poWorkers d)(i := Idle)) j)" for j
    using pool_okD(2) [OF assms(1), of j] by (simp add: worker_ok_def)
  ultimately show ?thesis using assms(1) by (simp add: pool_ok_def)
qed

lemma finish_mark_ok:
  assumes "pool_ok W ids ok d" and "i < W" and "poWorkers d i = Handled p ev None"
    and "ok s" and "ids s \<subseteq> insert (eEventID ev) (ids (poStore d))" and "\<not> failed \<Longrightarrow> eEventID ev \<in> ids s"
  shows "pool_ok W ids ok (stored ids s d\<lparr>poWorkers := (poWorkers d)(i := Idle),
    poFailed := count_up failed (eEventID ev) (poFailed d)\<rparr>)" (is "pool_ok W ids ok ?d")
proof -
  have ran: "0 < poRuns d (eEventID ev)" using pool_okD(2) [OF assms(1), of i] assms(3) by (simp add: worker_ok_def)
  have "runs_ok W ids ?d x" for x
    using pool_okD(3) [OF assms(1), of x] assms(3,5,6) ran running_marking_le [of W x "poWorkers d"]
      workers_in_upd [OF assms(2), of "is_running x" "poWorkers d" Idle]
      workers_in_upd [OF assms(2), of "to_mark x" "poWorkers d" Idle]
    by (cases "x = eEventID ev"; cases failed) (auto simp: runs_ok_def split: if_splits)
  moreover have "worker_ok (poRuns d) (((poWorkers d)(i := Idle)) j)" for j
    using pool_okD(2) [OF assms(1), of j] by (simp add: worker_ok_def)
  ultimately show ?thesis using assms(1,4) by (simp add: pool_ok_def)
qed


context shared_store
begin

lemma dispatch_begin_run:
  assumes "ok s" and "dispatch_begin U p (Some st) s m = Inr (ev, s')"
  shows "ok s' \<and> ids s' \<subseteq> ids s \<and> payload_id p = Some (eEventID ev) \<and> eEventID ev \<notin> ids s'"
proof -
  have e: "payload_id p = Some (eEventID ev)" and q: "Seen st s (eEventID ev) = (s', Inr False)"
    using assms(2) by (auto simp: dispatch_begin_def payload_id_def split: option.splits prod.splits sum.splits bool.splits)
  with seen_keeps [OF assms(1), of "eEventID ev"] seen_false [OF assms(1), of "eEventID ev"] show ?thesis by simp
qed

lemma dispatch_begin_refuse:
  assumes "ok s" and "dispatch_begin U p (Some st) s m = Inl (r, s', m')"
  shows "ok s' \<and> ids s' \<subseteq> ids s \<and> (r = None \<longrightarrow> (\<exists>x. payload_id p = Some x \<and> x \<in> ids s))"
proof -
  have "(s' = s \<and> r \<noteq> None) \<or> (\<exists>x. payload_id p = Some x \<and> s' = fst (Seen st s x) \<and>
      (r = None \<longrightarrow> snd (Seen st s x) = Inr True))"
    using assms(2) by (auto simp: dispatch_begin_def payload_id_def split: option.splits prod.splits sum.splits bool.splits)
  then show ?thesis using assms(1) seen_keeps seen_true by blast
qed

lemma dispatch_finish_mark:
  assumes "ok s" and "dispatch_finish U (Some st) ev None s m = (r, s', m')"
  shows "ok s' \<and> ids s' \<subseteq> insert (eEventID ev) (ids s) \<and> (r = None \<longrightarrow> eEventID ev \<in> ids s')"
proof -
  have "s' = fst (MarkProcessed st s (eEventID ev)) \<and> (r = None \<longrightarrow> snd (MarkProcessed st s (eEventID ev)) = None)"
    using assms(2) by (auto simp: dispatch_finish_def split: option.splits prod.splits)
  with mark_keeps [OF assms(1)] mark_adds [OF assms(1)] show ?thesis by blast
qed

lemma pool_step_ok:
  assumes "keeps_id handle" and "pool_ok W ids ok d" and "pool_step U st ids forget handle P W d d'"
  shows "pool_ok W ids ok d'"
  using assms(3)
proof (cases rule: pool_step.cases)
  case (refused i p r s m)
  note s = dispatch_begin_refuse [OF pool_okD(1) [OF assms(2)] refused(5)]
  then have "pool_ok W ids ok (stored ids s d\<lparr>poMetrics := m\<rparr>)"
    by (intro pool_ok_metrics stored_ok [OF assms(2)]) auto
  with s pool_okD(5) [OF assms(2)] show ?thesis unfolding refused(1) by (intro pool_ok_answered) auto
next
  case (begin_one i p ev s)
  note s = dispatch_begin_run [OF pool_okD(1) [OF assms(2)] begin_one(5)]
  then have "pool_ok W ids ok (stored ids s d)" by (intro stored_ok [OF assms(2)]) auto
  from begin_ok [OF this begin_one(2), of p ev] begin_one(4) s show ?thesis unfolding begin_one(1) by simp
next
  case (handle_one i p ev h ev' r)
  show ?thesis
    unfolding handle_one(1) by (rule handle_ok [OF assms(2) handle_one(2,3) keeps_idD [OF assms(1) handle_one(4)]])
next
  case (finish_one i p ev err r s m)
  let ?d = "\<lambda>f. stored ids s d\<lparr>poWorkers := (poWorkers d)(i := Idle), poFailed := count_up f (eEventID ev) (poFailed d)\<rparr>"
  have eq: "stored ids s d\<lparr>poMetrics := m, poWorkers := (poWorkers d)(i := Idle), poFailed := F\<rparr> =
    stored ids s d\<lparr>poWorkers := (poWorkers d)(i := Idle), poFailed := F\<rparr>\<lparr>poMetrics := m\<rparr>" for F by simp
  show ?thesis
  proof (cases err)
    case (Some e)
    with finish_one(4) have "s = poStore d" "r \<noteq> None" by (auto simp: dispatch_finish_def)
    moreover from this have "?d False = d\<lparr>poWorkers := (poWorkers d)(i := Idle)\<rparr>"
      by (simp add: stored_def count_up_def)
    ultimately show ?thesis
      using finish_err_ok [OF assms(2) finish_one(2) finish_one(3) [unfolded Some]] Some
      unfolding finish_one(1) eq by (intro pool_ok_answered pool_ok_metrics) auto
  next
    case None
    note s = dispatch_finish_mark [OF pool_okD(1) [OF assms(2)] finish_one(4) [unfolded None]]
    have w: "payload_id p = Some (eEventID ev)" "0 < poRuns d (eEventID ev)"
      using pool_okD(2) [OF assms(2), of i] finish_one(3) None by (simp_all add: worker_ok_def)
    have "pool_ok W ids ok (?d (r \<noteq> None))"
      by (rule finish_mark_ok [OF assms(2) finish_one(2) finish_one(3) [unfolded None]]) (use s in auto)
    with w None show ?thesis unfolding finish_one(1) eq by (intro pool_ok_answered pool_ok_metrics) auto
  qed
next
  case (forget_one s)
  with forget_keeps [OF pool_okD(1) [OF assms(2)]] show ?thesis by (auto intro: stored_ok [OF assms(2)])
qed

lemma pool_reachable_ok:
  assumes "keeps_id handle" and "ok s" and "ids s = {}" and "pool_reachable U st ids forget handle P W s h d"
  shows "pool_ok W ids ok d"
  using assms(4) unfolding pool_reachable_def
proof (induction rule: rtranclp_induct)
  case base
  show ?case by (rule pool_start_ok) (rule assms)+
next
  case (step d d')
  then show ?case using pool_step_ok [OF assms(1)] by blast
qed

lemma bounded_runs:
  assumes "keeps_id handle" and "ok s" and "ids s = {}" and "pool_reachable U st ids forget handle P W s h d"
  shows "poRuns d x \<le> W * Suc (poLost d x) + poFailed d x \<and>
    (p \<in> set (poAcked d) \<longrightarrow> (\<exists>y. payload_id p = Some y \<and> 1 \<le> poRuns d y))"
  using runs_ok_le [OF pool_okD(3)] pool_okD(4) pool_reachable_ok [OF assms] by fastforce

end

subsection \<open>The in-memory store\<close>

text \<open>It forgets nothing by itself; what it drops, it drops while marking another id.\<close>

definition never :: "'s \<Rightarrow> 's \<Rightarrow> bool" where
  "never s s' = False"

interpretation memory_shared: shared_store memory_store msSeen mem_ok never
  by unfold_locales (auto simp: memory_store_def mem_Seen_def never_def)

text \<open>While the events are fewer than the capacity, marking evicts nothing.\<close>

lemma mark_no_evict:
  assumes "mem_ok s" and "finite X" and "insert x (msSeen s) \<subseteq> X" and "int (card X) \<le> msCapacity s"
  shows "msSeen (mem_Mark_state s x) = insert x (msSeen s) \<and> mem_ok (mem_Mark_state s x) \<and>
    msCapacity (mem_Mark_state s x) = msCapacity s"
proof (cases "x \<in> msSeen s")
  case True
  with assms(1) show ?thesis by (auto simp: mem_Mark_state_def mem_Mark_eq)
next
  case False
  have len: "length (msOrder s) = card (msSeen s)"
    using assms(1) distinct_card [of "msOrder s"] unfolding mem_ok_def by argo
  have "finite (insert x (msSeen s))" by (rule finite_subset [OF assms(3,2)])
  then have "card (insert x (msSeen s)) = Suc (card (msSeen s))" using False by simp
  moreover have "card (insert x (msSeen s)) \<le> card X" by (rule card_mono [OF assms(2,3)])
  ultimately have "int (length (msOrder s)) \<noteq> msCapacity s" using len assms(4) by linarith
  then have "mem_Mark_state s x = s\<lparr>msSeen := insert x (msSeen s), msOrder := msOrder s @ [x]\<rparr>"
    using False by (simp add: mem_Mark_state_def mem_Mark_eq [OF assms(1)])
  with mem_Mark_state_ok [OF assms(1), of x] show ?thesis by simp
qed

definition event_ids :: "string set \<Rightarrow> string set" where
  "event_ids P = {x. \<exists>p \<in> P. payload_id p = Some x}"

fun works_on :: "string set \<Rightarrow> 'e worker \<Rightarrow> bool" where
  "works_on P Idle = True"
| "works_on P (Running p ev) = (p \<in> P)"
| "works_on P (Handled p ev err) = (p \<in> P)"

definition pool_quiet :: "string set \<Rightarrow> int \<Rightarrow> (mem_store, 'h, 'e) pool \<Rightarrow> bool" where
  "pool_quiet P capacity d \<longleftrightarrow> msCapacity (poStore d) = capacity \<and> msSeen (poStore d) \<subseteq> event_ids P \<and>
     (\<forall>i. works_on P (poWorkers d i)) \<and> poLost d = (\<lambda>x. 0) \<and> poFailed d = (\<lambda>x. 0)"

lemma pool_quiet_works: "pool_quiet P capacity d \<Longrightarrow> works_on P (poWorkers d i)"
  by (simp add: pool_quiet_def)

lemma pool_quiet_answered [simp]: "pool_quiet P capacity (answered p r d) = pool_quiet P capacity d"
  by (simp add: pool_quiet_def)

lemma stored_same [simp]: "stored ids (poStore d) d = d"
  by (simp add: stored_def)

lemma memory_begin_store:
  "dispatch_begin U p (Some memory_store) s m = Inr (ev, s') \<Longrightarrow> s' = s"
  "dispatch_begin U p (Some memory_store) s m = Inl (r, s', m') \<Longrightarrow> s' = s"
  by (auto simp: dispatch_begin_def memory_store_def mem_Seen_def split: option.splits bool.splits)

lemma memory_finish:
  "dispatch_finish U (Some memory_store) ev err s m =
     (case err of Some e \<Rightarrow> (Some (DHandler e), s, incConsume U outcomeError m)
      | None \<Rightarrow> (None, mem_Mark_state s (eEventID ev), incConsume U OutcomeSuccess m))"
  by (simp add: dispatch_finish_def memory_store_def mem_MarkProcessed_def split: option.split)

lemma count_up_False [simp]: "count_up False x f = f"
  by (simp add: count_up_def)

lemma pool_step_quiet:
  assumes "finite (event_ids P)" and "int (card (event_ids P)) \<le> capacity"
    and "pool_ok W msSeen mem_ok d" and "pool_quiet P capacity d"
    and "pool_step U memory_store msSeen never handle P W d d'"
  shows "pool_quiet P capacity d'"
  using assms(5)
proof (cases rule: pool_step.cases)
  case (refused i p r s m)
  with assms(4) show ?thesis by (simp add: memory_begin_store(2) [OF refused(5)] pool_quiet_def)
next
  case (begin_one i p ev s)
  with assms(4) show ?thesis by (simp add: memory_begin_store(1) [OF begin_one(5)] pool_quiet_def)
next
  case (handle_one i p ev h ev' r)
  have "p \<in> P" using pool_quiet_works [OF assms(4), of i] handle_one(3) by simp
  with assms(4) show ?thesis unfolding handle_one(1) by (simp add: pool_quiet_def)
next
  case (finish_one i p ev err r s m)
  have p: "p \<in> P" using pool_quiet_works [OF assms(4), of i] finish_one(3) by simp
  show ?thesis
  proof (cases err)
    case (Some e)
    with finish_one(4) have "s = poStore d" "r = Some (DHandler e)" by (simp_all add: memory_finish)
    with assms(4) Some show ?thesis unfolding finish_one(1) by (simp add: pool_quiet_def)
  next
    case None
    then have s: "s = mem_Mark_state (poStore d) (eEventID ev)" and r: "r = None"
      using finish_one(4) by (simp_all add: memory_finish)
    have "payload_id p = Some (eEventID ev)"
      using pool_okD(2) [OF assms(3), of i] finish_one(3) by (simp add: worker_ok_def)
    with p have "eEventID ev \<in> event_ids P" by (auto simp: event_ids_def)
    with assms(4) have sub: "insert (eEventID ev) (msSeen (poStore d)) \<subseteq> event_ids P" by (simp add: pool_quiet_def)
    have cap: "int (card (event_ids P)) \<le> msCapacity (poStore d)" using assms(2,4) by (simp add: pool_quiet_def)
    from mark_no_evict [OF pool_okD(1) [OF assms(3)] assms(1) sub cap] sub assms(4) r
    show ?thesis unfolding finish_one(1) s by (auto simp: pool_quiet_def stored_def)
  qed
next
  case (forget_one s)
  then show ?thesis by (simp add: never_def)
qed

lemma pool_reachable_quiet:
  assumes "keeps_id handle" and "finite (event_ids P)" and "int (card (event_ids P)) \<le> capacity" and "0 < capacity"
    and "pool_reachable U memory_store msSeen never handle P W (NewMemoryIdempotencyStoreWithCapacity capacity) h d"
  shows "pool_quiet P capacity d"
  using assms(5) unfolding pool_reachable_def
proof (induction rule: rtranclp_induct)
  case base
  then show ?case using assms(4)
    by (simp add: pool_quiet_def pool_start_def NewMemoryIdempotencyStoreWithCapacity_def)
next
  case (step d d')
  have "pool_ok W msSeen mem_ok d"
    by (rule memory_shared.pool_reachable_ok [OF assms(1) mem_ok_new])
       (use step(1) in \<open>simp_all add: pool_reachable_def NewMemoryIdempotencyStoreWithCapacity_def\<close>)
  from pool_step_quiet [OF assms(2,3) this step(3,2)] show ?case .
qed

subsection \<open>Properties\<close>

text \<open>
  C5. How often an event is handled when dispatches interleave. With \<open>W\<close> workers sharing an
  in-memory store that is large enough for the events on the stream, the handler returns nil
  for one event at most \<open>W\<close> times, however often its payload is redelivered and however the
  workers' steps interleave: exactly the dispatches that were under way before the first
  mark. With a single worker that is at most once, and every acknowledged payload was
  handled at least once.
\<close>

theorem handled_at_most_once_per_worker:
  assumes "keeps_id handle" and "finite (event_ids P)" and "int (card (event_ids P)) \<le> capacity" and "0 < capacity"
    and "pool_reachable U memory_store msSeen never handle P W (NewMemoryIdempotencyStoreWithCapacity capacity) h d"
  shows "poRuns d x \<le> W \<and>
    (p \<in> set (poAcked d) \<longrightarrow> (\<exists>y. payload_id p = Some y \<and> 1 \<le> poRuns d y \<and> (W = 1 \<longrightarrow> poRuns d y = 1)))"
proof -
  have new: "msSeen (NewMemoryIdempotencyStoreWithCapacity capacity) = {}"
    by (simp add: NewMemoryIdempotencyStoreWithCapacity_def)
  have "poLost d = (\<lambda>x. 0)" "poFailed d = (\<lambda>x. 0)"
    using pool_reachable_quiet [OF assms] by (simp_all add: pool_quiet_def)
  with memory_shared.bounded_runs [OF assms(1) mem_ok_new new assms(5)]
  have "poRuns d y \<le> W" and "p \<in> set (poAcked d) \<longrightarrow> (\<exists>y. payload_id p = Some y \<and> 1 \<le> poRuns d y)" for y by auto
  then show ?thesis by (metis le_antisym)
qed

text \<open>Two workers do handle one event twice: both check before either marks.\<close>

definition sample_event :: envelope where
  "sample_event = sample_envelope\<lparr>eEventID := ''01E'', eAttributes := sort_key fst (eAttributes sample_envelope)\<rparr>"

lemma sample_event_ids: "event_ids {sample_payload} = {''01E''}"
  by (auto simp: event_ids_def payload_id_def sample_payload_event)

lemma begin_sample:
  "snd (Seen st s ''01E'') = Inr False \<Longrightarrow> fst (Seen st s ''01E'') = s \<Longrightarrow>
   dispatch_begin U sample_payload (Some st) s m = Inr (sample_event, s)"
  by (cases "Seen st s ''01E''") (simp add: dispatch_begin_def sample_payload_event sample_event_def)

lemma sample_event_id [simp]: "eEventID sample_event = ''01E''"
  by (simp add: sample_event_def)

lemma handled_at_most_once_per_worker_witness:
  "\<exists>d. pool_reachable sample_tables memory_store msSeen never ok_handler {sample_payload} 2
       (NewMemoryIdempotencyStoreWithCapacity 4) 0 d \<and> poRuns d ''01E'' = 2 \<and>
     (\<forall>d'. pool_reachable sample_tables memory_store msSeen never ok_handler {sample_payload} 1
       (NewMemoryIdempotencyStoreWithCapacity 4) 0 d' \<longrightarrow> poRuns d' ''01E'' \<le> 1)"
proof -
  let ?st = "memory_store :: (mem_store, string) id_store" and ?s = "NewMemoryIdempotencyStoreWithCapacity 4"
  let ?reach = "pool_reachable sample_tables ?st msSeen never ok_handler {sample_payload} 2 ?s 0"
  let ?e = "sample_event" and ?p = "sample_payload"
  define d0 where "d0 = (pool_start ?s 0 :: (mem_store, nat, string) pool)"
  define d1 where "d1 = stored msSeen ?s d0\<lparr>poWorkers := (poWorkers d0)(0 := Running ?p ?e)\<rparr>"
  define d2 where "d2 = stored msSeen ?s d1\<lparr>poWorkers := (poWorkers d1)(1 := Running ?p ?e)\<rparr>"
  define d3 where "d3 = d2\<lparr>poSink := 1, poWorkers := (poWorkers d2)(0 := Handled ?p ?e (None :: string option)),
      poRuns := count_up ((None :: string option) = None) (eEventID ?e) (poRuns d2)\<rparr>"
  define d4 where "d4 = d3\<lparr>poSink := 2, poWorkers := (poWorkers d3)(1 := Handled ?p ?e (None :: string option)),
      poRuns := count_up ((None :: string option) = None) (eEventID ?e) (poRuns d3)\<rparr>"
  note defs = d0_def d1_def d2_def d3_def d4_def pool_start_def
  have new: "Seen ?st ?s ''01E'' = (?s, Inr False)"
    by (simp add: memory_store_def mem_Seen_def NewMemoryIdempotencyStoreWithCapacity_def)
  have "?reach d0" by (simp add: pool_reachable_def d0_def)
  then have "?reach d1" by (rule pool_reachable_step)
      (unfold d1_def, rule pool_step.begin_one, simp_all add: d0_def pool_start_def begin_sample new)
  then have "?reach d2" by (rule pool_reachable_step)
      (unfold d2_def, rule pool_step.begin_one, simp_all add: d1_def d0_def pool_start_def begin_sample new)
  then have "?reach d3" by (rule pool_reachable_step)
      (unfold d3_def, rule pool_step.handle_one, simp_all add: d2_def d1_def d0_def stored_def pool_start_def ok_handler_def)
  then have "?reach d4" by (rule pool_reachable_step)
      (unfold d4_def, rule pool_step.handle_one, simp_all add: d3_def d2_def d1_def d0_def stored_def pool_start_def ok_handler_def)
  moreover have "poRuns d4 ''01E'' = 2" by (simp add: defs stored_def)
  moreover have "poRuns d' ''01E'' \<le> 1"
    if "pool_reachable sample_tables ?st msSeen never ok_handler {sample_payload} 1 ?s 0 d'" for d'
  proof -
    have k: "keeps_id ok_handler" by (simp add: keeps_id_def ok_handler_def)
    have "finite (event_ids {sample_payload})" "int (card (event_ids {sample_payload})) \<le> 4" "(0 :: int) < 4"
      by (simp_all add: sample_event_ids)
    from handled_at_most_once_per_worker [OF k this that, of "''01E''" sample_payload] show ?thesis by simp
  qed
  ultimately show ?thesis by blast
qed

text \<open>
  C6. What a shared store buys a consumer of many replicas. Let \<open>W\<close> workers, of any number of
  instances, share any store that keeps the contract, which may fail and may forget. For each
  event the handler returns nil at most \<open>W\<close> times per time the store dropped the id (and once
  more), plus once for each mark that could not be recorded; and every acknowledged payload
  was handled at least once, whatever the store did.
\<close>

theorem shared_store_bound:
  assumes "shared_store st ids ok forget" and "keeps_id handle" and "ok s" and "ids s = {}"
    and "pool_reachable U st ids forget handle P W s h d"
  shows "poRuns d x \<le> W * Suc (poLost d x) + poFailed d x \<and>
    (p \<in> set (poAcked d) \<longrightarrow> (\<exists>y. payload_id p = Some y \<and> 1 \<le> poRuns d y))"
  by (rule shared_store.bounded_runs [OF assms])

text \<open>
  A store whose first marks fail and that may expire ids: one worker handles one event three
  times, after a failed mark and after an expiry, and the bound is reached.
\<close>

definition expiring_store :: "(string set \<times> nat, string) id_store" where
  "expiring_store = \<lparr>Seen = (\<lambda>s x. (s, Inr (x \<in> fst s))),
     MarkProcessed = (\<lambda>(held, fails) x.
       if 0 < fails then ((held, fails - 1), Some ''timeout'') else ((insert x held, 0), None))\<rparr>"

definition expires :: "string set \<times> nat \<Rightarrow> string set \<times> nat \<Rightarrow> bool" where
  "expires s s' = (fst s' = {} \<and> snd s' = snd s)"

lemma expiring_shared: "shared_store expiring_store fst (\<lambda>s. True) expires"
  by unfold_locales (auto simp: expiring_store_def expires_def split: if_splits)

abbreviation expiring_reach :: "(string set \<times> nat, nat, string) pool \<Rightarrow> bool" where
  "expiring_reach \<equiv> pool_reachable sample_tables expiring_store fst expires ok_handler {sample_payload} 1 ({}, 1) 0"

lemma expiring_round:
  assumes "expiring_reach d" and "poWorkers d = (\<lambda>i. Idle)" and "poStore d = ({}, n)"
  shows "\<exists>d'. expiring_reach d' \<and> poWorkers d' = (\<lambda>i. Idle) \<and>
    poStore d' = (if 0 < n then ({}, n - 1) else ({''01E''}, 0)) \<and>
    poRuns d' ''01E'' = Suc (poRuns d ''01E'') \<and>
    poFailed d' ''01E'' = (if 0 < n then 1 else 0) + poFailed d ''01E'' \<and> poLost d' ''01E'' = poLost d ''01E''"
proof -
  let ?e = "sample_event" and ?p = "sample_payload"
  define d1 where "d1 = stored fst (poStore d) d\<lparr>poWorkers := (poWorkers d)(0 := Running ?p ?e)\<rparr>"
  define d2 where "d2 = d1\<lparr>poSink := Suc (poSink d1), poWorkers := (poWorkers d1)(0 := Handled ?p ?e (None :: string option)),
      poRuns := count_up ((None :: string option) = None) (eEventID ?e) (poRuns d1)\<rparr>"
  obtain r s m where f: "dispatch_finish sample_tables (Some expiring_store) ?e None (poStore d2) (poMetrics d2) = (r, s, m)"
    by (metis prod.exhaust)
  have "poStore d2 = ({}, n)" by (simp add: d2_def d1_def assms(3))
  with f have rs: "s = (if 0 < n then ({}, n - 1) else ({''01E''}, 0)) \<and> (r = None \<longleftrightarrow> n = 0)"
    by (auto simp: dispatch_finish_def expiring_store_def split: if_splits)
  define d3 where "d3 = answered ?p r (stored fst s d2\<lparr>poMetrics := m, poWorkers := (poWorkers d2)(0 := Idle),
      poFailed := count_up ((None :: string option) = None \<and> r \<noteq> None) (eEventID ?e) (poFailed d2)\<rparr>)"
  have new: "Seen expiring_store ({}, n) ''01E'' = (({}, n), Inr False)" by (simp add: expiring_store_def)
  from assms(1) have "expiring_reach d1" by (rule pool_reachable_step)
      (unfold d1_def, rule pool_step.begin_one, simp_all add: assms(2,3) begin_sample new)
  then have "expiring_reach d2" by (rule pool_reachable_step)
      (unfold d2_def, rule pool_step.handle_one, simp_all add: d1_def ok_handler_def)
  then have "expiring_reach d3" by (rule pool_reachable_step)
      (unfold d3_def, rule pool_step.finish_one, simp_all add: f [simplified], simp add: d2_def)
  moreover have "poWorkers d3 = (\<lambda>i. Idle)" by (auto simp: d3_def d2_def d1_def assms(2))
  ultimately show ?thesis using rs
    by (intro exI [of _ d3]) (auto simp: d3_def d2_def d1_def assms(3))
qed

lemma shared_store_bound_witness:
  "\<exists>d. expiring_reach d \<and> poRuns d ''01E'' = 3 \<and> poFailed d ''01E'' = 1 \<and> poLost d ''01E'' = 1 \<and>
     poRuns d ''01E'' \<le> 1 * Suc (poLost d ''01E'') + poFailed d ''01E''"
proof -
  let ?d0 = "pool_start ({}, 1) 0 :: (string set \<times> nat, nat, string) pool"
  have "expiring_reach ?d0" by (simp add: pool_reachable_def)
  from expiring_round [OF this, of 1] obtain d1 where d1: "expiring_reach d1" "poWorkers d1 = (\<lambda>i. Idle)"
    "poStore d1 = ({}, 0)" "poRuns d1 ''01E'' = 1" "poFailed d1 ''01E'' = 1" "poLost d1 ''01E'' = 0"
    by (auto simp: pool_start_def)
  from expiring_round [OF d1(1-3)] d1(4-6) obtain d2 where d2: "expiring_reach d2" "poWorkers d2 = (\<lambda>i. Idle)"
    "poStore d2 = ({''01E''}, 0)" "poRuns d2 ''01E'' = 2" "poFailed d2 ''01E'' = 1" "poLost d2 ''01E'' = 0" by auto
  have "expiring_reach (stored fst ({}, 0) d2)"
    by (rule pool_reachable_step [OF d2(1)], rule pool_step.forget_one) (simp add: expires_def d2(3))
  from expiring_round [OF this, of 0] d2 obtain d3 where d3: "expiring_reach d3" "poRuns d3 ''01E'' = 3"
    "poFailed d3 ''01E'' = 1" "poLost d3 ''01E'' = 1" by (auto simp: stored_def)
  have k: "keeps_id ok_handler" by (simp add: keeps_id_def ok_handler_def)
  from shared_store_bound [OF expiring_shared k _ _ d3(1), of "''01E''"] d3 show ?thesis by auto
qed

text \<open>
  The three atomic steps refine the dispatch: with no other worker in between, checking,
  handling and marking give exactly the result, store, handler state and metrics of
  \<open>Dispatch\<close>, for any store and on every branch.
\<close>

theorem phases_refine_dispatch:
  "Dispatch U payload store (Some handle) s h m = (case dispatch_begin U payload store s m of
      Inl (r, s, m) \<Rightarrow> (r, s, h, m)
    | Inr (ev, s) \<Rightarrow> (case handle h ev of (h, ev, err) \<Rightarrow>
        (case dispatch_finish U store ev err s m of (r, s, m) \<Rightarrow> (r, s, h, m))))"
proof (cases "unmarshal_envelope payload")
  case None
  then show ?thesis by (simp add: Dispatch_def dispatch_begin_def)
next
  case (Some ev)
  obtain s1 q where q: "(case store of None \<Rightarrow> (s, Inr False) | Some st \<Rightarrow> Seen st s (eEventID ev)) = (s1, q)"
    by fastforce
  obtain h1 ev1 err where handle: "handle h ev = (h1, ev1, err)" by (metis prod.exhaust)
  obtain s2 e2 where mk: "(case store of None \<Rightarrow> (s1, None) | Some st \<Rightarrow> MarkProcessed st s1 (eEventID ev1)) = (s2, e2)"
    by fastforce
  have "q = Inr True \<or> q = Inr False \<or> (\<exists>e. q = Inl e)" by (cases q) auto
  then show ?thesis
    using Some q handle mk
    by (cases "Validate ev"; cases err; cases e2)
       (elim disjE exE; simp add: Dispatch_def dispatch_begin_def dispatch_finish_def)+
qed

end
