(* ===== verification/Event_Types.thy ===== *)
theory Event_Types
  imports Wire_Types Worker_Pool
begin

text \<open>
  The types of what a consumer reads from the broker: whatever the bytes of a payload are, an
  envelope that is decoded from them is well-typed, and so is every envelope a handler is
  ever called with.
\<close>

subsection \<open>Times\<close>

lemma digits_value_bound: "list_all is_digit s \<Longrightarrow> digits_value s < 10 ^ length s"
proof (induction s rule: rev_induct)
  case (snoc c s)
  then have "digits_value s < 10 ^ length s" "byte c - 48 < 10" by (auto simp: is_digit_def)
  then have "digits_value s * 10 + (byte c - 48) < 10 ^ length s * 10" by linarith
  then show ?case by (simp add: digits_value_snoc mult.commute)
qed (simp add: digits_value_def)

lemma num_bound: "num n s = Some (x, r) \<Longrightarrow> x < 10 ^ n"
  using digits_value_bound [of "take n s"] by (auto simp: num_def split: if_splits)

lemma read_zone_bound:
  assumes "read_zone s = Some off"
  shows "\<bar>off\<bar> \<le> 90000 \<and> off mod 60 = 0"
proof (cases s)
  case (Cons c r)
  have "\<bar>off\<bar> \<le> 90000 \<and> off mod 60 = 0"
    if "h \<le> 24" "m \<le> 60" "off = (if b then -1 else 1) * int (h * 3600 + m * 60)" for b and h m :: nat
  proof -
    define z where "z = (if b then -1 else 1) * int (h * 60 + m)"
    have "off = 60 * z" using that(3) by (simp add: z_def)
    moreover have "\<bar>z\<bar> \<le> 1500" using that(1,2) by (simp add: z_def)
    ultimately show ?thesis by simp
  qed
  with assms Cons show ?thesis by (auto simp: read_zone_def split: if_splits bind_splits)
qed (use assms in \<open>simp add: read_zone_def\<close>)

text \<open>A time that was read: \<open>time_wf\<close>, except that the zone may be a day and more.\<close>

definition time_typed :: "gotime \<Rightarrow> bool" where
  "time_typed t \<longleftrightarrow> time_ok t \<and> 0 \<le> tYear t \<and> tYear t \<le> 9999 \<and> \<bar>tOff t\<bar> \<le> 90000 \<and> tOff t mod 60 = 0"

lemma read_time_typed: "read_time s = Some t \<Longrightarrow> time_typed t"
  by (auto simp: read_time_def Let_def time_typed_def split: bind_splits if_splits
      dest!: num_bound [of 4] read_zone_bound)

lemma time_typed_zero: "time_typed zero_time"
  by (simp add: time_typed_def time_ok_def zero_time_def days_in_def)

lemma time_text_typed: "time_typed t \<Longrightarrow> time_text t = None \<longleftrightarrow> 86400 \<le> \<bar>tOff t\<bar>"
  by (auto simp: time_typed_def time_text_def)

subsection \<open>Envelopes\<close>

fun any_typed :: "goany \<Rightarrow> bool" where
  "any_typed (AnyJson j) \<longleftrightarrow> json_texts j \<and> any_ok j \<and> decode_json j = j"
| "any_typed (AnyOpaque _) \<longleftrightarrow> False"

lemma decode_json_typed:
  "json_texts j \<Longrightarrow> json_texts (decode_json j)" "any_ok j \<Longrightarrow> any_ok (decode_json j)"
proof (induction j rule: decode_json.induct)
  case (3 ms)
  let ?xs = "map (\<lambda>(k, v). (k, decode_json v)) ms"
  have sub: "set (sort_key fst (collapse ?xs)) \<subseteq> set ?xs" using collapse_facts [of ?xs] by simp
  { case 1
    then have "\<forall>(k, v) \<in> set ?xs. valid_utf8 k \<and> json_texts v" using 3(1) by (fastforce simp: list_all_iff)
    with sub show ?case by (auto simp: list_all_iff)
  next
    case 2
    then have "\<forall>(k, v) \<in> set ?xs. any_ok v" using 3(2) by (fastforce simp: list_all_iff)
    with sub show ?case by (auto simp: list_all_iff)
  }
qed (auto simp: list_all_iff)

lemma any_typed_decode: "json_texts j \<Longrightarrow> any_ok j \<Longrightarrow> any_typed (AnyJson (decode_json j))"
  by (simp add: decode_json_typed decode_json_idem)

definition attrs_typed :: "(string \<times> goany) list \<Rightarrow> bool" where
  "attrs_typed m \<longleftrightarrow> distinct (keys_of m) \<and> list_all (\<lambda>(k, v). valid_utf8 k \<and> any_typed v) m"

definition actor_typed :: "actor \<Rightarrow> bool" where
  "actor_typed a \<longleftrightarrow> valid_utf8 (aID a) \<and> valid_utf8 (aType a) \<and> valid_utf8 (aAssurance a)"

definition resource_typed :: "event_resource \<Rightarrow> bool" where
  "resource_typed r \<longleftrightarrow> valid_utf8 (rsType r) \<and> valid_utf8 (rsID r)"

definition envelope_typed :: "envelope \<Rightarrow> bool" where
  "envelope_typed ev \<longleftrightarrow> time_typed (eOccurredAt ev) \<and> attrs_typed (eAttributes ev) \<and>
     valid_utf8 (eEventID ev) \<and> valid_utf8 (eCorrelationID ev) \<and> valid_utf8 (eTraceID ev) \<and>
     valid_utf8 (eEventType ev) \<and> valid_utf8 (eOperation ev) \<and> valid_utf8 (eLawfulBasis ev) \<and>
     valid_utf8 (ePurpose ev) \<and> valid_utf8 (eOutcome ev) \<and> valid_utf8 (eIP ev) \<and> valid_utf8 (eDevice ev) \<and>
     valid_utf8 (ePrevHash ev) \<and> valid_utf8 (eHash ev) \<and>
     list_all valid_utf8 (elems (eCategories ev)) \<and> list_all valid_utf8 (eDataSubjects ev) \<and>
     pred_option actor_typed (eActor ev) \<and> pred_option resource_typed (eResource ev)"

definition env_state_typed :: "env_state \<Rightarrow> bool" where
  "env_state_typed s \<longleftrightarrow> envelope_typed (esEnv s) \<and> list_all valid_utf8 (esCat s) \<and> list_all valid_utf8 (esSub s)"

lemma zero_envelope_typed: "envelope_typed zero_envelope"
  by (simp add: envelope_typed_def zero_envelope_def time_typed_zero attrs_typed_def keys_of_def)

lemma read_actor_field_typed:
  "actor_typed a \<Longrightarrow> json_texts v \<Longrightarrow> read_actor_field a k v = Some b \<Longrightarrow> actor_typed b"
  by (auto simp: read_actor_field_def actor_typed_def split: if_splits dest: read_str_valid)

lemma read_resource_field_typed:
  "resource_typed r \<Longrightarrow> json_texts v \<Longrightarrow> read_resource_field r k v = Some q \<Longrightarrow> resource_typed q"
  by (auto simp: read_resource_field_def resource_typed_def split: if_splits dest: read_str_valid)

lemma read_pointer_typed:
  assumes "\<And>x k v y. P x \<Longrightarrow> json_texts v \<Longrightarrow> f x k v = Some y \<Longrightarrow> P y" and "P z"
    and "pred_option P old" and "json_texts j" and "read_pointer f z old j = Some new"
  shows "pred_option P new"
proof (cases j)
  case (JObj ms)
  let ?x = "case old of None \<Rightarrow> z | Some x \<Rightarrow> x"
  have x: "P ?x" using assms(2,3) by (cases old) auto
  have ms: "list_all (\<lambda>(k, v). valid_utf8 k \<and> json_texts v) ms" using assms(4) JObj by simp
  obtain y where y: "read_members f ?x ms = Some y" "new = Some y" using assms(5) JObj by auto
  have "P y" by (rule read_members_inv [of P f, OF _ x ms y(1)]) (rule assms(1))
  then show ?thesis by (simp add: y(2))
qed (use assms(5) in auto)

lemma read_strs_typed:
  "list_all valid_utf8 mem \<Longrightarrow> list_all json_texts js \<Longrightarrow> read_strs mem js = Some ss \<Longrightarrow> list_all valid_utf8 ss"
proof (induction js arbitrary: mem ss)
  case (Cons j js)
  have "valid_utf8 (case mem of [] \<Rightarrow> [] | s # _ \<Rightarrow> s)" using Cons.prems(1) by (cases mem) auto
  moreover have "list_all valid_utf8 (tl mem)" using Cons.prems(1) by (cases mem) auto
  ultimately show ?case using Cons by (auto split: option.splits dest: read_str_valid)
qed simp

lemma read_slice_typed:
  assumes "list_all valid_utf8 mem" and "json_texts v" and "read_slice mem v = Some (x, mem')"
  shows "list_all valid_utf8 x \<and> list_all valid_utf8 mem'"
proof (cases v)
  case (JArr js)
  have "list_all valid_utf8 (drop (length js) mem)" using assms(1) by (auto simp: list_all_iff dest: in_set_dropD)
  with assms JArr show ?thesis by (auto split: if_splits dest: read_strs_typed)
qed (use assms(3) in auto)

lemma attrs_typed_Nil [simp]: "attrs_typed []"
  by (simp add: attrs_typed_def keys_of_def)

lemma attrs_typed_upsert:
  assumes "attrs_typed m" and "valid_utf8 k" and "any_typed v"
  shows "attrs_typed (upsert k v m)"
proof -
  have "valid_utf8 k' \<and> any_typed v'" if "(k', v') \<in> set (upsert k v m)" for k' v'
    using that assms by (auto simp: upsert_def attrs_typed_def list_all_iff split: if_splits)
  then have "list_all (\<lambda>(k, v). valid_utf8 k \<and> any_typed v) (upsert k v m)" by (auto simp: list_all_iff)
  moreover have "distinct (keys_of (upsert k v m))" using assms(1) by (auto simp: keys_upsert attrs_typed_def)
  ultimately show ?thesis by (simp add: attrs_typed_def)
qed

lemma read_attrs_typed:
  "attrs_typed m \<Longrightarrow> list_all (\<lambda>(k, v). valid_utf8 k \<and> json_texts v) ms \<Longrightarrow> read_attrs m ms = Some m' \<Longrightarrow> attrs_typed m'"
proof (induction ms arbitrary: m)
  case (Cons kv ms)
  obtain k v where kv: "kv = (k, v)" by fastforce
  with Cons.prems have v: "any_ok v" "json_texts v" "valid_utf8 k" "read_attrs (upsert k (AnyJson (decode_json v)) m) ms = Some m'"
    by (auto split: if_splits)
  have "attrs_typed (upsert k (AnyJson (decode_json v)) m)"
    by (rule attrs_typed_upsert [OF Cons.prems(1) v(3) any_typed_decode [OF v(2,1)]])
  from Cons.IH [OF this _ v(4)] Cons.prems(2) show ?case by simp
qed simp

lemma read_attributes_typed:
  "attrs_typed m \<Longrightarrow> json_texts v \<Longrightarrow> read_attributes m v = Some m' \<Longrightarrow> attrs_typed m'"
  by (cases v) (auto dest: read_attrs_typed)

lemma read_timestamp_typed: "time_typed t \<Longrightarrow> read_timestamp t v = Some t' \<Longrightarrow> time_typed t'"
  by (cases v) (auto dest: read_time_typed)

lemma typed_updates:
  assumes "envelope_typed ev"
  shows "valid_utf8 x \<Longrightarrow> envelope_typed (eEventID_update (\<lambda>_. x) ev)"
    and "valid_utf8 x \<Longrightarrow> envelope_typed (eCorrelationID_update (\<lambda>_. x) ev)"
    and "valid_utf8 x \<Longrightarrow> envelope_typed (eTraceID_update (\<lambda>_. x) ev)"
    and "valid_utf8 x \<Longrightarrow> envelope_typed (eEventType_update (\<lambda>_. x) ev)"
    and "valid_utf8 x \<Longrightarrow> envelope_typed (eOperation_update (\<lambda>_. x) ev)"
    and "valid_utf8 x \<Longrightarrow> envelope_typed (eLawfulBasis_update (\<lambda>_. x) ev)"
    and "valid_utf8 x \<Longrightarrow> envelope_typed (ePurpose_update (\<lambda>_. x) ev)"
    and "valid_utf8 x \<Longrightarrow> envelope_typed (eOutcome_update (\<lambda>_. x) ev)"
    and "valid_utf8 x \<Longrightarrow> envelope_typed (eIP_update (\<lambda>_. x) ev)"
    and "valid_utf8 x \<Longrightarrow> envelope_typed (eDevice_update (\<lambda>_. x) ev)"
    and "valid_utf8 x \<Longrightarrow> envelope_typed (ePrevHash_update (\<lambda>_. x) ev)"
    and "valid_utf8 x \<Longrightarrow> envelope_typed (eHash_update (\<lambda>_. x) ev)"
    and "time_typed t \<Longrightarrow> envelope_typed (eOccurredAt_update (\<lambda>_. t) ev)"
    and "attrs_typed m \<Longrightarrow> envelope_typed (eAttributes_update (\<lambda>_. m) ev)"
    and "list_all valid_utf8 (elems cs) \<Longrightarrow> envelope_typed (eCategories_update (\<lambda>_. cs) ev)"
    and "list_all valid_utf8 xs \<Longrightarrow> envelope_typed (eDataSubjects_update (\<lambda>_. xs) ev)"
    and "pred_option actor_typed a \<Longrightarrow> envelope_typed (eActor_update (\<lambda>_. a) ev)"
    and "pred_option resource_typed r \<Longrightarrow> envelope_typed (eResource_update (\<lambda>_. r) ev)"
  using assms by (simp_all add: envelope_typed_def)

lemma on_env_typed: "env_state_typed s \<Longrightarrow> envelope_typed (f (esEnv s)) \<Longrightarrow> env_state_typed (on_env s f)"
  by (simp add: env_state_typed_def)

lemma read_envelope_field_typed:
  assumes "env_state_typed s" and "field_is ''occurred_at'' k \<or> json_texts v" and "read_envelope_field s k v = Some s'"
  shows "env_state_typed s'"
proof (cases "field_is ''occurred_at'' k")
  case True
  then have "\<not> field_is ''event_id'' k" by (simp add: field_is_def env_fold_names)
  with True assms(1,3) show ?thesis
    by (auto simp: read_envelope_field_def env_state_typed_def envelope_typed_def dest: read_timestamp_typed)
next
  case False
  then have v: "json_texts v" using assms(2) by simp
  let ?ev = "esEnv s"
  have ev: "envelope_typed ?ev" and mem: "list_all valid_utf8 (esCat s)" "list_all valid_utf8 (esSub s)"
    using assms(1) by (simp_all add: env_state_typed_def)
  have old: "valid_utf8 (eEventID ?ev)" "valid_utf8 (eCorrelationID ?ev)" "valid_utf8 (eTraceID ?ev)" "valid_utf8 (eEventType ?ev)"
    "valid_utf8 (eOperation ?ev)" "valid_utf8 (eLawfulBasis ?ev)" "valid_utf8 (ePurpose ?ev)" "valid_utf8 (eOutcome ?ev)"
    "valid_utf8 (eIP ?ev)" "valid_utf8 (eDevice ?ev)" "valid_utf8 (ePrevHash ?ev)" "valid_utf8 (eHash ?ev)"
    using ev by (simp_all add: envelope_typed_def)
  note str = old [THEN read_str_valid, OF v]
  have actor: "read_pointer read_actor_field \<lparr>aID = [], aType = [], aAssurance = []\<rparr> (eActor ?ev) v = Some x \<Longrightarrow>
      pred_option actor_typed x" for x
    by (rule read_pointer_typed [of actor_typed, OF read_actor_field_typed])
       (use ev v in \<open>auto simp: actor_typed_def envelope_typed_def\<close>)
  have resource: "read_pointer read_resource_field \<lparr>rsType = [], rsID = []\<rparr> (eResource ?ev) v = Some x \<Longrightarrow>
      pred_option resource_typed x" for x
    by (rule read_pointer_typed [of resource_typed, OF read_resource_field_typed])
       (use ev v in \<open>auto simp: resource_typed_def envelope_typed_def\<close>)
  have attrs: "read_attributes (eAttributes ?ev) v = Some x \<Longrightarrow> attrs_typed x" for x
    using read_attributes_typed ev v by (auto simp: envelope_typed_def)
  have time: "read_timestamp (eOccurredAt ?ev) v = Some x \<Longrightarrow> time_typed x" for x
    using read_timestamp_typed ev by (auto simp: envelope_typed_def)
  have cat: "read_nil_slice (esCat s) v = Some (x, m) \<Longrightarrow> list_all valid_utf8 (elems x) \<and> list_all valid_utf8 m" for x m
    using read_slice_typed [OF mem(1) v] by (auto simp: read_nil_slice_def)
  have sub: "read_slice (esSub s) v = Some (x, m) \<Longrightarrow> list_all valid_utf8 x \<and> list_all valid_utf8 m" for x m
    using read_slice_typed mem(2) v by blast
  note typed = typed_updates [OF ev]
  show ?thesis
    using assms(1,3) mem
    by (auto simp: read_envelope_field_def Let_def env_state_typed_def split: if_splits
        dest!: str actor resource attrs time cat sub intro!: typed)
qed

lemma as_token_typed:
  assumes "\<forall>(k, v) \<in> set ms. json_texts v" and "(k, v) \<in> set (map2 as_token ms raws)"
  shows "field_is ''occurred_at'' k \<or> json_texts v"
proof -
  obtain kv raw where kv: "kv \<in> set ms" "(k, v) = as_token kv raw"
    using assms(2) by (auto dest: set_zip_leftD)
  then show ?thesis using assms(1) by (cases kv) (auto simp: as_token_def split: if_splits)
qed

lemma unmarshal_typed:
  assumes "unmarshal_envelope payload = Some ev"
  shows "envelope_typed ev"
proof -
  obtain j where j: "json_parse payload = Some j" "read_envelope (with_tokens j (raw_values payload)) = Some ev"
    using assms by (auto simp: unmarshal_envelope_def split: option.splits)
  have t: "json_texts j" by (rule json_parse_texts [OF j(1)])
  show ?thesis
  proof (cases j)
    case (JObj ms)
    let ?ms = "map2 as_token ms (raw_values payload)"
    have e: "env_state_typed empty_state" by (simp add: env_state_typed_def empty_state_def zero_envelope_typed)
    have "\<forall>(k, v) \<in> set ms. json_texts v" using t JObj by (auto simp: list_all_iff)
    then have ms: "\<forall>(k, v) \<in> set ?ms. field_is ''occurred_at'' k \<or> json_texts v" using as_token_typed by blast
    from j(2) JObj obtain s where s: "read_members read_envelope_field empty_state ?ms = Some s" "ev = esEnv s" by auto
    have "env_state_typed s"
      by (rule read_members_rule
          [where P = env_state_typed and Q = "\<lambda>k v. field_is ''occurred_at'' k \<or> json_texts v", OF _ e ms s(1)])
        (rule read_envelope_field_typed)
    then show ?thesis by (simp add: env_state_typed_def s(2))
  qed (use j(2) zero_envelope_typed in auto)
qed

text \<open>A decoded envelope can be written again unless its zone is a day or more.\<close>

lemma members_json_typed: "list_all (\<lambda>(k, v). any_typed v) m \<Longrightarrow> \<exists>ms. members_json m = Some ms"
proof (induction m)
  case (Cons kv m)
  obtain k v where kv: "kv = (k, v)" by fastforce
  with Cons show ?case by (cases v) auto
qed simp

lemma marshal_typed:
  assumes "envelope_typed ev"
  shows "marshal_envelope ev = None \<longleftrightarrow> 86400 \<le> \<bar>tOff (eOccurredAt ev)\<bar>"
proof -
  have "list_all (\<lambda>(k, v). any_typed v) (sort_key fst (eAttributes ev))"
    using assms by (auto simp: envelope_typed_def attrs_typed_def list_all_iff)
  then obtain ms where "members_json (sort_key fst (eAttributes ev)) = Some ms" using members_json_typed by blast
  then have "attributes_json (eAttributes ev) \<noteq> None" by (auto simp: attributes_json_def)
  then show ?thesis
    using assms time_text_typed [of "eOccurredAt ev"]
    by (auto simp: marshal_envelope_def envelope_json_def envelope_typed_def split: option.splits)
qed

subsection \<open>Properties\<close>

text \<open>
  C18. A handler is only ever called with well-typed events. Whatever bytes the broker delivers,
  an envelope decoded from them has valid UTF-8 strings everywhere (event, actor, resource,
  categories, subjects, attribute keys and values), a real date and time of a four digit year
  with a zone of whole minutes and at most 25 hours (\<open>encoding/json\<close> accepts \<open>+24:60\<close>), and one
  value per attribute key, each as an \<open>any\<close> holds it: numbers are floats, objects have one
  value per key. Such an event can be encoded again exactly when its zone is below a day: one
  at \<open>+24:00\<close> is handled and cannot be passed on. And two handlers that agree on such
  complete events cannot be told apart through \<open>Dispatch\<close>: result, store, handler state and
  metrics are the same for every payload.
\<close>

theorem Dispatch_typed:
  assumes "\<forall>h ev. envelope_typed ev \<and> Validate ev = None \<longrightarrow> handle h ev = handle' h ev"
  shows "(\<forall>ev. unmarshal_envelope payload = Some ev \<longrightarrow>
      envelope_typed ev \<and> (marshal_envelope ev = None \<longleftrightarrow> 86400 \<le> \<bar>tOff (eOccurredAt ev)\<bar>))
    \<and> Dispatch U payload store (Some handle) s h m = Dispatch U payload store (Some handle') s h m"
proof
  show typed: "\<forall>ev. unmarshal_envelope payload = Some ev \<longrightarrow>
      envelope_typed ev \<and> (marshal_envelope ev = None \<longleftrightarrow> 86400 \<le> \<bar>tOff (eOccurredAt ev)\<bar>)"
    using unmarshal_typed marshal_typed by blast
  have "handle h ev = handle' h ev" if "unmarshal_envelope payload = Some ev" "Validate ev = None" for ev h
    using that typed assms by blast
  then show "Dispatch U payload store (Some handle) s h m = Dispatch U payload store (Some handle') s h m"
    by (simp add: Dispatch_def split: option.split sum.split prod.split bool.split)
qed

text \<open>Invalid bytes in the id, a zone of 24 hours, and an attribute given twice.\<close>

definition hostile_payload :: string where
  "hostile_payload = ''{'' @ [DQ] @ ''event_id'' @ [DQ] @ '':'' @ [DQ, char_of (255 :: nat), DQ] @ '','' @
     [DQ] @ ''occurred_at'' @ [DQ] @ '':'' @ [DQ] @ ''2024-02-29T7:59:58,5+24:00'' @ [DQ] @ '','' @
     [DQ] @ ''Attributes'' @ [DQ] @ '':{'' @ [DQ] @ ''a'' @ [DQ] @ '':true,'' @ [DQ] @ ''a'' @ [DQ] @ '':null}}''"

lemma Dispatch_typed_witness:
  "\<exists>ev. unmarshal_envelope hostile_payload = Some ev \<and> envelope_typed ev \<and> eEventID ev = encode_rune rune_error \<and>
     eAttributes ev = [(''a'', AnyJson JNull)] \<and> tOff (eOccurredAt ev) = 86400 \<and> marshal_envelope ev = None \<and>
     Dispatch sample_tables sample_payload (Some memory_store) (Some ok_handler) NewMemoryIdempotencyStore 0 no_metrics =
     Dispatch sample_tables sample_payload (Some memory_store)
       (Some (\<lambda>h ev. if envelope_typed ev then ok_handler h ev else (h, ev, Some ''ill-typed''))) NewMemoryIdempotencyStore 0
       no_metrics"
proof -
  let ?strict = "\<lambda>h ev. if envelope_typed ev then ok_handler h ev else (h, ev, Some ''ill-typed'')"
  have agree: "\<forall>h ev. envelope_typed ev \<and> Validate ev = None \<longrightarrow> ok_handler h ev = ?strict h ev" by simp
  have "case unmarshal_envelope hostile_payload of None \<Rightarrow> False
    | Some ev \<Rightarrow> eEventID ev = encode_rune rune_error \<and> eAttributes ev = [(''a'', AnyJson JNull)] \<and>
        tOff (eOccurredAt ev) = 86400" by code_simp
  then obtain ev where ev: "unmarshal_envelope hostile_payload = Some ev" "eEventID ev = encode_rune rune_error"
    "eAttributes ev = [(''a'', AnyJson JNull)]" "tOff (eOccurredAt ev) = 86400" by (auto split: option.splits)
  have t: "envelope_typed ev" "marshal_envelope ev = None"
    using conjunct1 [OF Dispatch_typed [OF agree, of hostile_payload]] ev(1,4) by simp_all
  have d: "Dispatch sample_tables sample_payload (Some memory_store) (Some ok_handler) NewMemoryIdempotencyStore 0 no_metrics =
      Dispatch sample_tables sample_payload (Some memory_store) (Some ?strict) NewMemoryIdempotencyStore 0 no_metrics"
    by (rule conjunct2 [OF Dispatch_typed [OF agree]])
  show ?thesis by (intro exI [of _ ev] conjI) (rule ev t d)+
qed

end
