(* ===== verification/Config.thy ===== *)
theory Config
  imports Prelude
begin

text \<open>
  \<open>config/config.go\<close>: the bindings of the base configuration.

  The configuration library is not part of the repository: a \<open>viper\<close> object is a value of
  type \<open>'v\<close>, and its operations, with the ones of the framework's own configuration package,
  are the fields of \<open>config_api\<close>. \<open>viper_laws\<close> states the documented behaviour the code
  relies on: the order in which the sources of a key are consulted, and what \<open>SetDefault\<close> and
  \<open>BindEnv\<close> add to them. \<open>corecfg.Bind\<close> is generic; \<open>bind_Telemetry\<close> and \<open>bind_Broker\<close> are its two
  instances, the second one given the \<open>Bind\<close> method of this package's section, and \<open>core_binds\<close>
  is what is relied on: the method runs on the prefix and there is a section afterwards. An embedded or section pointer is an \<open>option\<close>. \<open>Validate\<close> hands
  the whole structure to the validator and is not modelled.
\<close>

record broker_config =
  bURL :: string
  bTLSCert :: string
  bTLSKey :: string
  bTLSCA :: string

record ('v, 'a, 't, 'e) config_api =
  SetDefault :: "'v \<Rightarrow> string \<Rightarrow> string \<Rightarrow> 'v"
  BindEnv :: "'v \<Rightarrow> string \<Rightarrow> string \<Rightarrow> 'v"
  GetString :: "(string \<Rightarrow> string) \<Rightarrow> 'v \<Rightarrow> string \<Rightarrow> string"
  LoadRemoteSecret :: "string \<Rightarrow> 'e + string"
  azugo_New :: 'a
  azugo_Bind :: "'a \<Rightarrow> string \<Rightarrow> 'v \<Rightarrow> 'v"
  bind_Telemetry :: "'t option \<Rightarrow> string \<Rightarrow> 'v \<Rightarrow> 't option \<times> 'v"
  bind_Broker :: "(string \<Rightarrow> 'v \<Rightarrow> 'v) \<Rightarrow> broker_config option \<Rightarrow> string \<Rightarrow> 'v \<Rightarrow> broker_config option \<times> 'v"

record ('a, 't) base_config =
  bcAzugo :: 'a
  bcServiceName :: string
  bcTelemetry :: "'t option"
  bcBroker :: "broker_config option"

definition New :: "('v, 'a, 't, 'e) config_api \<Rightarrow> ('a, 't) base_config" where
  "New V = \<lparr>bcAzugo = azugo_New V, bcServiceName = [], bcTelemetry = None, bcBroker = None\<rparr>"

definition loadSecret :: "('v, 'a, 't, 'e) config_api \<Rightarrow> 'v \<Rightarrow> string \<Rightarrow> string \<Rightarrow> 'v" where
  "loadSecret V v key name = (case LoadRemoteSecret V name of
      Inr secret \<Rightarrow> if secret \<noteq> [] then SetDefault V v key secret else v
    | Inl err \<Rightarrow> v)"

definition Broker_Bind :: "('v, 'a, 't, 'e) config_api \<Rightarrow> string \<Rightarrow> 'v \<Rightarrow> 'v" where
  "Broker_Bind V prefix v =
     (let v = loadSecret V v (prefix @ ''.tls_cert'') ''BROKER_TLS_CERT'';
          v = loadSecret V v (prefix @ ''.tls_key'') ''BROKER_TLS_KEY'';
          v = loadSecret V v (prefix @ ''.tls_ca'') ''BROKER_TLS_CA'';
          v = BindEnv V v (prefix @ ''.url'') ''BROKER_URL'';
          v = BindEnv V v (prefix @ ''.tls_cert'') ''BROKER_TLS_CERT'';
          v = BindEnv V v (prefix @ ''.tls_key'') ''BROKER_TLS_KEY''
      in BindEnv V v (prefix @ ''.tls_ca'') ''BROKER_TLS_CA'')"

definition Base_Bind ::
  "('v, 'a, 't, 'e) config_api \<Rightarrow> ('a, 't) base_config \<Rightarrow> 'v \<Rightarrow> ('a, 't) base_config \<times> 'v" where
  "Base_Bind V c v =
     (let v = azugo_Bind V (bcAzugo c) [] v;
          (telemetry, v) = bind_Telemetry V (bcTelemetry c) ''telemetry'' v;
          c = c\<lparr>bcTelemetry := telemetry\<rparr>;
          (broker, v) = bind_Broker V (Broker_Bind V) (bcBroker c) ''broker'' v;
          c = c\<lparr>bcBroker := broker\<rparr>
      in (c, BindEnv V v ''service_name'' ''SERVICE_NAME''))"

subsection \<open>What the bindings resolve to\<close>

text \<open>
  What the library keeps of a key: a value set explicitly or by a flag, the environment
  variables bound to it in order, the value of a configuration file or remote store, and the
  default. \<open>vKeys\<close> are the keys it speaks of: lower-case ones (keys are not case-sensitive),
  none of them a section that holds another.
\<close>

record 'v viper_view =
  vKeys :: "string set"
  vSet :: "'v \<Rightarrow> string \<Rightarrow> string option"
  vNames :: "'v \<Rightarrow> string \<Rightarrow> string list"
  vFile :: "'v \<Rightarrow> string \<Rightarrow> string option"
  vDefault :: "'v \<Rightarrow> string \<Rightarrow> string"

text \<open>The documented order of precedence; an empty environment variable counts as unset.\<close>

definition env_value :: "(string \<Rightarrow> string) \<Rightarrow> string list \<Rightarrow> string option" where
  "env_value env names = first_some (\<lambda>n. if env n \<noteq> [] then Some (env n) else None) names"

definition read_key ::
  "(string \<Rightarrow> string) \<Rightarrow> string option \<Rightarrow> string list \<Rightarrow> string option \<Rightarrow> string \<Rightarrow> string" where
  "read_key env explicit names file dflt = (case explicit of
      Some s \<Rightarrow> s
    | None \<Rightarrow> (case env_value env names of
        Some s \<Rightarrow> s
      | None \<Rightarrow> (case file of Some s \<Rightarrow> s | None \<Rightarrow> dflt)))"

definition viper_laws :: "('v, 'a, 't, 'e) config_api \<Rightarrow> 'v viper_view \<Rightarrow> bool" where
  "viper_laws V W \<longleftrightarrow>
     (\<forall>env v. \<forall>k \<in> vKeys W.
        GetString V env v k = read_key env (vSet W v k) (vNames W v k) (vFile W v k) (vDefault W v k)) \<and>
     (\<forall>v x. \<forall>q \<in> vKeys W. \<forall>k \<in> vKeys W.
        vSet W (SetDefault V v q x) k = vSet W v k \<and> vNames W (SetDefault V v q x) k = vNames W v k \<and>
        vFile W (SetDefault V v q x) k = vFile W v k \<and>
        vDefault W (SetDefault V v q x) k = (if k = q then x else vDefault W v k)) \<and>
     (\<forall>v n. \<forall>q \<in> vKeys W. \<forall>k \<in> vKeys W.
        vSet W (BindEnv V v q n) k = vSet W v k \<and> vFile W (BindEnv V v q n) k = vFile W v k \<and>
        vDefault W (BindEnv V v q n) k = vDefault W v k \<and>
        vNames W (BindEnv V v q n) k = (if k = q then vNames W v k @ [n] else vNames W v k))"

definition core_binds :: "('v, 'a, 't, 'e) config_api \<Rightarrow> bool" where
  "core_binds V \<longleftrightarrow> (\<forall>bind section prefix v.
     (case bind_Broker V bind section prefix v of (section', v') \<Rightarrow> section' \<noteq> None \<and> v' = bind prefix v))"

definition secret_of :: "('v, 'a, 't, 'e) config_api \<Rightarrow> string \<Rightarrow> string" where
  "secret_of V name = (case LoadRemoteSecret V name of Inr secret \<Rightarrow> secret | Inl e \<Rightarrow> [])"

lemma loadSecret_view:
  assumes "viper_laws V W" and "q \<in> vKeys W" and "k \<in> vKeys W"
  shows "vSet W (loadSecret V v q name) k = vSet W v k" "vNames W (loadSecret V v q name) k = vNames W v k"
    "vFile W (loadSecret V v q name) k = vFile W v k"
    "vDefault W (loadSecret V v q name) k =
       (if k = q \<and> secret_of V name \<noteq> [] then secret_of V name else vDefault W v k)"
  using assms by (auto simp: loadSecret_def secret_of_def viper_laws_def split: sum.split)

lemma BindEnv_view:
  assumes "viper_laws V W" and "q \<in> vKeys W" and "k \<in> vKeys W"
  shows "vSet W (BindEnv V v q n) k = vSet W v k" "vFile W (BindEnv V v q n) k = vFile W v k"
    "vDefault W (BindEnv V v q n) k = vDefault W v k"
    "vNames W (BindEnv V v q n) k = (if k = q then vNames W v k @ [n] else vNames W v k)"
  using assms by (auto simp: viper_laws_def)

definition broker_keys :: "string \<Rightarrow> string set" where
  "broker_keys p = {p @ ''.url'', p @ ''.tls_cert'', p @ ''.tls_key'', p @ ''.tls_ca''}"

lemma Broker_Bind_view:
  assumes "viper_laws V W" and "broker_keys p \<subseteq> vKeys W" and "k \<in> vKeys W"
  shows "vSet W (Broker_Bind V p v) k = vSet W v k" and "vFile W (Broker_Bind V p v) k = vFile W v k"
    and "vNames W (Broker_Bind V p v) k = vNames W v k @
      (if k = p @ ''.url'' then [''BROKER_URL''] else if k = p @ ''.tls_cert'' then [''BROKER_TLS_CERT'']
       else if k = p @ ''.tls_key'' then [''BROKER_TLS_KEY''] else if k = p @ ''.tls_ca'' then [''BROKER_TLS_CA'']
       else [])"
    and "vDefault W (Broker_Bind V p v) k =
      (if k = p @ ''.tls_ca'' \<and> secret_of V ''BROKER_TLS_CA'' \<noteq> [] then secret_of V ''BROKER_TLS_CA''
       else if k = p @ ''.tls_key'' \<and> secret_of V ''BROKER_TLS_KEY'' \<noteq> [] then secret_of V ''BROKER_TLS_KEY''
       else if k = p @ ''.tls_cert'' \<and> secret_of V ''BROKER_TLS_CERT'' \<noteq> [] then secret_of V ''BROKER_TLS_CERT''
       else vDefault W v k)"
proof -
  have q: "p @ ''.url'' \<in> vKeys W" "p @ ''.tls_cert'' \<in> vKeys W" "p @ ''.tls_key'' \<in> vKeys W" "p @ ''.tls_ca'' \<in> vKeys W"
    using assms(2) by (auto simp: broker_keys_def)
  note view = loadSecret_view [OF assms(1)] BindEnv_view [OF assms(1)] assms(3)
  show "vSet W (Broker_Bind V p v) k = vSet W v k" "vFile W (Broker_Bind V p v) k = vFile W v k"
    by (simp_all add: Broker_Bind_def Let_def view q)
  show "vNames W (Broker_Bind V p v) k = vNames W v k @
      (if k = p @ ''.url'' then [''BROKER_URL''] else if k = p @ ''.tls_cert'' then [''BROKER_TLS_CERT'']
       else if k = p @ ''.tls_key'' then [''BROKER_TLS_KEY''] else if k = p @ ''.tls_ca'' then [''BROKER_TLS_CA'']
       else [])"
    by (simp add: Broker_Bind_def Let_def view q)
  show "vDefault W (Broker_Bind V p v) k =
      (if k = p @ ''.tls_ca'' \<and> secret_of V ''BROKER_TLS_CA'' \<noteq> [] then secret_of V ''BROKER_TLS_CA''
       else if k = p @ ''.tls_key'' \<and> secret_of V ''BROKER_TLS_KEY'' \<noteq> [] then secret_of V ''BROKER_TLS_KEY''
       else if k = p @ ''.tls_cert'' \<and> secret_of V ''BROKER_TLS_CERT'' \<noteq> [] then secret_of V ''BROKER_TLS_CERT''
       else vDefault W v k)"
    by (simp add: Broker_Bind_def Let_def view q)
qed

subsection \<open>Properties\<close>

text \<open>
  C36. Where the broker's settings come from. \<open>Bind\<close> binds the endpoint, the TLS material and
  the service name to their environment variables, after any they were bound to before, and
  makes a non-empty secret of the store the default of its part of the TLS material. So
  where nothing else sets a key, TLS material reads as its variable, otherwise as the secret,
  otherwise as the earlier default, and the endpoint and the service name never come from
  the secret store; values set explicitly keep their precedence over all of it. The sections
  exist afterwards, and no other key changes its meaning.
\<close>

theorem Bind_precedence:
  assumes "viper_laws V W" and "broker_keys ''broker'' \<union> {''service_name''} \<subseteq> vKeys W"
    and "bind_Telemetry V (bcTelemetry c) ''telemetry'' (azugo_Bind V (bcAzugo c) [] v) = (t, v1)"
    and "Base_Bind V c v = (c', v')" and "core_binds V"
  shows "(\<forall>(key, name) \<in> {(''broker.tls_cert'', ''BROKER_TLS_CERT''), (''broker.tls_key'', ''BROKER_TLS_KEY''),
        (''broker.tls_ca'', ''BROKER_TLS_CA'')}.
      GetString V env v' key = read_key env (vSet W v1 key) (vNames W v1 key @ [name]) (vFile W v1 key)
        (if secret_of V name \<noteq> [] then secret_of V name else vDefault W v1 key))
    \<and> (\<forall>(key, name) \<in> {(''broker.url'', ''BROKER_URL''), (''service_name'', ''SERVICE_NAME'')}.
      GetString V env v' key = read_key env (vSet W v1 key) (vNames W v1 key @ [name]) (vFile W v1 key)
        (vDefault W v1 key))
    \<and> bcBroker c' \<noteq> None \<and> bcTelemetry c' = t \<and> bcAzugo c' = bcAzugo c \<and> bcServiceName c' = bcServiceName c
    \<and> (\<forall>key \<in> vKeys W - broker_keys ''broker'' - {''service_name''}.
      GetString V env v' key = GetString V env v1 key)"
proof -
  have v': "v' = BindEnv V (Broker_Bind V ''broker'' v1) ''service_name'' ''SERVICE_NAME''"
    and c': "bcBroker c' \<noteq> None" "bcTelemetry c' = t" "bcAzugo c' = bcAzugo c" "bcServiceName c' = bcServiceName c"
    using assms(3-5) unfolding Base_Bind_def core_binds_def by (fastforce split: prod.splits)+
  have q: "broker_keys ''broker'' \<subseteq> vKeys W" "''service_name'' \<in> vKeys W" "''broker.url'' \<in> vKeys W"
    "''broker.tls_cert'' \<in> vKeys W" "''broker.tls_key'' \<in> vKeys W" "''broker.tls_ca'' \<in> vKeys W"
    using assms(2) by (auto simp: broker_keys_def)
  have get: "GetString V env v k = read_key env (vSet W v k) (vNames W v k) (vFile W v k) (vDefault W v k)"
    if "k \<in> vKeys W" for v k using assms(1) that by (simp add: viper_laws_def)
  note view = BindEnv_view [OF assms(1) q(2)] Broker_Bind_view [OF assms(1) q(1)]
  have "GetString V env v' key = GetString V env v1 key"
    if "key \<in> vKeys W - broker_keys ''broker'' - {''service_name''}" for key
    using that by (simp add: get v' view broker_keys_def)
  moreover have "\<forall>(key, name) \<in> {(''broker.tls_cert'', ''BROKER_TLS_CERT''), (''broker.tls_key'', ''BROKER_TLS_KEY''),
        (''broker.tls_ca'', ''BROKER_TLS_CA'')}.
      GetString V env v' key = read_key env (vSet W v1 key) (vNames W v1 key @ [name]) (vFile W v1 key)
        (if secret_of V name \<noteq> [] then secret_of V name else vDefault W v1 key)"
    by (simp add: get v' view q)
  moreover have "\<forall>(key, name) \<in> {(''broker.url'', ''BROKER_URL''), (''service_name'', ''SERVICE_NAME'')}.
      GetString V env v' key = read_key env (vSet W v1 key) (vNames W v1 key @ [name]) (vFile W v1 key)
        (vDefault W v1 key)"
    by (simp add: get v' view q)
  ultimately show ?thesis using c' by blast
qed

text \<open>A library that keeps the bound variables and the defaults of the five keys, and no more.\<close>

type_synonym bindings = "(string \<Rightarrow> string list) \<times> (string \<Rightarrow> string)"

definition map_view :: "bindings viper_view" where
  "map_view = \<lparr>vKeys = broker_keys ''broker'' \<union> {''service_name''}, vSet = (\<lambda>v k. None), vNames = fst,
     vFile = (\<lambda>v k. None), vDefault = snd\<rparr>"

definition map_viper :: "(bindings, unit, unit, unit) config_api" where
  "map_viper = \<lparr>SetDefault = (\<lambda>v k x. (fst v, (snd v)(k := x))), BindEnv = (\<lambda>v k n. ((fst v)(k := fst v k @ [n]), snd v)),
     GetString = (\<lambda>env v k. read_key env None (fst v k) None (snd v k)),
     LoadRemoteSecret = (\<lambda>n. if n = ''BROKER_TLS_CA'' then Inr ''PEM'' else Inl ()),
     azugo_New = (), azugo_Bind = (\<lambda>a p v. v), bind_Telemetry = (\<lambda>t p v. (Some (), v)),
     bind_Broker = (\<lambda>bind s p v. (Some (case s of None \<Rightarrow> \<lparr>bURL = [], bTLSCert = [], bTLSKey = [], bTLSCA = []\<rparr> | Some b \<Rightarrow> b),
       bind p v))\<rparr>"

lemma Bind_precedence_witness:
  "\<exists>c v. Base_Bind map_viper (New map_viper) (\<lambda>k. [], \<lambda>k. []) = (c, v) \<and>
     GetString map_viper (\<lambda>n. if n = ''BROKER_TLS_KEY'' then ''K'' else []) v ''broker.tls_ca'' = ''PEM'' \<and>
     GetString map_viper (\<lambda>n. if n = ''BROKER_TLS_KEY'' then ''K'' else []) v ''broker.tls_key'' = ''K'' \<and>
     GetString map_viper (\<lambda>n. if n = ''BROKER_TLS_KEY'' then ''K'' else []) v ''broker.tls_cert'' = []"
proof -
  have laws: "viper_laws map_viper map_view" by (simp add: viper_laws_def map_viper_def map_view_def)
  have keys: "broker_keys ''broker'' \<union> {''service_name''} \<subseteq> vKeys map_view" by (simp add: map_view_def)
  have t: "bind_Telemetry map_viper (bcTelemetry (New map_viper)) ''telemetry''
      (azugo_Bind map_viper (bcAzugo (New map_viper)) [] (\<lambda>k. [], \<lambda>k. [])) = (Some (), (\<lambda>k. [], \<lambda>k. []))"
    by (simp add: map_viper_def)
  obtain c v where b: "Base_Bind map_viper (New map_viper) (\<lambda>k. [], \<lambda>k. []) = (c, v)"
    by (metis prod.exhaust)
  have s: "secret_of map_viper ''BROKER_TLS_CA'' = ''PEM''" "secret_of map_viper ''BROKER_TLS_KEY'' = []"
    "secret_of map_viper ''BROKER_TLS_CERT'' = []" by (simp_all add: secret_of_def map_viper_def)
  have core: "core_binds map_viper" by (simp add: core_binds_def map_viper_def)
  from Bind_precedence [OF laws keys t b core, of "\<lambda>n. if n = ''BROKER_TLS_KEY'' then ''K'' else []"] b s
  show ?thesis by (simp add: read_key_def env_value_def map_view_def)
qed

end
