(* ===== verification/Spec2Isabelle.thy ===== *)
theory Spec2Isabelle
  imports Path_Param Reason_Race Fair_Delivery Event_Trail Log_Trail Event_Types Config
begin

text \<open>
  A verification of go-platform-kit, the library the Go services of one fleet share.

  \<^bold>\<open>The program.\<close> A service calls \<open>platform.Setup\<close> once. It enables tracing, wraps the logger's
  core so that no line leaks a secret, installs the correlation middleware, and installs one
  error handler. Each request is then bound to a correlation id (package \<open>correlation\<close>, over
  the context keys of \<open>propagation\<close>), which outbound calls carry on (\<open>httpclient\<close>), log lines,
  spans and response headers show, and events (\<open>broker\<close>) and error bodies (\<open>errors\<close>) contain. An
  error is a Go error of any type; the handler turns it into a problem envelope, names the
  service as its source unless a downstream service already is, runs the audit hooks only at
  that source, and writes it as JSON. A caller parses the body and relays it, so that the chain
  of services stays visible up to the public boundary, which strips it. Events are stamped,
  validated, stripped of credentials and published over a transport; consumers dispatch them
  through an idempotency store and acknowledge what was handled. \<open>config\<close> binds the settings,
  \<open>broker/natsbroker\<close> is the NATS JetStream transport and consumer.

  \<^bold>\<open>Foundations.\<close> \<open>Prelude\<close> has the theorem collections and generic list lemmas. \<open>Go_Strings\<close>
  is Go's strings as byte lists: UTF-8 decoding and encoding, \<open>TrimSpace\<close>, \<open>ToLower\<close>, \<open>Split\<close>,
  \<open>Contains\<close>; the Unicode tables beyond ASCII are an argument. \<open>Go_Json\<close> and \<open>Json_Fields\<close> are
  what the code uses of \<open>encoding/json\<close>: the writer, the reader, struct fields. \<open>Json_Tokens\<close> gives the
  text of a value as it stands, for types that decode themselves, \<open>Go_Float\<close> the \<open>float64\<close> a
  number is decoded as and its shortest text, \<open>Go_Time\<close> RFC 3339 time stamps, written strictly
  and read as loosely as \<open>encoding/json\<close> does. \<open>Framework\<close> is the request context of the web framework: a record of
  functions, \<open>azugo\<close>, with the laws \<open>azugo_laws\<close> that its getters and setters are documented to
  have; \<open>request_azugo\<close> is an instance of them.

  \<^bold>\<open>Components.\<close>
  \<^item> \<open>Error_Values\<close>, \<open>Error_Taxonomy\<close>: \<open>errors/errors.go\<close>. Error values as a datatype with the
    interfaces each type implements, result codes, the reason registry, \<open>FromResultCode\<close> and
    \<open>HTTP\<close>. Lemmas: which texts are codes, which status and message a reason gets, what a
    registration changes, and that no unknown code leaks into a message.
  \<^item> \<open>Problem_Envelope\<close>: \<open>errors/problem.go\<close>. \<open>NewProblem\<close> and its options, \<open>Public\<close>, \<open>Relay\<close>
    with its bounded chain. Lemmas: the public projection does not depend on internals; what a
    path of relays of any length keeps. \<open>Reason_Race\<close> splits \<open>NewProblem\<close> at its two lookups and
    shows what a call returns when a registration falls before, between or after them: the
    registry's lock makes a lookup atomic, not the pair.
  \<^item> \<open>Problem_Wire\<close>, \<open>Wire_Types\<close>: the JSON of a problem, from the struct tags, \<open>MarshalError\<close>
    and \<open>ParseProblem\<close>. Lemmas: what is written is read back; what is read, from any bytes, is
    well-typed and can be written again.
  \<^item> \<open>Error_Handler\<close>: \<open>errors/render.go\<close>. The handler, with the problems that outlive a request
    in an explicit heap. Lemmas: every error leaves as one body, complete under the
    conditions \<open>Handler_renders\<close> names; hooks run at the origin only and cannot change the
    response.
  \<^item> \<open>Propagation\<close>, \<open>Correlation\<close>, \<open>Http_Client\<close>, \<open>Path_Param\<close>: \<open>propagation/\<close>, \<open>correlation/\<close>,
    \<open>httpclient/\<close> with \<open>observability/httpclient.go\<close>, and \<open>web/\<close>. Locales \<open>id_carrier\<close> and
    \<open>two_carriers\<close> state what an id on a context promises and are interpreted for both ids.
  \<^item> \<open>Incident\<close>: errors across those components, a failing request inside the middleware and
    a chain of services relaying an error.
  \<^item> \<open>Event_Envelope\<close>, \<open>Metrics\<close>, \<open>Publisher\<close>, \<open>Consume\<close>: \<open>broker/\<close> and
    \<open>observability/metrics.go\<close>. Locale \<open>idempotency_store\<close> states what a store promises to
    \<open>Dispatch\<close>; the in-memory store is an interpretation of it, and refines a window of ids.
    A publish hands the transport one complete stamped event, and a retry hands it the same one.
  \<^item> \<open>Worker_Pool\<close>: dispatches of several workers, of one instance or many, that interleave, as an
    inductive step relation over the atomic parts of \<open>Dispatch\<close>. Locale \<open>shared_store\<close> extends
    \<open>idempotency_store\<close> by what a store that may fail and forget has to promise; how often an
    event is handled is bounded for any such store, and for the in-memory one in particular.
  \<^item> \<open>Nats_Broker\<close>, \<open>Delivery\<close>: \<open>broker/natsbroker/\<close>, and the stream with the instances of a
    consumer as a step relation whose reachable states are proved never to lose an event and
    always to be able to drain.
  \<^item> \<open>Fair_Delivery\<close>: infinite labelled runs of that machine. Under a server that redelivers what
    it keeps (\<open>redelivers\<close>) and a handler whose failures end, every event is handled in the end.
  \<^item> \<open>Event_Types\<close>: what the envelope decoder hands to a handler is well-typed for any bytes, and
    which of it can be encoded again.
  \<^item> \<open>Event_Trail\<close>: one event from the request that causes it, through the middleware, \<open>Publish\<close>,
    the NATS transport and the stream, to the handler of a consumer.
  \<^item> \<open>Redaction\<close>, \<open>Config\<close>, \<open>Bootstrap\<close>: \<open>observability/redaction.go\<close>, \<open>config/config.go\<close>, and
    \<open>platform/platform.go\<close> with \<open>observability/otel.go\<close>.
  \<^item> \<open>Log_Trail\<close>: the log line of an error, through set-up, middleware, error handler and
    redaction: nothing the kit logs is lost, and the line can be joined to the response.

  \<^bold>\<open>Conventions.\<close> An operation that changes state returns the new state with its result; a nil
  pointer or interface is \<open>None\<close>; a Go error result is an option or a sum; a panic is \<open>None\<close> where
  the code can panic. Go's \<open>int\<close> is \<open>int\<close>, with the 64-bit range checked where a value comes from
  the wire. Clocks and minted ids are arguments. Definitions are executable, and each property
  with a hypothesis has a witness that applies it to concrete data.

  \<^bold>\<open>Fuel and bounds.\<close> The JSON reader takes fuel; \<open>json_fuel\<close>, twice the length of the text plus
  one, is enough for every text (\<open>p_value_fuel\<close>). It refuses what nests deeper than 10000, as
  Go does. A chain of hops holds at most \<open>MaxChainHops\<close> = 8. All other recursion is structural
  or has a measure; \<open>MarkProcessed_terminates\<close> covers the one loop that could fail to end well.

  \<^bold>\<open>Code outside the repository.\<close> The web framework, the NATS client, the configuration, tracing
  and metrics libraries, the ULID generator and the secret store are arguments. What is assumed
  of them are \<open>azugo_laws\<close>, \<open>otel_laws\<close>, \<open>viper_laws\<close>, \<open>core_binds\<close> (the generic section binder
  runs the section's own \<open>Bind\<close>), and of the message server \<open>stream_keeps\<close> (a
  confirmed publish is stored) and \<open>redelivers\<close> (what is kept is delivered again), each with an
  instance. A service's own idempotency store is any one that keeps \<open>shared_store\<close>.

  \<^bold>\<open>Not modelled.\<close> Memory effects of goroutines other than the interleavings of \<open>Worker_Pool\<close>
  and \<open>Reason_Race\<close>: a mutex makes an operation of the store or of the registry one atomic step.
  The \<open>Validate\<close> methods of the configuration, which only call the validator. The contents of log and error
  texts beyond the parts the code fixes. The constants of \<open>broker/envelope.go\<close> for categories,
  operations and outcomes, and the metric names no code of the repository uses: they are data
  for the services. A server that discards messages by age or size, or stops redelivering, is outside \<open>Delivery\<close>.
\<close>

end
